(* ===== verification/Relay_Prelude.thy ===== *)
theory Relay_Prelude
  imports Main "HOL-Library.Word"
begin

text \<open>
  The prelude of the ssh-relay development: the Go vocabulary every component uses.

  \<^item> \<open>byte\<close>, \<open>bytes\<close> and \<open>uuid\<close> name the machine types: a Go \<^verbatim>\<open>byte\<close> is an 8-bit word, a
    \<^verbatim>\<open>[]byte\<close> a list of them, and a \<^verbatim>\<open>uuid.UUID\<close> (a \<^verbatim>\<open>[16]byte\<close>) a 128-bit word.
  \<^item> \<open>go\<close> separates a call that returns from one that panics, so that an index or slice out of range
    and a nil dereference are values of the model, and "never panics" is a theorem.
  \<^item> \<open>go_error\<close> has one constructor per sentinel error variable of the repository and of the
    standard library, \<open>NewError\<close> for an error made on the spot, and \<open>Wrap\<close> for \<^verbatim>\<open>fmt.Errorf\<close> with a
    \<^verbatim>\<open>%w\<close> verb; \<open>Error\<close>, \<open>errors_Is\<close> and \<open>errors_Unwrap\<close> are the standard library's functions on it.
  \<^item> \<open>be16\<close>, \<open>be32\<close>, \<open>be64\<close> and \<open>uint16\<close>, \<open>uint32\<close>, \<open>uint64\<close> are \<^verbatim>\<open>encoding/binary\<close>'s big endian writers
    and readers, by shifts and masks as the library has them, with both round trips.
  The collections \<open>wire_simps\<close> (codecs) and \<open>go_simps\<close> (the effect plumbing) carry the component proofs.
\<close>

unbundle bit_operations_syntax

named_theorems wire_simps
named_theorems go_simps

section \<open>Machine types\<close>

type_synonym byte = "8 word"
type_synonym bytes = "byte list"
type_synonym uuid = "128 word"

text \<open>Go strings are byte sequences; HOL's \<open>char\<close> has eight bits, so the two conversions are inverse.\<close>

definition bytes_of_string :: "string \<Rightarrow> bytes" where
  "bytes_of_string s = map of_char s"

definition string_of_bytes :: "bytes \<Rightarrow> string" where
  "string_of_bytes b = map (\<lambda>x. char_of (unat x)) b"

lemma unat_of_char [simp]: "unat (of_char c :: byte) = of_char c"
proof -
  have "unat (of_char c :: byte) = unat (of_nat (of_char c) :: byte)" by (simp only: of_nat_of_char)
  also have "\<dots> = (of_char c :: nat) mod 256" by (simp only: unat_of_nat) simp
  finally show ?thesis by simp
qed

lemma of_char_char_of_unat [simp]: "(of_char (char_of (unat b) :: char) :: byte) = b"
proof -
  have "(of_char (char_of (unat b) :: char) :: byte) = of_nat (of_char (char_of (unat b) :: char))"
    by (simp only: of_nat_of_char)
  also have "(of_char (char_of (unat b) :: char) :: nat) = unat b mod 256" by (simp only: of_char_of)
  also have "unat b mod 256 = unat b" using unsigned_less [of b, where 'a = nat] by simp
  finally show ?thesis by simp
qed

lemma string_bytes_string [simp]: "string_of_bytes (bytes_of_string s) = s"
  by (simp add: string_of_bytes_def bytes_of_string_def o_def)

lemma bytes_string_bytes [simp]: "bytes_of_string (string_of_bytes b) = b"
  by (simp add: string_of_bytes_def bytes_of_string_def o_def)

lemma length_bytes_of_string [simp]: "length (bytes_of_string s) = length s"
  by (simp add: bytes_of_string_def)

lemma length_string_of_bytes [simp]: "length (string_of_bytes b) = length b"
  by (simp add: string_of_bytes_def)

section \<open>Decimal text\<close>

text \<open>\<^verbatim>\<open>strconv.Itoa\<close> on non-negative numbers, which is also what \<^verbatim>\<open>%v\<close> and \<^verbatim>\<open>%d\<close> print.\<close>

definition digit_char :: "nat \<Rightarrow> char" where
  "digit_char d = char_of (48 + d)"

fun itoa :: "nat \<Rightarrow> string" where
  "itoa n = (if n < 10 then [digit_char n] else itoa (n div 10) @ [digit_char (n mod 10)])"

declare itoa.simps [simp del]

text \<open>\<^verbatim>\<open>%v\<close> on a byte slice prints the bytes in decimal, separated by spaces, in brackets.\<close>

fun fmt_sep :: "string list \<Rightarrow> string" where
  "fmt_sep [] = []"
| "fmt_sep [s] = s"
| "fmt_sep (s # t # ss) = s @ '' '' @ fmt_sep (t # ss)"

definition fmt_bytes :: "bytes \<Rightarrow> string" where
  "fmt_bytes b = ''['' @ fmt_sep (map (\<lambda>x. itoa (unat x)) b) @ '']''"

section \<open>Errors\<close>

datatype go_error =
    ErrBadCommand | ErrBadLen                              \<comment> \<open>session/corprelayv4/command\<close>
  | ErrInvalidAck                                          \<comment> \<open>session/corprelay\<close>
  | ErrBadProtocolVersion                                  \<comment> \<open>session\<close>
  | ErrNoSuchSID | ErrSessionLimit                         \<comment> \<open>relay/session/manager\<close>
  | ErrBadRequest                                          \<comment> \<open>request\<close>
  | ErrBadOrigin                                           \<comment> \<open>relay/request\<close>
  | ErrNoXSSIHeader                                        \<comment> \<open>response\<close>
  | ErrBadSessionID                                        \<comment> \<open>helper/session\<close>
  | ErrBadClientAuthType                                   \<comment> \<open>tls\<close>
  | ErrBadAddr | ErrMissingPort | ErrNoTLSConfig           \<comment> \<open>http\<close>
  | ErrBadMethod | ErrNoRedirect                           \<comment> \<open>cookie-server/request/cookie/handler\<close>
  | EOF | ErrUnexpectedEOF | ErrNoCookie                   \<comment> \<open>io, net/http\<close>
  | NewError string
  | Wrap string go_error string

text \<open>
  The text of an error. \<open>Wrap p e q\<close> is \<^verbatim>\<open>fmt.Errorf\<close> with the text \<open>p\<close> before and \<open>q\<close> after the wrapped error.
\<close>

fun Error :: "go_error \<Rightarrow> string" where
  "Error ErrBadCommand = ''bad command''"
| "Error ErrBadLen = ''bad length''"
| "Error ErrInvalidAck = ''invalid ack range''"
| "Error ErrBadProtocolVersion = ''bad protocol version''"
| "Error ErrNoSuchSID = ''no such SID''"
| "Error ErrSessionLimit = ''session limit reached''"
| "Error ErrBadRequest = ''bad request''"
| "Error ErrBadOrigin = ''bad origin''"
| "Error ErrNoXSSIHeader = ''XSSI header not found''"
| "Error ErrBadSessionID = ''bad Session ID''"
| "Error ErrBadClientAuthType = ''bad ClientAuthType''"
| "Error ErrBadAddr = ''bad address specified''"
| "Error ErrMissingPort = ''no port specified''"
| "Error ErrNoTLSConfig = ''tls_config must be specified''"
| "Error ErrBadMethod = ''bad redirection method''"
| "Error ErrNoRedirect = ''no redirect in response''"
| "Error EOF = ''EOF''"
| "Error ErrUnexpectedEOF = ''unexpected EOF''"
| "Error ErrNoCookie = ''http: named cookie not present''"
| "Error (NewError m) = m"
| "Error (Wrap p e q) = p @ Error e @ q"

text \<open>
  \<^verbatim>\<open>errors.Is\<close> against a sentinel variable, and \<^verbatim>\<open>errors.Unwrap\<close>, whose result is nil (\<open>None\<close>) for an error
  that wraps nothing.
\<close>

fun errors_Is :: "go_error \<Rightarrow> go_error \<Rightarrow> bool" where
  "errors_Is (Wrap p e q) t \<longleftrightarrow> Wrap p e q = t \<or> errors_Is e t"
| "errors_Is e t \<longleftrightarrow> e = t"

fun errors_Unwrap :: "go_error \<Rightarrow> go_error option" where
  "errors_Unwrap (Wrap p e q) = Some e"
| "errors_Unwrap e = None"

lemma errors_Is_refl [simp]: "errors_Is e e"
  by (cases e) auto

section \<open>Calls that return and calls that panic\<close>

datatype panic = IndexOutOfRange | NilDereference

datatype 'a go = Ret 'a | Panic panic

definition returns :: "'a go \<Rightarrow> bool" where
  "returns r = (case r of Ret _ \<Rightarrow> True | Panic _ \<Rightarrow> False)"

fun go_bind :: "'a go \<Rightarrow> ('a \<Rightarrow> 'b go) \<Rightarrow> 'b go" where
  "go_bind (Ret x) f = f x"
| "go_bind (Panic p) f = Panic p"

lemma returns_simps [simp, go_simps]: "returns (Ret x)" "\<not> returns (Panic p)"
  by (simp_all add: returns_def)

lemma returns_iff: "returns r \<longleftrightarrow> (\<exists>x. r = Ret x)"
  by (cases r) auto

lemma go_bind_Ret_iff: "go_bind r f = Ret y \<longleftrightarrow> (\<exists>x. r = Ret x \<and> f x = Ret y)"
  by (cases r) auto

lemma go_bind_sum_iff:
  "go_bind r (case_sum f g) = Ret y \<longleftrightarrow>
     (\<exists>e. r = Ret (Inl e) \<and> f e = Ret y) \<or> (\<exists>x. r = Ret (Inr x) \<and> g x = Ret y)"
proof (cases r)
  case (Ret s)
  then show ?thesis by (cases s) auto
qed simp

text \<open>
  \<^verbatim>\<open>b[lo:hi]\<close>. Go checks \<open>hi\<close> against the capacity; the model checks it against the length, which panics
  at least as often.
\<close>

definition slice :: "'a list \<Rightarrow> nat \<Rightarrow> nat \<Rightarrow> 'a list go" where
  "slice b lo hi =
     (if lo \<le> hi \<and> hi \<le> length b then Ret (take (hi - lo) (drop lo b)) else Panic IndexOutOfRange)"

lemma slice_Ret [simp]: "lo \<le> hi \<Longrightarrow> hi \<le> length b \<Longrightarrow> slice b lo hi = Ret (take (hi - lo) (drop lo b))"
  by (simp add: slice_def)

section \<open>Big endian integers\<close>

text \<open>
  The writers (\<^verbatim>\<open>PutUint16\<close> and its kin) store the bytes from the most significant one down; the readers
  panic on a slice that is too short.
\<close>

definition be16 :: "16 word \<Rightarrow> bytes" where
  "be16 v = [ucast (drop_bit 8 v), ucast v]"

definition be32 :: "32 word \<Rightarrow> bytes" where
  "be32 v = [ucast (drop_bit 24 v), ucast (drop_bit 16 v), ucast (drop_bit 8 v), ucast v]"

definition be64 :: "64 word \<Rightarrow> bytes" where
  "be64 v =
     [ucast (drop_bit 56 v), ucast (drop_bit 48 v), ucast (drop_bit 40 v), ucast (drop_bit 32 v),
      ucast (drop_bit 24 v), ucast (drop_bit 16 v), ucast (drop_bit 8 v), ucast v]"

fun uint16 :: "bytes \<Rightarrow> 16 word go" where
  "uint16 (b0 # b1 # _) = Ret (ucast b1 OR push_bit 8 (ucast b0))"
| "uint16 _ = Panic IndexOutOfRange"

fun uint32 :: "bytes \<Rightarrow> 32 word go" where
  "uint32 (b0 # b1 # b2 # b3 # _) =
     Ret (ucast b3 OR push_bit 8 (ucast b2) OR push_bit 16 (ucast b1) OR push_bit 24 (ucast b0))"
| "uint32 _ = Panic IndexOutOfRange"

fun uint64 :: "bytes \<Rightarrow> 64 word go" where
  "uint64 (b0 # b1 # b2 # b3 # b4 # b5 # b6 # b7 # _) =
     Ret (ucast b7 OR push_bit 8 (ucast b6) OR push_bit 16 (ucast b5) OR push_bit 24 (ucast b4) OR
          push_bit 32 (ucast b3) OR push_bit 40 (ucast b2) OR push_bit 48 (ucast b1) OR
          push_bit 56 (ucast b0))"
| "uint64 _ = Panic IndexOutOfRange"

text \<open>Reassembling a word from its bytes: one byte at position \<open>k\<close> extends the low \<open>k\<close> bits by eight.\<close>

lemma low_byte: "ucast (ucast v :: byte) = take_bit 8 (v :: 'a::len word)"
  by (rule bit_word_eqI) (auto simp: bit_simps)

lemma next_byte: "take_bit k v OR push_bit k (take_bit 8 (drop_bit k v)) = take_bit (k + 8) (v :: 'a::len word)"
  by (rule bit_word_eqI) (auto simp: bit_simps)

lemma take_bit_full: "LENGTH('a) \<le> k \<Longrightarrow> take_bit k v = (v :: 'a::len word)"
  by (rule bit_word_eqI) (auto simp: bit_simps)

lemma byte_bit_high: "8 \<le> n \<Longrightarrow> \<not> bit (b :: byte) n"
  by (auto dest: bit_imp_le_length)

lemmas be_assemble = low_byte next_byte take_bit_full or.assoc [symmetric]

lemma uint16_be16 [simp, wire_simps]: "uint16 (be16 v @ r) = Ret v"
  by (simp add: be16_def be_assemble)

lemma uint32_be32 [simp, wire_simps]: "uint32 (be32 v @ r) = Ret v"
  by (simp add: be32_def be_assemble)

lemma uint64_be64 [simp, wire_simps]: "uint64 (be64 v @ r) = Ret v"
  by (simp add: be64_def be_assemble)

lemma uint16_be16' [simp]: "uint16 (be16 v) = Ret v" using uint16_be16 [of v "[]"] by simp

lemma uint32_be32' [simp]: "uint32 (be32 v) = Ret v" using uint32_be32 [of v "[]"] by simp

lemma uint64_be64' [simp]: "uint64 (be64 v) = Ret v" using uint64_be64 [of v "[]"] by simp

lemma length_be [simp, wire_simps]: "length (be16 v) = 2" "length (be32 w) = 4" "length (be64 x) = 8"
  by (simp_all add: be16_def be32_def be64_def)

text \<open>Conversely a slice of the right length is the encoding of the word read from it.\<close>

lemma uint16_exact: "length b = 2 \<Longrightarrow> \<exists>v. uint16 b = Ret v \<and> be16 v = b"
proof -
  assume "length b = 2"
  then obtain b0 b1 where b: "b = [b0, b1]"
    by (auto simp: numeral_eq_Suc length_Suc_conv)
  show ?thesis
    unfolding b uint16.simps be16_def
    by (simp; intro conjI; rule bit_word_eqI; simp add: bit_simps byte_bit_high)
qed

lemma uint32_exact: "length b = 4 \<Longrightarrow> \<exists>v. uint32 b = Ret v \<and> be32 v = b"
proof -
  assume "length b = 4"
  then obtain b0 b1 b2 b3 where b: "b = [b0, b1, b2, b3]"
    by (auto simp: numeral_eq_Suc length_Suc_conv)
  show ?thesis
    unfolding b uint32.simps be32_def
    by (simp; intro conjI; rule bit_word_eqI; simp add: bit_simps byte_bit_high)
qed

lemma uint64_exact: "length b = 8 \<Longrightarrow> \<exists>v. uint64 b = Ret v \<and> be64 v = b"
proof -
  assume "length b = 8"
  then obtain b0 b1 b2 b3 b4 b5 b6 b7 where b: "b = [b0, b1, b2, b3, b4, b5, b6, b7]"
    by (auto simp: numeral_eq_Suc length_Suc_conv)
  show ?thesis
    unfolding b uint64.simps be64_def
    by (simp; intro conjI; rule bit_word_eqI; simp add: bit_simps byte_bit_high)
qed

text \<open>Big endian texts determine the word.\<close>

lemma be16_inject [simp]: "be16 v = be16 w \<longleftrightarrow> v = w"
  by (auto dest: arg_cong [where f = uint16])

lemma be32_inject [simp]: "be32 v = be32 w \<longleftrightarrow> v = w"
  by (auto dest: arg_cong [where f = uint32])

lemma be64_inject [simp]: "be64 v = be64 w \<longleftrightarrow> v = w"
  by (auto dest: arg_cong [where f = uint64])

section \<open>Signed reading of 64-bit words\<close>

lemma centred_mod:
  fixes y h :: int
  assumes "0 \<le> y" "y < 2 * h"
  shows "(y + h) mod (2 * h) - h = (if y < h then y else y - 2 * h)"
proof (cases "y < h")
  case True
  with assms have "(y + h) mod (2 * h) = y + h" by (intro mod_pos_pos_trivial) auto
  with True show ?thesis by simp
next
  case False
  have "(y + h) mod (2 * h) = ((y - h) + 2 * h) mod (2 * h)" by (simp add: add.commute)
  also have "\<dots> = (y - h) mod (2 * h)" by (rule mod_add_self2)
  also have "\<dots> = y - h" using False assms by (intro mod_pos_pos_trivial) auto
  finally show ?thesis using False by simp
qed

lemma sint64: "sint (x :: 64 word) = (if uint x < 2 ^ 63 then uint x else uint x - 2 ^ 64)"
proof -
  have "sint x = (uint x + 2 ^ 63) mod (2 * 2 ^ 63) - 2 ^ 63"
    using int_word_sint [of "uint x", where 'a = 64] by simp
  also have "\<dots> = (if uint x < 2 ^ 63 then uint x else uint x - 2 * 2 ^ 63)"
    using uint_lt2p [of x] by (intro centred_mod) auto
  finally show ?thesis by simp
qed

lemma sint64_neg: "sint (x :: 64 word) < 0 \<longleftrightarrow> \<not> x < 2 ^ 63"
  using uint_lt2p [of x] by (auto simp: sint64 word_less_alt)

section \<open>Message codecs\<close>

text \<open>
  The interface of a message format: \<open>dec\<close> accepts exactly the encodings of the valid messages. A session that talks
  a format relies on nothing else of it.
\<close>

locale codec =
  fixes enc :: "'a \<Rightarrow> bytes" and dec :: "bytes \<Rightarrow> 'a option" and valid :: "'a \<Rightarrow> bool"
  assumes dec_iff: "dec b = Some x \<longleftrightarrow> valid x \<and> b = enc x"
begin

lemma dec_enc: "valid x \<Longrightarrow> dec (enc x) = Some x"
  by (simp add: dec_iff)

lemma enc_inject: "valid x \<Longrightarrow> valid y \<Longrightarrow> enc x = enc y \<longleftrightarrow> x = y"
  by (metis dec_enc option.inject)

lemma dec_inject: "dec a = Some x \<Longrightarrow> dec b = Some x \<Longrightarrow> a = b"
  by (simp add: dec_iff)

text \<open>A stream of messages decodes to a stream of values exactly when it is their encoding, message by message.\<close>

lemma dec_stream: "those (map dec ms) = Some xs \<longleftrightarrow> list_all valid xs \<and> ms = map enc xs"
proof (induction ms arbitrary: xs)
  case Nil
  show ?case by (cases xs) auto
next
  case (Cons m ms)
  have "those (map dec (m # ms)) = Some xs \<longleftrightarrow>
    (\<exists>y ys. dec m = Some y \<and> those (map dec ms) = Some ys \<and> xs = y # ys)"
    by (auto split: option.splits)
  also have "\<dots> \<longleftrightarrow> list_all valid xs \<and> m # ms = map enc xs"
    unfolding Cons.IH dec_iff by (cases xs) auto
  finally show ?case .
qed

end

end
