(* ===== verification/Go_IO.thy ===== *)
theory Go_IO
  imports Relay_Prelude
begin

text \<open>
  The parts of the standard library's \<^verbatim>\<open>io\<close>, \<^verbatim>\<open>bytes\<close> and \<^verbatim>\<open>bufio\<close> packages that the sessions use.

  A writer's state is what has been written to it; how it responds is a function \<open>io_writer\<close> of that state and
  of the data, so every behaviour of a socket (short writes, failures at any point) is some \<open>io_writer\<close>. The
  locale \<open>writer\<close> is the documented contract of \<^verbatim>\<open>io.Writer\<close>; \<open>bytes_Buffer\<close> is the library's buffer and satisfies it.
  A message reader is what it will deliver and the error it ends with. \<open>bufio_Read\<close> is \<^verbatim>\<open>bufio.Reader.Read\<close> over one
  underlying \<^verbatim>\<open>Read\<close>.
\<close>

section \<open>Writers\<close>

type_synonym io_writer = "bytes \<Rightarrow> bytes \<Rightarrow> nat \<times> go_error option"

definition io_Write :: "io_writer \<Rightarrow> bytes \<Rightarrow> bytes \<Rightarrow> bytes \<times> go_error option" where
  "io_Write W out p = (case W out p of (n, err) \<Rightarrow> (out @ take n p, err))"

text \<open>\<^verbatim>\<open>bytes.Buffer.Write\<close> takes all of its argument and never fails.\<close>

definition bytes_Buffer :: io_writer where
  "bytes_Buffer out p = (length p, None)"

text \<open>A writer that accepts \<open>k\<close> bytes in all and then fails with \<open>e\<close>: a socket closed by its peer.\<close>

definition limited_writer :: "nat \<Rightarrow> go_error \<Rightarrow> io_writer" where
  "limited_writer k e out p =
     (if length out + length p \<le> k then (length p, None) else (k - length out, Some e))"

text \<open>
  The contract of \<^verbatim>\<open>io.Writer\<close>: at most \<open>len p\<close> bytes are written, and a short write returns an error.
\<close>

locale writer =
  fixes W :: io_writer
  assumes short_write: "fst (W out p) < length p \<Longrightarrow> snd (W out p) \<noteq> None"
    and no_excess: "fst (W out p) \<le> length p"
begin

lemma io_Write_ok: "io_Write W out p = (out', None) \<Longrightarrow> out' = out @ p"
  using short_write [of out p]
  by (cases "fst (W out p) < length p") (auto simp: io_Write_def split: prod.splits)

lemma io_Write_prefix: "io_Write W out p = (out', err) \<Longrightarrow> \<exists>n \<le> length p. out' = out @ take n p"
  using no_excess [of out p] by (auto simp: io_Write_def split: prod.splits)

end

interpretation buf: writer bytes_Buffer
  by unfold_locales (simp_all add: bytes_Buffer_def)

lemma limited_writer_contract: "writer (limited_writer k e)"
  by unfold_locales (auto simp: limited_writer_def split: if_splits)

lemma io_Write_Buffer [simp, go_simps]: "io_Write bytes_Buffer out p = (out @ p, None)"
  by (simp add: io_Write_def bytes_Buffer_def)

section \<open>Message readers\<close>

text \<open>A reader: the bytes it still delivers, and the error of the read after the last of them.\<close>

record reader =
  rd_data :: bytes
  rd_end :: go_error

text \<open>
  \<^verbatim>\<open>io.ReadFull\<close> into a buffer of \<open>n\<close> bytes: an end of file after some but not all bytes becomes
  \<^verbatim>\<open>ErrUnexpectedEOF\<close>, any other error is returned as it is.
\<close>

definition io_ReadFull :: "reader \<Rightarrow> nat \<Rightarrow> (go_error + bytes) \<times> reader" where
  "io_ReadFull r n =
     (if n \<le> length (rd_data r) then (Inr (take n (rd_data r)), r\<lparr>rd_data := drop n (rd_data r)\<rparr>)
      else (Inl (if rd_data r \<noteq> [] \<and> rd_end r = EOF then ErrUnexpectedEOF else rd_end r),
            r\<lparr>rd_data := []\<rparr>))"

text \<open>\<^verbatim>\<open>bytes.Buffer.ReadFrom\<close> into a new buffer: everything up to the end, which is no error when it is \<^verbatim>\<open>io.EOF\<close>.\<close>

definition buffer_ReadFrom :: "reader \<Rightarrow> bytes \<times> go_error option" where
  "buffer_ReadFrom r = (rd_data r, if rd_end r = EOF then None else Some (rd_end r))"

definition message :: "bytes \<Rightarrow> reader" where
  "message m = \<lparr>rd_data = m, rd_end = EOF\<rparr>"

lemma buffer_ReadFrom_message [simp, go_simps]: "buffer_ReadFrom (message m) = (m, None)"
  by (simp add: buffer_ReadFrom_def message_def)

section \<open>Buffered reads\<close>

text \<open>
  What one call of the underlying \<^verbatim>\<open>Read\<close> answers, as a function of the length of the buffer it is given; the
  contract of \<^verbatim>\<open>io.Reader\<close> is that it delivers at most that many bytes. It may deliver bytes together with an error.
\<close>

type_synonym io_reader = "nat \<Rightarrow> bytes \<times> go_error option"

definition reader_ok :: "io_reader \<Rightarrow> bool" where
  "reader_ok R \<longleftrightarrow> (\<forall>k. length (fst (R k)) \<le> k)"

text \<open>A connection with \<open>d\<close> ready to be read: a read takes as much of it as fits.\<close>

definition ready :: "bytes \<Rightarrow> io_reader" where
  "ready d k = (take k d, None)"

lemma reader_ok_ready [simp]: "reader_ok (ready d)"
  by (simp add: reader_ok_def ready_def)

record bufio =
  bio_size :: nat
  bio_buf :: bytes
  bio_err :: "go_error option"

definition bufio_NewReader :: bufio where
  "bufio_NewReader = \<lparr>bio_size = 4096, bio_buf = [], bio_err = None\<rparr>"

lemma bufio_NewReader_empty [simp]: "bio_buf bufio_NewReader = []"
  by (simp add: bufio_NewReader_def)

text \<open>
  \<^verbatim>\<open>bufio.Reader.Read\<close> into a buffer of \<open>n\<close> bytes: with nothing buffered, a request at least as large as the internal
  buffer goes straight to the underlying reader, and a smaller one fills the internal buffer by one read and
  copies from it. A pending error is returned once the buffer is empty.
\<close>

definition bufio_Read :: "io_reader \<Rightarrow> bufio \<Rightarrow> nat \<Rightarrow> (bytes \<times> go_error option) \<times> bufio" where
  "bufio_Read R b n =
     (if n = 0 then (if bio_buf b \<noteq> [] then (([], None), b) else (([], bio_err b), b\<lparr>bio_err := None\<rparr>))
      else if bio_buf b = [] then
        (if bio_err b \<noteq> None then (([], bio_err b), b\<lparr>bio_err := None\<rparr>)
         else if bio_size b \<le> n then (R n, b)
         else (case R (bio_size b) of (d, err) \<Rightarrow>
                 if d = [] then (([], err), b)
                 else ((take n d, None), b\<lparr>bio_buf := drop n d, bio_err := err\<rparr>)))
      else ((take n (bio_buf b), None), b\<lparr>bio_buf := drop n (bio_buf b)\<rparr>))"

text \<open>
  A fresh buffered reader asked for at least 4096 bytes is transparent: it passes on one underlying read and
  keeps nothing back, so throwing it away loses nothing.
\<close>

lemma bufio_Read_direct:
  "4096 \<le> n \<Longrightarrow> bufio_Read R bufio_NewReader n = (R n, bufio_NewReader)"
  by (simp add: bufio_Read_def bufio_NewReader_def)

end
