(* ===== verification/Session_Iface.thy ===== *)
theory Session_Iface
  imports Go_IO
begin

text \<open>
  The vocabulary of \<^verbatim>\<open>src/session/session.go\<close> (protocol versions, roles), the libraries both session
  implementations are parameterised by (\<^verbatim>\<open>github.com/google/uuid\<close>, whose functions are the fields of \<open>uuid_lib\<close>, with
  the documented behaviour the relay relies on in \<open>uuid_text_ok\<close>; \<^verbatim>\<open>github.com/gorilla/websocket\<close>, whose outcomes are the
  fields of \<open>io_env\<close>), and \<open>byte_relay\<close>, the contract the two implementations share: what arrives on the WebSocket
  is delivered to SSH in order, and the session's counter counts it modulo the width of its protocol.
\<close>

datatype ProtocolVersion = CorpRelay | CorpRelayV4 | SSHFE | OtherVersion int

definition ProtocolVersion_String :: "ProtocolVersion \<Rightarrow> string" where
  "ProtocolVersion_String v =
     (case v of
        CorpRelay \<Rightarrow> ''corp-relay@google.com''
      | CorpRelayV4 \<Rightarrow> ''corp-relay-v4@google.com''
      | SSHFE \<Rightarrow> ''ssh-fe@google.com''
      | OtherVersion _ \<Rightarrow> ''unknown'')"

datatype Role = Server | Client

section \<open>Libraries\<close>

text \<open>
  \<^verbatim>\<open>uuid.Parse\<close> returns a UUID beside its error; the relay assigns both. \<^verbatim>\<open>uuid.Nil\<close> is the zero word.
\<close>

record uuid_lib =
  uuid_Parse :: "string \<Rightarrow> uuid \<times> go_error option"
  uuid_MarshalText :: "uuid \<Rightarrow> bytes \<times> go_error option"
  uuid_String :: "uuid \<Rightarrow> string"

definition uuid_Nil :: uuid where "uuid_Nil = 0"

text \<open>
  Documented: the text form is the 36 characters of RFC 4122, \<^verbatim>\<open>MarshalText\<close> never fails and gives it as bytes, and
  \<^verbatim>\<open>Parse\<close> reads it back.
\<close>

definition uuid_text_ok :: "uuid_lib \<Rightarrow> bool" where
  "uuid_text_ok U \<longleftrightarrow>
     (\<forall>u. length (uuid_String U u) = 36 \<and>
          uuid_MarshalText U u = (bytes_of_string (uuid_String U u), None) \<and>
          uuid_Parse U (uuid_String U u) = (u, None))"

text \<open>
  A concrete library with that behaviour: the canonical text (hexadecimal digits in groups of 8, 4, 4, 4 and 12), read
  back by dropping the dashes. It shows that \<open>uuid_text_ok\<close> can hold, and the witnesses compute with it.
\<close>

definition hex_char :: "nat \<Rightarrow> char" where
  "hex_char d = (if d < 10 then char_of (48 + d) else char_of (87 + d))"

definition hex_val :: "char \<Rightarrow> nat option" where
  "hex_val c =
     (let n = of_char c in
      if 48 \<le> n \<and> n \<le> 57 then Some (n - 48) else if 97 \<le> n \<and> n \<le> 102 then Some (n - 87) else None)"

fun hex_text :: "nat \<Rightarrow> nat \<Rightarrow> string" where
  "hex_text 0 n = []"
| "hex_text (Suc k) n = hex_text k (n div 16) @ [hex_char (n mod 16)]"

fun hex_read :: "nat \<Rightarrow> string \<Rightarrow> nat option" where
  "hex_read a [] = Some a"
| "hex_read a (c # s) = (case hex_val c of None \<Rightarrow> None | Some d \<Rightarrow> hex_read (16 * a + d) s)"

definition dashed :: "string \<Rightarrow> string" where
  "dashed h = take 8 h @ ''-'' @ take 4 (drop 8 h) @ ''-'' @ take 4 (drop 12 h) @ ''-'' @ take 4 (drop 16 h) @ ''-'' @ drop 20 h"

definition undashed :: "string \<Rightarrow> string" where
  "undashed s = take 8 s @ take 4 (drop 9 s) @ take 4 (drop 14 s) @ take 4 (drop 19 s) @ drop 24 s"

definition rfc4122 :: uuid_lib where
  "rfc4122 =
     \<lparr>uuid_Parse = (\<lambda>s.
        if length s \<noteq> 36 \<or> dashed (undashed s) \<noteq> s then (0, Some (NewError ''invalid UUID format''))
        else case hex_read 0 (undashed s) of
          None \<Rightarrow> (0, Some (NewError ''invalid UUID format''))
        | Some n \<Rightarrow> (of_nat n, None)),
      uuid_MarshalText = (\<lambda>u. (bytes_of_string (dashed (hex_text 32 (unat u))), None)),
      uuid_String = (\<lambda>u. dashed (hex_text 32 (unat u)))\<rparr>"

lemma length_hex_text [simp]: "length (hex_text k n) = k"
  by (induction k arbitrary: n) auto

lemma hex_val_char: "d < 16 \<Longrightarrow> hex_val (hex_char d) = Some d"
  by (auto simp: hex_val_def hex_char_def Let_def)

lemma hex_read_append: "hex_read a (s @ t) = (case hex_read a s of None \<Rightarrow> None | Some b \<Rightarrow> hex_read b t)"
  by (induction s arbitrary: a) (auto split: option.splits)

lemma hex_read_text: "hex_read a (hex_text k n) = Some (16 ^ k * a + n mod 16 ^ k)"
proof (induction k arbitrary: n)
  case (Suc k)
  have "16 * (n div 16 mod 16 ^ k) + n mod 16 = n mod (16 * 16 ^ k)"
    by (simp add: mod_mult2_eq)
  then show ?case by (simp add: hex_read_append Suc.IH hex_val_char algebra_simps)
qed simp

lemma undashed_dashed: "length h = 32 \<Longrightarrow> undashed (dashed h) = h"
proof -
  assume h: "length h = 32"
  define a b c d e where "a = take 8 h" and "b = take 4 (drop 8 h)" and "c = take 4 (drop 12 h)"
    and "d = take 4 (drop 16 h)" and "e = drop 20 h"
  have l: "length a = 8" "length b = 4" "length c = 4" "length d = 4"
    using h by (simp_all add: a_def b_def c_def d_def)
  have "d @ e = drop 16 h" using append_take_drop_id [of 4 "drop 16 h"] by (simp add: d_def e_def)
  then have "c @ d @ e = drop 12 h" using append_take_drop_id [of 4 "drop 12 h"] by (simp add: c_def)
  then have "b @ c @ d @ e = drop 8 h" using append_take_drop_id [of 4 "drop 8 h"] by (simp add: b_def)
  then have "a @ b @ c @ d @ e = h" using append_take_drop_id [of 8 h] by (simp add: a_def)
  moreover have "dashed h = a @ ''-'' @ b @ ''-'' @ c @ ''-'' @ d @ ''-'' @ e"
    by (simp add: dashed_def a_def b_def c_def d_def e_def)
  ultimately show ?thesis by (simp add: undashed_def l)
qed

lemma uuid_text_ok_rfc4122: "uuid_text_ok rfc4122"
proof -
  have "unat u < 16 ^ 32" for u :: uuid
    using unsigned_less [of u, where 'a = nat] by simp
  then have "hex_read 0 (hex_text 32 (unat u)) = Some (unat u)" for u :: uuid
    by (simp add: hex_read_text)
  moreover have "length (dashed (hex_text 32 n)) = 36" for n
    by (simp add: dashed_def)
  ultimately show ?thesis
    by (simp add: uuid_text_ok_def rfc4122_def undashed_dashed)
qed

text \<open>
  The WebSocket message types the relay names, and the environment of one step of a session: whether the library
  hands out a writer for a new message, and how that writer and the SSH connection respond to writes.
\<close>

definition TextMessage :: nat where "TextMessage = 1"

definition BinaryMessage :: nat where "BinaryMessage = 2"

record io_env =
  ws_NextWriter :: "nat \<Rightarrow> go_error option"
  ws_Write :: io_writer
  ssh_Write :: io_writer

definition io_ok :: io_env where
  "io_ok = \<lparr>ws_NextWriter = (\<lambda>_. None), ws_Write = bytes_Buffer, ssh_Write = bytes_Buffer\<rparr>"

definition env_ok :: "io_env \<Rightarrow> bool" where
  "env_ok E \<longleftrightarrow> writer (ws_Write E) \<and> writer (ssh_Write E)"

lemma io_ok_simps [simp, go_simps]:
  "ws_NextWriter io_ok t = None" "ws_Write io_ok = bytes_Buffer" "ssh_Write io_ok = bytes_Buffer"
  by (simp_all add: io_ok_def)

lemma env_ok_io_ok [simp]: "env_ok io_ok"
  by (simp add: env_ok_def buf.writer_axioms)

lemma env_ok_writers: "env_ok E \<Longrightarrow> writer (ws_Write E)" "env_ok E \<Longrightarrow> writer (ssh_Write E)"
  by (simp_all add: env_ok_def)

section \<open>The contract of a relay session\<close>

locale byte_relay =
  fixes deliver :: "'s \<Rightarrow> bytes \<Rightarrow> 's"
    and chunk :: "bytes \<Rightarrow> bool"
    and delivered :: "'s \<Rightarrow> bytes"
    and counter :: "'s \<Rightarrow> nat"
    and modulus :: nat
  assumes delivered_deliver: "chunk d \<Longrightarrow> delivered (deliver s d) = delivered s @ d"
    and counter_deliver: "chunk d \<Longrightarrow> counter (deliver s d) = (counter s + length d) mod modulus"
begin

lemma delivered_all: "list_all chunk ds \<Longrightarrow> delivered (foldl deliver s ds) = delivered s @ concat ds"
  by (induction ds arbitrary: s) (simp_all add: delivered_deliver)

lemma counter_all:
  "list_all chunk ds \<Longrightarrow> counter s < modulus \<Longrightarrow>
   counter (foldl deliver s ds) = (counter s + length (concat ds)) mod modulus"
proof (induction ds arbitrary: s)
  case (Cons d ds)
  then have "counter (deliver s d) < modulus" by (simp add: counter_deliver)
  with Cons have "counter (foldl deliver s (d # ds)) = (counter (deliver s d) + length (concat ds)) mod modulus"
    by simp
  also have "\<dots> = (counter s + length (concat (d # ds))) mod modulus"
    using Cons.prems by (simp add: counter_deliver mod_simps add.assoc)
  finally show ?case .
qed simp

text \<open>From a new session, the counter is the number of delivered bytes modulo the width.\<close>

lemma counter_counts:
  assumes "list_all chunk ds" "0 < modulus" "counter s = 0" "delivered s = []"
  shows "counter (foldl deliver s ds) = length (delivered (foldl deliver s ds)) mod modulus"
  using assms by (simp add: delivered_all counter_all)

end

end
