(* ===== verification/Command.thy ===== *)
theory Command
  imports Go_IO
begin

text \<open>
  The in-band commands of corp-relay-v4 (\<^verbatim>\<open>src/session/corprelayv4/command/command.go\<close>): the four command types with
  their constructors, checks and wire writers, and the parser \<open>Unmarshal\<close>. The Go methods become functions named
  \<open>Type_Method\<close>. \<open>wire\<close> is the format as one function; the theorems show that writing a command produces it, that
  \<open>Unmarshal\<close> accepts exactly the wire images of well formed commands, and that it never panics.
\<close>

section \<open>Tags and sizes\<close>

type_synonym Tag = "16 word"

definition TagConnectSuccess :: Tag where "TagConnectSuccess = 1"

definition TagReconnectSuccess :: Tag where "TagReconnectSuccess = 2"

definition TagData :: Tag where "TagData = 4"

definition TagAck :: Tag where "TagAck = 7"

definition Tag_String :: "Tag \<Rightarrow> string" where
  "Tag_String t =
     (if t = TagConnectSuccess then ''CONNECT_SUCCESS''
      else if t = TagReconnectSuccess then ''RECONNECT_SUCCESS''
      else if t = TagData then ''DATA''
      else if t = TagAck then ''ACK''
      else ''unknown'')"

definition MaxArrayLen :: nat where "MaxArrayLen = 16 * 1024"

definition TagLen :: nat where "TagLen = 2"

definition AckLen :: nat where "AckLen = 8"

definition SIDLen :: nat where "SIDLen = 4"

definition MaxSIDLen :: nat where "MaxSIDLen = 36"

definition DataLen :: nat where "DataLen = 4"

lemmas tag_defs [wire_simps] = TagConnectSuccess_def TagReconnectSuccess_def TagData_def TagAck_def

lemmas size_defs [wire_simps] =
  MaxArrayLen_def TagLen_def AckLen_def SIDLen_def MaxSIDLen_def DataLen_def

section \<open>Writing\<close>

text \<open>The values \<open>binWrite\<close> is given, and the bytes \<^verbatim>\<open>binary.Write\<close> makes of each with one call of \<^verbatim>\<open>w.Write\<close>.\<close>

datatype binval = BinTag Tag | BinU32 "32 word" | BinU64 "64 word"

fun binval_bytes :: "binval \<Rightarrow> bytes" where
  "binval_bytes (BinTag t) = be16 t"
| "binval_bytes (BinU32 v) = be32 v"
| "binval_bytes (BinU64 v) = be64 v"

fun binWrite :: "io_writer \<Rightarrow> bytes \<Rightarrow> binval list \<Rightarrow> bytes \<times> go_error option" where
  "binWrite W out [] = (out, None)"
| "binWrite W out (v # data) =
     (case io_Write W out (binval_bytes v) of
        (out', Some err) \<Rightarrow> (out', Some err)
      | (out', None) \<Rightarrow> binWrite W out' data)"

section \<open>The commands\<close>

text \<open>The four types that implement the \<^verbatim>\<open>Command\<close> interface.\<close>

datatype command =
    ConnectSuccess bytes
  | ReconnectSuccess "64 word"
  | Data bytes
  | Ack "64 word"

fun command_Tag :: "command \<Rightarrow> Tag" where
  "command_Tag (ConnectSuccess cs) = TagConnectSuccess"
| "command_Tag (ReconnectSuccess rs) = TagReconnectSuccess"
| "command_Tag (Data d) = TagData"
| "command_Tag (Ack a) = TagAck"

definition ConnectSuccess_check :: "bytes \<Rightarrow> go_error option" where
  "ConnectSuccess_check cs =
     (if length cs < SIDLen
      then Some (Wrap [] ErrBadLen ('': SID length '' @ itoa (length cs) @ '' < '' @ itoa SIDLen))
      else if MaxSIDLen < length cs
      then Some (Wrap [] ErrBadLen ('': SID length '' @ itoa (length cs) @ '' > '' @ itoa MaxSIDLen))
      else None)"

definition NewConnectSuccess :: "bytes \<Rightarrow> command \<times> go_error option" where
  "NewConnectSuccess sid = (ConnectSuccess sid, ConnectSuccess_check sid)"

definition ConnectSuccess_Write :: "bytes \<Rightarrow> io_writer \<Rightarrow> bytes \<Rightarrow> bytes \<times> go_error option" where
  "ConnectSuccess_Write cs W out =
     (case binWrite W out [BinTag TagConnectSuccess, BinU32 (of_nat (length cs))] of
        (out', Some err) \<Rightarrow> (out', Some err)
      | (out', None) \<Rightarrow> io_Write W out' cs)"

definition ConnectSuccess_SID :: "bytes \<Rightarrow> string" where
  "ConnectSuccess_SID cs = string_of_bytes cs"

definition NewReconnectSuccess :: "64 word \<Rightarrow> command" where
  "NewReconnectSuccess ack = ReconnectSuccess ack"

definition ReconnectSuccess_Write :: "64 word \<Rightarrow> io_writer \<Rightarrow> bytes \<Rightarrow> bytes \<times> go_error option" where
  "ReconnectSuccess_Write rs W out = binWrite W out [BinTag TagReconnectSuccess, BinU64 rs]"

definition Data_check :: "bytes \<Rightarrow> go_error option" where
  "Data_check d =
     (if length d = 0 then Some (Wrap [] ErrBadLen '': no data'')
      else if MaxArrayLen < length d
      then Some (Wrap [] ErrBadLen ('': data too large '' @ itoa (length d) @ '' > '' @ itoa MaxArrayLen))
      else None)"

definition NewData :: "bytes \<Rightarrow> command \<times> go_error option" where
  "NewData b = (Data b, Data_check b)"

definition Data_Write :: "bytes \<Rightarrow> io_writer \<Rightarrow> bytes \<Rightarrow> bytes \<times> go_error option" where
  "Data_Write d W out =
     (case binWrite W out [BinTag TagData, BinU32 (of_nat (length d))] of
        (out', Some err) \<Rightarrow> (out', Some err)
      | (out', None) \<Rightarrow> io_Write W out' d)"

definition NewAck :: "64 word \<Rightarrow> command" where
  "NewAck ack = Ack ack"

definition Ack_Write :: "64 word \<Rightarrow> io_writer \<Rightarrow> bytes \<Rightarrow> bytes \<times> go_error option" where
  "Ack_Write a W out = binWrite W out [BinTag TagAck, BinU64 a]"

text \<open>The interface method \<^verbatim>\<open>Command.Write\<close>, dispatched on the dynamic type.\<close>

fun command_Write :: "command \<Rightarrow> io_writer \<Rightarrow> bytes \<Rightarrow> bytes \<times> go_error option" where
  "command_Write (ConnectSuccess cs) W out = ConnectSuccess_Write cs W out"
| "command_Write (ReconnectSuccess rs) W out = ReconnectSuccess_Write rs W out"
| "command_Write (Data d) W out = Data_Write d W out"
| "command_Write (Ack a) W out = Ack_Write a W out"

section \<open>Parsing\<close>

definition unmarshal32 :: "bytes \<Rightarrow> (go_error + bytes) go" where
  "unmarshal32 b =
     (if length b < DataLen then Ret (Inl (Wrap [] ErrBadLen '': no data''))
      else go_bind (slice b 0 DataLen) (\<lambda>h.
           go_bind (uint32 h) (\<lambda>l.
           go_bind (slice b DataLen (length b)) (\<lambda>data.
             if length data \<noteq> unat l
             then Ret (Inl (Wrap [] ErrBadLen ('': '' @ itoa (length data) @ '' != '' @ itoa (unat l))))
             else Ret (Inr data)))))"

definition unmarshalAck :: "bytes \<Rightarrow> (go_error + 64 word) go" where
  "unmarshalAck b =
     (if length b \<noteq> AckLen
      then Ret (Inl (Wrap [] ErrBadLen ('': '' @ itoa (length b) @ '' != '' @ itoa AckLen)))
      else go_bind (slice b 0 AckLen) (\<lambda>h. go_bind (uint64 h) (\<lambda>a. Ret (Inr a))))"

text \<open>
  \<open>Unmarshal\<close> returns a \<^verbatim>\<open>(Command, error)\<close> pair; like the source it hands back the pair of \<open>NewConnectSuccess\<close> or
  \<open>NewData\<close>, so a command can come with an error.
\<close>

definition Unmarshal :: "bytes \<Rightarrow> (command option \<times> go_error option) go" where
  "Unmarshal b =
     (if length b < TagLen then Ret (None, Some ErrBadCommand)
      else go_bind (slice b 0 TagLen) (\<lambda>h.
           go_bind (uint16 h) (\<lambda>tag.
           go_bind (slice b TagLen (length b)) (\<lambda>b.
             if tag = TagConnectSuccess then
               go_bind (unmarshal32 b) (\<lambda>r. case r of
                   Inl err \<Rightarrow> Ret (None, Some err)
                 | Inr sid \<Rightarrow> Ret (map_prod Some id (NewConnectSuccess sid)))
             else if tag = TagReconnectSuccess then
               go_bind (unmarshalAck b) (\<lambda>r. case r of
                   Inl err \<Rightarrow> Ret (None, Some err)
                 | Inr ack \<Rightarrow> Ret (Some (NewReconnectSuccess ack), None))
             else if tag = TagData then
               go_bind (unmarshal32 b) (\<lambda>r. case r of
                   Inl err \<Rightarrow> Ret (None, Some err)
                 | Inr data \<Rightarrow> Ret (map_prod Some id (NewData data)))
             else if tag = TagAck then
               go_bind (unmarshalAck b) (\<lambda>r. case r of
                   Inl err \<Rightarrow> Ret (None, Some err)
                 | Inr ack \<Rightarrow> Ret (Some (NewAck ack), None))
             else Ret (None, Some ErrBadCommand)))))"

lemmas new_defs [wire_simps] =
  NewConnectSuccess_def NewReconnectSuccess_def NewData_def NewAck_def

section \<open>The format\<close>

text \<open>The wire image of a command, and the commands whose \<^verbatim>\<open>check\<close> passes.\<close>

fun wire :: "command \<Rightarrow> bytes" where
  "wire (ConnectSuccess sid) = be16 1 @ be32 (of_nat (length sid)) @ sid"
| "wire (ReconnectSuccess ack) = be16 2 @ be64 ack"
| "wire (Data d) = be16 4 @ be32 (of_nat (length d)) @ d"
| "wire (Ack ack) = be16 7 @ be64 ack"

fun valid_command :: "command \<Rightarrow> bool" where
  "valid_command (ConnectSuccess sid) \<longleftrightarrow> 4 \<le> length sid \<and> length sid \<le> 36"
| "valid_command (Data d) \<longleftrightarrow> d \<noteq> [] \<and> length d \<le> 16384"
| "valid_command _ \<longleftrightarrow> True"

lemma ConnectSuccess_check_None: "ConnectSuccess_check cs = None \<longleftrightarrow> valid_command (ConnectSuccess cs)"
  by (auto simp: ConnectSuccess_check_def wire_simps)

lemma Data_check_None: "Data_check d = None \<longleftrightarrow> valid_command (Data d)"
  by (auto simp: Data_check_def wire_simps)

section \<open>Correctness of the parser\<close>

lemma split_be16: "2 \<le> length b \<Longrightarrow> \<exists>t r. b = be16 t @ r"
  using uint16_exact [of "take 2 b"] by (metis append_take_drop_id length_take min.absorb2)

lemma split_be32: "4 \<le> length b \<Longrightarrow> \<exists>l r. b = be32 l @ r"
  using uint32_exact [of "take 4 b"] by (metis append_take_drop_id length_take min.absorb2)

lemma unmarshal32_short: "length b < 4 \<Longrightarrow> unmarshal32 b = Ret (Inl (Wrap [] ErrBadLen '': no data''))"
  by (simp add: unmarshal32_def wire_simps)

lemma unmarshal32_be32:
  "unmarshal32 (be32 l @ d) =
     (if length d = unat l then Ret (Inr d)
      else Ret (Inl (Wrap [] ErrBadLen ('': '' @ itoa (length d) @ '' != '' @ itoa (unat l)))))"
  by (simp add: unmarshal32_def wire_simps)

lemma unmarshal32_cases:
  obtains (ok) d where "length d < 2 ^ 32" "b = be32 (of_nat (length d)) @ d" "unmarshal32 b = Ret (Inr d)"
  | (bad) q where "unmarshal32 b = Ret (Inl (Wrap [] ErrBadLen q))"
proof (cases "length b < 4")
  case True
  then show thesis by (rule bad [OF unmarshal32_short])
next
  case False
  then obtain l d where b: "b = be32 l @ d" using split_be32 [of b] by auto
  show thesis
  proof (cases "length d = unat l")
    case True
    then have l: "of_nat (length d) = l" by simp
    show thesis
    proof (rule ok [of d])
      show "length d < 2 ^ 32" using True unsigned_less [of l, where 'a = nat] by simp
      show "b = be32 (of_nat (length d)) @ d" by (simp only: b l)
      show "unmarshal32 b = Ret (Inr d)" using True by (simp only: b unmarshal32_be32 refl if_True)
    qed
  next
    case False
    then show thesis by (intro bad) (simp add: b unmarshal32_be32)
  qed
qed

lemma unmarshal32_Inr: "unmarshal32 b = Ret (Inr d) \<longleftrightarrow> length d < 2 ^ 32 \<and> b = be32 (of_nat (length d)) @ d"
proof
  show "unmarshal32 b = Ret (Inr d) \<Longrightarrow> length d < 2 ^ 32 \<and> b = be32 (of_nat (length d)) @ d"
    by (cases b rule: unmarshal32_cases) auto
next
  assume "length d < 2 ^ 32 \<and> b = be32 (of_nat (length d)) @ d"
  then show "unmarshal32 b = Ret (Inr d)" by (simp add: unmarshal32_be32 unat_of_nat)
qed

lemma unmarshalAck_cases:
  obtains (ok) a where "b = be64 a" "unmarshalAck b = Ret (Inr a)"
  | (bad) q where "unmarshalAck b = Ret (Inl (Wrap [] ErrBadLen q))"
proof (cases "length b = 8")
  case True
  then obtain a where "uint64 b = Ret a" "be64 a = b" using uint64_exact by blast
  with True show thesis by (intro ok) (auto simp: unmarshalAck_def wire_simps)
next
  case False
  then show thesis by (intro bad) (simp add: unmarshalAck_def wire_simps)
qed

lemma unmarshalAck_Inr: "unmarshalAck b = Ret (Inr a) \<longleftrightarrow> b = be64 a"
proof
  show "unmarshalAck b = Ret (Inr a) \<Longrightarrow> b = be64 a" by (cases b rule: unmarshalAck_cases) auto
  show "b = be64 a \<Longrightarrow> unmarshalAck b = Ret (Inr a)" by (simp add: unmarshalAck_def wire_simps)
qed

text \<open>The two kinds of field either parse or fail with a length error; they never panic.\<close>

lemma unmarshalAck_be64 [simp]: "unmarshalAck (be64 a) = Ret (Inr a)"
  by (simp add: unmarshalAck_Inr)

lemma unmarshal32_total: "\<exists>r. unmarshal32 b = Ret r" "\<exists>r. unmarshalAck b = Ret r"
  by (cases b rule: unmarshal32_cases; auto) (cases b rule: unmarshalAck_cases; auto)

lemma Unmarshal_be16:
  "Unmarshal (be16 t @ b) =
     (if t = 1 then go_bind (unmarshal32 b)
        (\<lambda>r. case r of Inl err \<Rightarrow> Ret (None, Some err) | Inr sid \<Rightarrow> Ret (Some (ConnectSuccess sid), ConnectSuccess_check sid))
      else if t = 2 then go_bind (unmarshalAck b)
        (\<lambda>r. case r of Inl err \<Rightarrow> Ret (None, Some err) | Inr ack \<Rightarrow> Ret (Some (ReconnectSuccess ack), None))
      else if t = 4 then go_bind (unmarshal32 b)
        (\<lambda>r. case r of Inl err \<Rightarrow> Ret (None, Some err) | Inr d \<Rightarrow> Ret (Some (Data d), Data_check d))
      else if t = 7 then go_bind (unmarshalAck b)
        (\<lambda>r. case r of Inl err \<Rightarrow> Ret (None, Some err) | Inr ack \<Rightarrow> Ret (Some (Ack ack), None))
      else Ret (None, Some ErrBadCommand))"
  unfolding Unmarshal_def by (simp add: wire_simps)

lemma Unmarshal_short: "length b < 2 \<Longrightarrow> Unmarshal b = Ret (None, Some ErrBadCommand)"
  by (simp add: Unmarshal_def wire_simps)

lemma Unmarshal_wire: "valid_command c \<Longrightarrow> Unmarshal (wire c) = Ret (Some c, None)"
  by (cases c) (auto simp: Unmarshal_be16 unmarshal32_be32 unmarshalAck_Inr unat_of_nat
      ConnectSuccess_check_None Data_check_None)

lemma Unmarshal_sound:
  assumes "Unmarshal b = Ret (Some c, None)"
  shows "valid_command c \<and> b = wire c"
proof -
  from assms have "\<not> length b < 2" using Unmarshal_short [of b] by auto
  then have "2 \<le> length b" by simp
  then obtain t r where b: "b = be16 t @ r" using split_be16 by blast
  from assms show ?thesis
    unfolding b Unmarshal_be16
    by (auto simp: go_bind_sum_iff unmarshal32_Inr unmarshalAck_Inr ConnectSuccess_check_None Data_check_None
        split: if_splits)
qed

text \<open>
  C1. \<open>Unmarshal\<close> accepts a message exactly when it is the wire image of a well formed command, and returns that
  command: nothing valid is rejected, nothing else is accepted, and the accepted message is canonical.
\<close>

theorem Unmarshal_exact: "Unmarshal b = Ret (Some c, None) \<longleftrightarrow> valid_command c \<and> b = wire c"
  using Unmarshal_wire Unmarshal_sound by blast

text \<open>
  The view of the parser a session relies on: a command or nothing. It is a codec for the wire format.
\<close>

definition parse_command :: "bytes \<Rightarrow> command option" where
  "parse_command b = (case Unmarshal b of Ret (c, None) \<Rightarrow> c | _ \<Rightarrow> None)"

lemma parse_command_Some: "parse_command b = Some c \<longleftrightarrow> Unmarshal b = Ret (Some c, None)"
  by (auto simp: parse_command_def split: go.splits option.splits)

interpretation v4: codec wire parse_command valid_command
  by unfold_locales (auto simp: parse_command_Some Unmarshal_wire dest: Unmarshal_sound)

lemma Unmarshal_not_none: "Unmarshal b \<noteq> Ret (None, None)"
proof (cases "length b < 2")
  case False
  then obtain t r where "b = be16 t @ r" using split_be16 [of b] by auto
  then show ?thesis by (auto simp: Unmarshal_be16 go_bind_sum_iff split: if_splits)
qed (simp add: Unmarshal_short)

lemma unmarshal32_err: "unmarshal32 b = Ret (Inl e) \<Longrightarrow> errors_Is e ErrBadLen"
  by (cases b rule: unmarshal32_cases) auto

lemma unmarshalAck_err: "unmarshalAck b = Ret (Inl e) \<Longrightarrow> errors_Is e ErrBadLen"
  by (cases b rule: unmarshalAck_cases) auto

lemma check_err:
  "ConnectSuccess_check d = Some e \<Longrightarrow> errors_Is e ErrBadLen"
  "Data_check d = Some e \<Longrightarrow> errors_Is e ErrBadLen"
  by (auto simp: ConnectSuccess_check_def Data_check_def split: if_splits)

lemma Unmarshal_returns: "\<exists>c err. Unmarshal b = Ret (c, err)"
proof (cases "length b < 2")
  case False
  then obtain t r where b: "b = be16 t @ r" using split_be16 [of b] by auto
  obtain x y where "unmarshal32 r = Ret x" "unmarshalAck r = Ret y" using unmarshal32_total by blast
  then show ?thesis by (cases x; cases y) (auto simp: b Unmarshal_be16)
qed (simp add: Unmarshal_short)

lemma Unmarshal_error:
  assumes "Unmarshal b = Ret (c, Some e)"
  shows "if length b < 2 \<or> uint16 b \<notin> Ret ` {1, 2, 4, 7} then c = None \<and> e = ErrBadCommand else errors_Is e ErrBadLen"
proof (cases "length b < 2")
  case False
  then obtain t r where b: "b = be16 t @ r" using split_be16 [of b] by auto
  from assms have "t \<in> {1, 2, 4, 7} \<Longrightarrow> errors_Is e ErrBadLen" and "t \<notin> {1, 2, 4, 7} \<Longrightarrow> c = None \<and> e = ErrBadCommand"
    unfolding b Unmarshal_be16
    by (auto simp: go_bind_sum_iff dest: unmarshal32_err unmarshalAck_err check_err split: if_splits)
  with False show ?thesis by (auto simp: b)
qed (use assms in \<open>simp add: Unmarshal_short\<close>)

text \<open>
  \<open>Unmarshal\<close> is total: on every input it returns (no slice or index is out of range), without an error only
  for a well formed message; an error is \<open>ErrBadCommand\<close> for a message without a known tag and wraps \<open>ErrBadLen\<close>
  otherwise.
\<close>

lemma Unmarshal_total:
  "\<exists>c err. Unmarshal b = Ret (c, err) \<and>
     (case err of
        None \<Rightarrow> \<exists>c'. c = Some c' \<and> valid_command c' \<and> b = wire c'
      | Some e \<Rightarrow> (if 2 \<le> length b \<and> uint16 b \<in> Ret ` {1, 2, 4, 7} then errors_Is e ErrBadLen
                   else c = None \<and> e = ErrBadCommand))"
proof -
  obtain c err where u: "Unmarshal b = Ret (c, err)" using Unmarshal_returns by blast
  show ?thesis
  proof (cases err)
    case None
    with u obtain c' where "c = Some c'" using Unmarshal_not_none [of b] by (cases c) auto
    with u None Unmarshal_sound [of b] show ?thesis by auto
  next
    case (Some e)
    with u Unmarshal_error [of b c e] show ?thesis by auto
  qed
qed

section \<open>Correctness of the writers\<close>

context writer
begin

lemma binWrite_ok: "binWrite W out vs = (out', None) \<Longrightarrow> out' = out @ concat (map binval_bytes vs)"
  by (induction vs arbitrary: out) (fastforce split: prod.splits option.splits dest!: io_Write_ok)+

lemma binWrite_prefix: "binWrite W out vs = (out', err) \<Longrightarrow> \<exists>n. out' = out @ take n (concat (map binval_bytes vs))"
proof (induction vs arbitrary: out)
  case (Cons v vs)
  obtain o1 e1 where w: "io_Write W out (binval_bytes v) = (o1, e1)" by fastforce
  show ?case
  proof (cases e1)
    case None
    with w have "o1 = out @ binval_bytes v" by (simp add: io_Write_ok)
    moreover from Cons None w obtain n where "out' = o1 @ take n (concat (map binval_bytes vs))" by fastforce
    ultimately show ?thesis by (intro exI [of _ "length (binval_bytes v) + n"]) simp
  next
    case (Some e)
    with w Cons.prems io_Write_prefix [OF w] obtain n where "n \<le> length (binval_bytes v)" "out' = out @ take n (binval_bytes v)"
      by auto
    then show ?thesis by (intro exI [of _ n]) simp
  qed
qed simp

text \<open>A header of integers followed by a payload: the shape of CONNECT_SUCCESS and DATA.\<close>

lemma framed_prefix:
  assumes "(case binWrite W out vs of (o1, Some e) \<Rightarrow> (o1, Some e) | (o1, None) \<Rightarrow> io_Write W o1 d) = (out', err)"
  shows "\<exists>n. out' = out @ take n (concat (map binval_bytes vs) @ d)"
proof -
  obtain o1 e1 where w: "binWrite W out vs = (o1, e1)" by fastforce
  show ?thesis
  proof (cases e1)
    case None
    with w have "o1 = out @ concat (map binval_bytes vs)" by (simp add: binWrite_ok)
    moreover from assms w None obtain n where "out' = o1 @ take n d" using io_Write_prefix by force
    ultimately show ?thesis by (intro exI [of _ "length (concat (map binval_bytes vs)) + n"]) simp
  next
    case (Some e)
    with assms w binWrite_prefix [OF w] obtain n where n: "out' = out @ take n (concat (map binval_bytes vs))" by auto
    have "take n (concat (map binval_bytes vs)) = take (min n (length (concat (map binval_bytes vs)))) (concat (map binval_bytes vs) @ d)"
      by (simp add: min_def)
    with n show ?thesis by metis
  qed
qed

lemma command_Write_ok: "command_Write c W out = (out', None) \<Longrightarrow> out' = out @ wire c"
  by (cases c)
    (auto simp: ConnectSuccess_Write_def Data_Write_def ReconnectSuccess_Write_def Ack_Write_def tag_defs
      split: prod.splits option.splits dest!: binWrite_ok io_Write_ok)

lemma command_Write_prefix: "command_Write c W out = (out', err) \<Longrightarrow> \<exists>n. out' = out @ take n (wire c)"
proof (cases c)
  case (ConnectSuccess cs)
  then show "command_Write c W out = (out', err) \<Longrightarrow> \<exists>n. out' = out @ take n (wire c)"
    using framed_prefix [where out = out and vs = "[BinTag 1, BinU32 (of_nat (length cs))]" and d = cs] by (simp add: ConnectSuccess_Write_def tag_defs)
next
  case (ReconnectSuccess rs)
  then show "command_Write c W out = (out', err) \<Longrightarrow> \<exists>n. out' = out @ take n (wire c)"
    using binWrite_prefix [of out "[BinTag 2, BinU64 rs]"] by (simp add: ReconnectSuccess_Write_def tag_defs)
next
  case (Data d)
  then show "command_Write c W out = (out', err) \<Longrightarrow> \<exists>n. out' = out @ take n (wire c)"
    using framed_prefix [where out = out and vs = "[BinTag 4, BinU32 (of_nat (length d))]" and d = d] by (simp add: Data_Write_def tag_defs)
next
  case (Ack a)
  then show "command_Write c W out = (out', err) \<Longrightarrow> \<exists>n. out' = out @ take n (wire c)"
    using binWrite_prefix [of out "[BinTag 7, BinU64 a]"] by (simp add: Ack_Write_def tag_defs)
qed

end

text \<open>
  Over any writer that keeps the \<^verbatim>\<open>io.Writer\<close> contract, writing a command puts a prefix of its wire image on the
  stream, and without an error exactly the wire image: a successful \<^verbatim>\<open>Write\<close> never sends a truncated or padded
  message.
\<close>

lemma command_Write_stream:
  assumes "writer W" and "command_Write c W out = (out', err)"
  shows "case err of None \<Rightarrow> out' = out @ wire c | Some _ \<Rightarrow> \<exists>n. out' = out @ take n (wire c)"
  using assms writer.command_Write_ok writer.command_Write_prefix by (auto split: option.split)

lemma command_Write_Buffer [simp]: "command_Write c bytes_Buffer out = (out @ wire c, None)"
  by (cases c) (simp_all add: ConnectSuccess_Write_def Data_Write_def ReconnectSuccess_Write_def Ack_Write_def tag_defs)

text \<open>From here on the wire image is used through these laws only.\<close>

declare wire.simps [simp del]

end
