(* ===== verification/Session_V4.thy ===== *)
theory Session_V4
  imports Session_Iface Command
begin

text \<open>
  The corp-relay-v4 session (\<^verbatim>\<open>src/session/corprelayv4/corprelayv4.go\<close>). A Go \<^verbatim>\<open>*Session\<close> is the record \<open>v4\<close>: its
  SID, role and the two counters, the mutex, and what its two connections have been given so far (the bytes
  written to SSH, the WebSocket messages whose writer was closed, and the content of the writer that is open while
  the mutex is held). Every method is a function from the session to the session and an error; \<open>io_env\<close> supplies the
  outcomes of the connections, so the theorems quantify over every failure. The two goroutine loops are given by
  their loop body (\<open>runSSH_iter\<close>, \<open>runWS_iter\<close>) and by \<open>v4_runSSH\<close> and \<open>v4_runWS\<close>, which run the body on a list of inputs
  until it fails, as the \<^verbatim>\<open>for\<close> loops do.
\<close>

section \<open>State\<close>

record v4 =
  v4_sid :: uuid
  v4_role :: Role
  v4_rCount :: "64 word"
  v4_wCount :: "64 word"
  v4_mu :: bool
  v4_ssh :: bytes
  v4_ws :: "bytes list"
  v4_cur :: bytes

text \<open>\<^verbatim>\<open>New\<close>: only a server draws a session ID; \<open>fresh\<close> is what \<^verbatim>\<open>uuid.New\<close> returned.\<close>

definition v4_New :: "uuid \<Rightarrow> Role \<Rightarrow> v4" where
  "v4_New fresh r =
     \<lparr>v4_sid = (if r = Server then fresh else uuid_Nil), v4_role = r, v4_rCount = 0, v4_wCount = 0,
      v4_mu = False, v4_ssh = [], v4_ws = [], v4_cur = []\<rparr>"

definition v4_Version :: ProtocolVersion where "v4_Version = CorpRelayV4"

section \<open>Writing to the WebSocket\<close>

text \<open>
  \<^verbatim>\<open>wsWriter\<close> takes the mutex and asks for a message writer; on failure it releases the mutex again. \<open>v4_cancel\<close> is the
  cancel function it returns: closing the writer sends the message, then the mutex is released.
\<close>

definition wsWriter :: "io_env \<Rightarrow> nat \<Rightarrow> v4 \<Rightarrow> v4 \<times> go_error option" where
  "wsWriter E t s =
     (let s1 = s\<lparr>v4_mu := True\<rparr> in
      case ws_NextWriter E t of
        Some err \<Rightarrow> (s1\<lparr>v4_mu := False\<rparr>, Some err)
      | None \<Rightarrow> (s1\<lparr>v4_cur := []\<rparr>, None))"

definition v4_cancel :: "v4 \<Rightarrow> v4" where
  "v4_cancel s = s\<lparr>v4_ws := v4_ws s @ [v4_cur s], v4_cur := [], v4_mu := False\<rparr>"

text \<open>\<^verbatim>\<open>c.Write(w)\<close> on the open message writer.\<close>

definition v4_Write :: "io_env \<Rightarrow> command \<Rightarrow> v4 \<Rightarrow> v4 \<times> go_error option" where
  "v4_Write E c s = (case command_Write c (ws_Write E) (v4_cur s) of (m, err) \<Rightarrow> (s\<lparr>v4_cur := m\<rparr>, err))"

definition sendConnect :: "uuid_lib \<Rightarrow> io_env \<Rightarrow> v4 \<Rightarrow> v4 \<times> go_error option" where
  "sendConnect U E s =
     (case uuid_MarshalText U (v4_sid s) of
        (_, Some err) \<Rightarrow> (s, Some err)
      | (sid, None) \<Rightarrow>
          (case wsWriter E BinaryMessage s of
             (s1, Some err) \<Rightarrow> (s1, Some (Wrap ''wFunc() error: '' err []))
           | (s1, None) \<Rightarrow>
               (case NewConnectSuccess sid of
                  (_, Some err) \<Rightarrow> (v4_cancel s1, Some err)
                | (cs, None) \<Rightarrow> (case v4_Write E cs s1 of (s2, err) \<Rightarrow> (v4_cancel s2, err)))))"

definition sendReconnect :: "64 word \<Rightarrow> v4 \<Rightarrow> v4 \<times> go_error option" where
  "sendReconnect ack s = (s, Some (NewError ''not implemented''))"

definition establishConn :: "uuid_lib \<Rightarrow> io_env \<Rightarrow> 64 word \<Rightarrow> v4 \<Rightarrow> v4 \<times> go_error option" where
  "establishConn U E ack s = (if ack > 0 then sendReconnect ack s else sendConnect U E s)"

definition sendAck :: "io_env \<Rightarrow> v4 \<Rightarrow> v4 \<times> go_error option" where
  "sendAck E s =
     (case wsWriter E BinaryMessage s of
        (s1, Some err) \<Rightarrow> (s1, Some (Wrap ''wFunc() error: '' err []))
      | (s1, None) \<Rightarrow> (case v4_Write E (NewAck (v4_rCount s1)) s1 of (s2, err) \<Rightarrow> (v4_cancel s2, err)))"

section \<open>Reading from the WebSocket\<close>

definition readData :: "io_env \<Rightarrow> bytes \<Rightarrow> v4 \<Rightarrow> v4 \<times> go_error option" where
  "readData E data s =
     (let s1 = s\<lparr>v4_rCount := v4_rCount s + of_nat (length data)\<rparr> in
      case io_Write (ssh_Write E) (v4_ssh s1) data of (out, err) \<Rightarrow> (s1\<lparr>v4_ssh := out\<rparr>, err))"

text \<open>\<^verbatim>\<open>int(ack - s.wCount)\<close> is the difference modulo \<open>2^64\<close>, read as a signed number.\<close>

definition readAck :: "64 word \<Rightarrow> v4 \<Rightarrow> v4 \<times> go_error option" where
  "readAck ack s =
     (let diff = sint (ack - v4_wCount s) in
      if diff = 0 then (s, None)
      else if diff < 0
      then (s, Some (NewError (''reverse ack '' @ itoa (unat (v4_wCount s)) @ '' -> '' @ itoa (unat ack))))
      else (s\<lparr>v4_wCount := ack\<rparr>, None))"

definition bad_command :: "command \<Rightarrow> go_error" where
  "bad_command c = Wrap [] ErrBadCommand ('': '' @ Tag_String (command_Tag c))"

text \<open>
  The type switch on the command. \<^verbatim>\<open>uuid.Parse\<close>'s first result is stored even when it fails. A nil command without an
  error would make \<^verbatim>\<open>c.Tag()\<close> panic.
\<close>

definition recvCmd :: "uuid_lib \<Rightarrow> io_env \<Rightarrow> bytes \<Rightarrow> v4 \<Rightarrow> (v4 \<times> go_error option) go" where
  "recvCmd U E b s =
     go_bind (Unmarshal b) (\<lambda>(c, err).
       case err of
         Some err \<Rightarrow> Ret (s, Some (Wrap (''command.Unmarshal('' @ fmt_bytes b @ '') error: '') err []))
       | None \<Rightarrow>
           (case c of
              None \<Rightarrow> Panic NilDereference
            | Some (ConnectSuccess cs) \<Rightarrow>
                (let b = ConnectSuccess_SID cs in
                 if v4_role s \<noteq> Client \<or> v4_sid s \<noteq> uuid_Nil then Ret (s, Some (bad_command (ConnectSuccess cs)))
                 else (case uuid_Parse U b of
                         (u, Some err) \<Rightarrow> Ret (s\<lparr>v4_sid := u\<rparr>, Some (Wrap (''uuid.Parse('' @ b @ '') error: '') err []))
                       | (u, None) \<Rightarrow> Ret (s\<lparr>v4_sid := u\<rparr>, None)))
            | Some (ReconnectSuccess _) \<Rightarrow> Ret (s, Some (NewError ''not implemented''))
            | Some (Data d) \<Rightarrow>
                (case readData E d s of
                   (s1, Some err) \<Rightarrow> Ret (s1, Some err)
                 | (s1, None) \<Rightarrow> Ret (sendAck E s1))
            | Some (Ack a) \<Rightarrow> Ret (readAck a s)))"

definition v4_parseBinary :: "uuid_lib \<Rightarrow> io_env \<Rightarrow> reader \<Rightarrow> v4 \<Rightarrow> (v4 \<times> go_error option) go" where
  "v4_parseBinary U E r s =
     (case buffer_ReadFrom r of
        (_, Some err) \<Rightarrow> Ret (s, Some err)
      | (b, None) \<Rightarrow> recvCmd U E b s)"

text \<open>One turn of the loop of \<^verbatim>\<open>runWS\<close>, on what \<^verbatim>\<open>ws.NextReader\<close> returned.\<close>

definition runWS_iter ::
  "uuid_lib \<Rightarrow> io_env \<Rightarrow> (go_error + nat \<times> reader) \<Rightarrow> v4 \<Rightarrow> (v4 \<times> go_error option) go" where
  "runWS_iter U E nr s =
     (case nr of
        Inl err \<Rightarrow> Ret (s, Some (Wrap ''NextReader() error: '' err []))
      | Inr (t, r) \<Rightarrow>
          (if t = BinaryMessage then v4_parseBinary U E r s
           else Ret (s, Some (NewError (''unsupported message type: '' @ itoa t)))))"

fun v4_runWS ::
  "uuid_lib \<Rightarrow> (io_env \<times> (go_error + nat \<times> reader)) list \<Rightarrow> v4 \<Rightarrow> (v4 \<times> go_error option) go" where
  "v4_runWS U [] s = Ret (s, None)"
| "v4_runWS U ((E, nr) # is) s =
     go_bind (runWS_iter U E nr s) (\<lambda>(s1, err).
       case err of Some e \<Rightarrow> Ret (s1, Some e) | None \<Rightarrow> v4_runWS U is s1)"

section \<open>Reading from SSH\<close>

definition v4_copySSH :: "io_env \<Rightarrow> bytes \<Rightarrow> v4 \<Rightarrow> v4 \<times> go_error option" where
  "v4_copySSH E b s =
     (case NewData b of
        (_, Some err) \<Rightarrow> (s, Some err)
      | (d, None) \<Rightarrow> v4_Write E d s)"

text \<open>One turn of the loop of \<^verbatim>\<open>runSSH\<close>: a new buffered reader over the SSH connection for every read.\<close>

definition runSSH_iter :: "io_env \<Rightarrow> io_reader \<Rightarrow> v4 \<Rightarrow> v4 \<times> go_error option" where
  "runSSH_iter E R s =
     (case fst (bufio_Read R bufio_NewReader MaxArrayLen) of
        (_, Some err) \<Rightarrow> (s, Some err)
      | (data, None) \<Rightarrow>
          (case wsWriter E BinaryMessage s of
             (s1, Some err) \<Rightarrow> (s1, Some (Wrap ''wFunc() error: '' err []))
           | (s1, None) \<Rightarrow> (case v4_copySSH E data s1 of (s2, err) \<Rightarrow> (v4_cancel s2, err))))"

fun v4_runSSH_loop :: "(io_env \<times> io_reader) list \<Rightarrow> v4 \<Rightarrow> v4 \<times> go_error option" where
  "v4_runSSH_loop [] s = (s, None)"
| "v4_runSSH_loop ((E, R) # is) s =
     (case runSSH_iter E R s of
        (s1, Some err) \<Rightarrow> (s1, Some err)
      | (s1, None) \<Rightarrow> v4_runSSH_loop is s1)"

definition v4_runSSH :: "uuid_lib \<Rightarrow> io_env \<Rightarrow> (io_env \<times> io_reader) list \<Rightarrow> v4 \<Rightarrow> v4 \<times> go_error option" where
  "v4_runSSH U E is s =
     (if v4_role s = Server
      then (case establishConn U E 0 s of
              (s1, Some err) \<Rightarrow> (s1, Some err)
            | (s1, None) \<Rightarrow> v4_runSSH_loop is s1)
      else v4_runSSH_loop is s)"

lemmas v4_send_defs =
  wsWriter_def v4_cancel_def v4_Write_def sendConnect_def establishConn_def sendReconnect_def sendAck_def
  v4_copySSH_def Let_def

lemmas v4_recv_defs = readData_def readAck_def recvCmd_def v4_parseBinary_def runWS_iter_def

section \<open>Acknowledgements\<close>

lemma readAck_eq:
  "readAck a s =
     (if a - v4_wCount s < 2 ^ 63 then (s\<lparr>v4_wCount := a\<rparr>, None)
      else (s, Some (NewError (''reverse ack '' @ itoa (unat (v4_wCount s)) @ '' -> '' @ itoa (unat a)))))"
proof (cases "a = v4_wCount s")
  case True
  then show ?thesis by (simp add: readAck_def)
next
  case False
  then have "sint (a - v4_wCount s) \<noteq> 0" by (metis sint_0 signed_word_eqI right_minus_eq)
  then show ?thesis by (simp add: readAck_def Let_def sint64_neg)
qed

section \<open>What sending changes\<close>

text \<open>
  \<open>sent s s' ms\<close>: the step handed the messages \<open>ms\<close> to the WebSocket, left the mutex free, and changed nothing else
  (the open writer's content apart, which is scratch while the mutex is free).
\<close>

definition sent :: "v4 \<Rightarrow> v4 \<Rightarrow> bytes list \<Rightarrow> bool" where
  "sent s s' ms \<longleftrightarrow>
     (\<exists>c. s' = s\<lparr>v4_mu := False, v4_ws := v4_ws s @ ms, v4_cur := c\<rparr>)"

lemma sent_simps:
  assumes "sent s s' ms"
  shows "v4_sid s' = v4_sid s" "v4_role s' = v4_role s" "v4_rCount s' = v4_rCount s" "v4_wCount s' = v4_wCount s"
    "v4_ssh s' = v4_ssh s" "v4_ws s' = v4_ws s @ ms" "v4_mu s' = False"
  using assms by (auto simp: sent_def)

lemma wsWriter_error: "wsWriter E t s = (s1, Some e) \<Longrightarrow> sent s s1 []"
  by (auto simp: wsWriter_def sent_def Let_def split: option.splits intro!: exI [of _ "v4_cur s"])

lemma cancel_empty: "wsWriter E t s = (s1, None) \<Longrightarrow> sent s (v4_cancel s1) [[]]"
  by (auto simp: wsWriter_def v4_cancel_def sent_def Let_def split: option.splits intro!: exI [of _ "[]"])

text \<open>
  Taking the writer, writing one command and closing: the message is a prefix of the command's wire image, and all
  of it if there is no error.
\<close>

definition part_of :: "bytes \<Rightarrow> command \<Rightarrow> go_error option \<Rightarrow> bool" where
  "part_of m c err \<longleftrightarrow> (\<exists>n. m = take n (wire c)) \<and> (err = None \<longrightarrow> m = wire c)"

lemma send_command:
  assumes "env_ok E" and "wsWriter E t s = (s1, None)" and "v4_Write E c s1 = (s2, err)"
  shows "\<exists>m. sent s (v4_cancel s2) [m] \<and> part_of m c err"
proof -
  from assms(2) have s1: "s1 = s\<lparr>v4_mu := True, v4_cur := []\<rparr>"
    by (auto simp: wsWriter_def Let_def split: option.splits)
  obtain m where w: "command_Write c (ws_Write E) [] = (m, err)" and s2: "s2 = s1\<lparr>v4_cur := m\<rparr>"
    using assms(3) by (auto simp: v4_Write_def s1 split: prod.splits)
  have "part_of m c err"
    using writer.command_Write_prefix [OF env_ok_writers(1) [OF assms(1)] w]
      writer.command_Write_ok [OF env_ok_writers(1) [OF assms(1)], of c "[]"] w
    by (auto simp: part_of_def)
  moreover have "sent s (v4_cancel s2) [m]"
    unfolding sent_def by (intro exI [of _ "[]"]) (simp add: v4_cancel_def s1 s2)
  ultimately show ?thesis by blast
qed

lemma sendAck_cases:
  assumes "env_ok E" and "sendAck E s = (s', err)"
  obtains (refused) e where "sent s s' []" "err = Some e"
  | (sent) m where "sent s s' [m]" "part_of m (Ack (v4_rCount s)) err"
proof -
  obtain s1 e1 where w: "wsWriter E BinaryMessage s = (s1, e1)" by fastforce
  show thesis
  proof (cases e1)
    case (Some e)
    with w assms(2) refused wsWriter_error show thesis by (auto simp: sendAck_def)
  next
    case None
    obtain s2 e2 where w2: "v4_Write E (Ack (v4_rCount s1)) s1 = (s2, e2)" by fastforce
    with w None assms(2) have "s' = v4_cancel s2" "err = e2" by (auto simp: sendAck_def NewAck_def)
    moreover from w None have "v4_rCount s1 = v4_rCount s" by (auto simp: wsWriter_def Let_def split: option.splits)
    ultimately show thesis using send_command [OF assms(1) w [unfolded None] w2] sent by auto
  qed
qed

lemma runSSH_iter_cases:
  assumes "env_ok E" and "runSSH_iter E R s = (s', err)"
  obtains (read) e where "snd (R MaxArrayLen) = Some e" "s' = s" "err = Some e"
  | (refused) e where "sent s s' []" "err = Some e"
  | (empty) "\<not> valid_command (Data (fst (R MaxArrayLen)))" "sent s s' [[]]" "err \<noteq> None"
  | (sent) m where "snd (R MaxArrayLen) = None" "valid_command (Data (fst (R MaxArrayLen)))" "sent s s' [m]"
      "part_of m (Data (fst (R MaxArrayLen))) err"
proof -
  have direct: "fst (bufio_Read R bufio_NewReader MaxArrayLen) = R MaxArrayLen"
    by (simp add: bufio_Read_direct MaxArrayLen_def)
  obtain d e where r: "R MaxArrayLen = (d, e)" by fastforce
  obtain s1 e1 where w: "wsWriter E BinaryMessage s = (s1, e1)" by fastforce
  show thesis
  proof (cases e)
    case (Some x)
    with r direct assms(2) read show thesis by (auto simp: runSSH_iter_def)
  next
    case e: None
    show thesis
    proof (cases e1)
      case (Some x)
      with r e w direct assms(2) refused wsWriter_error show thesis by (auto simp: runSSH_iter_def)
    next
      case e1: None
      obtain s2 e2 where c: "v4_copySSH E d s1 = (s2, e2)" by fastforce
      with r e e1 w direct assms(2) have s': "s' = v4_cancel s2" "err = e2" by (auto simp: runSSH_iter_def)
      show thesis
      proof (cases "valid_command (Data d)")
        case True
        with c have "v4_Write E (Data d) s1 = (s2, e2)"
          using Data_check_None [of d] by (auto simp: v4_copySSH_def NewData_def split: option.splits)
        with send_command [OF assms(1) w [unfolded e1]] obtain m where
          "sent s (v4_cancel s2) [m]" "part_of m (Data d) e2" by blast
        with True s' r e sent show thesis by auto
      next
        case False
        then obtain x where x: "Data_check d = Some x" using Data_check_None [of d] by (cases "Data_check d") auto
        with c have "s2 = s1" "e2 = Some x" by (simp_all add: v4_copySSH_def NewData_def)
        with False s' r e cancel_empty [OF w [unfolded e1]] empty show thesis by auto
      qed
    qed
  qed
qed

section \<open>What receiving changes\<close>

lemma readData_effect:
  assumes "env_ok E" and "readData E d s = (s1, err)"
  shows "\<exists>n. s1 = s\<lparr>v4_rCount := v4_rCount s + of_nat (length d), v4_ssh := v4_ssh s @ take n d\<rparr> \<and>
    (err = None \<longrightarrow> take n d = d)"
proof -
  obtain out where w: "io_Write (ssh_Write E) (v4_ssh s) d = (out, err)"
    and s1: "s1 = s\<lparr>v4_rCount := v4_rCount s + of_nat (length d), v4_ssh := out\<rparr>"
    using assms(2) by (auto simp: readData_def Let_def split: prod.splits)
  from w obtain n where "out = v4_ssh s @ take n d"
    using writer.io_Write_prefix [OF env_ok_writers(2) [OF assms(1)]] by blast
  moreover from w have "err = None \<Longrightarrow> out = v4_ssh s @ d"
    using writer.io_Write_ok [OF env_ok_writers(2) [OF assms(1)]] by blast
  ultimately show ?thesis using s1 by (intro exI [of _ n]) auto
qed

text \<open>The type switch of \<open>recvCmd\<close> on a well formed message, and its answer to any other message.\<close>

lemma recvCmd_wire:
  "valid_command c \<Longrightarrow> recvCmd U E (wire c) s =
     (case c of
        ConnectSuccess cs \<Rightarrow>
          (if v4_role s \<noteq> Client \<or> v4_sid s \<noteq> uuid_Nil then Ret (s, Some (bad_command c))
           else case uuid_Parse U (string_of_bytes cs) of
             (u, Some err) \<Rightarrow> Ret (s\<lparr>v4_sid := u\<rparr>, Some (Wrap (''uuid.Parse('' @ string_of_bytes cs @ '') error: '') err []))
           | (u, None) \<Rightarrow> Ret (s\<lparr>v4_sid := u\<rparr>, None))
      | ReconnectSuccess _ \<Rightarrow> Ret (s, Some (NewError ''not implemented''))
      | Data d \<Rightarrow> (case readData E d s of (s1, Some err) \<Rightarrow> Ret (s1, Some err) | (s1, None) \<Rightarrow> Ret (sendAck E s1))
      | Ack a \<Rightarrow> Ret (readAck a s))"
  by (simp add: recvCmd_def Unmarshal_wire ConnectSuccess_SID_def Let_def split: command.split)

lemma recvCmd_malformed:
  assumes "\<not> (\<exists>c. valid_command c \<and> b = wire c)"
  shows "\<exists>e. recvCmd U E b s = Ret (s, Some e) \<and> (errors_Is e ErrBadCommand \<or> errors_Is e ErrBadLen)"
proof -
  obtain c err where u: "Unmarshal b = Ret (c, err)" using Unmarshal_returns by blast
  obtain e where e: "err = Some e"
  proof (cases err)
    case None
    with u obtain c' where "Unmarshal b = Ret (Some c', None)" using Unmarshal_not_none [of b] by (cases c) auto
    with assms Unmarshal_sound show thesis by blast
  qed
  with u Unmarshal_error [of b c e] show ?thesis by (auto simp: recvCmd_def split: if_splits)
qed

lemma recvCmd_data_cases:
  assumes "env_ok E" and "valid_command (Data d)" and "recvCmd U E (wire (Data d)) s = Ret (s', err)"
  obtains (failed) n e where "s' = s\<lparr>v4_rCount := v4_rCount s + of_nat (length d), v4_ssh := v4_ssh s @ take n d\<rparr>" "err = Some e"
  | (refused) e where "sent (s\<lparr>v4_rCount := v4_rCount s + of_nat (length d), v4_ssh := v4_ssh s @ d\<rparr>) s' []" "err = Some e"
  | (acked) m where "sent (s\<lparr>v4_rCount := v4_rCount s + of_nat (length d), v4_ssh := v4_ssh s @ d\<rparr>) s' [m]"
      "part_of m (Ack (v4_rCount s')) err"
proof -
  obtain s1 e1 where r: "readData E d s = (s1, e1)" by fastforce
  from readData_effect [OF assms(1) r] obtain n where
    s1: "s1 = s\<lparr>v4_rCount := v4_rCount s + of_nat (length d), v4_ssh := v4_ssh s @ take n d\<rparr>"
    and all: "e1 = None \<Longrightarrow> take n d = d"
    by blast
  then have ok: "e1 = None \<Longrightarrow> s1 = s\<lparr>v4_rCount := v4_rCount s + of_nat (length d), v4_ssh := v4_ssh s @ d\<rparr>" by simp
  show thesis
  proof (cases e1)
    case (Some e)
    with assms(2,3) r have "s' = s1" "err = Some e" by (simp_all add: recvCmd_wire)
    with s1 failed show thesis by blast
  next
    case None
    with assms(2,3) r have a: "sendAck E s1 = (s', err)" by (simp add: recvCmd_wire)
    from assms(1) a show thesis
    proof (cases rule: sendAck_cases)
      case (refused e)
      with ok [OF None] show thesis using that(2) by auto
    next
      case (sent m)
      with ok [OF None] sent_simps(3) [OF sent(1)] show thesis using that(3) by auto
    qed
  qed
qed

lemma recvCmd_returns: "\<exists>s' err. recvCmd U E b s = Ret (s', err)"
proof (cases "\<exists>c. valid_command c \<and> b = wire c")
  case True
  then obtain c where c: "valid_command c" "b = wire c" by blast
  show ?thesis
  proof (cases c)
    case (Data d)
    with c show ?thesis
      by (cases "readData E d s"; cases "sendAck E (fst (readData E d s))") (auto simp: recvCmd_wire split: option.splits)
  qed (use c in \<open>auto simp: recvCmd_wire readAck_eq split: prod.splits option.splits\<close>)
qed (use recvCmd_malformed [of b U E s] in \<open>auto\<close>)

text \<open>
  Processing any message, whatever the connections do, returns (it neither panics nor leaves the writer's mutex
  held), so the other goroutine of the session can always write next; the role never changes.
\<close>

lemma recvCmd_returns_unlocked:
  assumes "env_ok E" and "\<not> v4_mu s"
  shows "\<exists>s' err. recvCmd U E b s = Ret (s', err) \<and> \<not> v4_mu s' \<and> v4_role s' = v4_role s"
proof (cases "\<exists>c. valid_command c \<and> b = wire c")
  case True
  then obtain c where c: "valid_command c" "b = wire c" by blast
  show ?thesis
  proof (cases c)
    case (Data d)
    obtain s' err where r: "recvCmd U E (wire (Data d)) s = Ret (s', err)" using recvCmd_returns by blast
    have "\<not> v4_mu s' \<and> v4_role s' = v4_role s"
      using assms(1) c(1) [unfolded Data] r
      by (cases rule: recvCmd_data_cases) (use assms(2) in \<open>auto dest: sent_simps\<close>)
    with r c Data show ?thesis by auto
  qed (use assms(2) c in \<open>auto simp: recvCmd_wire readAck_eq split: prod.splits option.splits\<close>)
qed (use assms(2) recvCmd_malformed [of b U E s] in \<open>auto\<close>)

text \<open>
  C33. An acknowledgement is sent only for data that has reached the SSH side: whenever handling a message puts
  anything on the WebSocket, the message was a DATA command, its whole payload has been written to SSH in order, the
  receive counter has advanced by its length, and what was sent is (a prefix of) the ACK for the new counter.
\<close>

theorem ack_only_after_delivery:
  assumes "env_ok E" and "recvCmd U E b s = Ret (s', err)" and "v4_ws s' \<noteq> v4_ws s"
  shows "\<exists>d m. valid_command (Data d) \<and> b = wire (Data d) \<and> v4_ssh s' = v4_ssh s @ d \<and>
    v4_rCount s' = v4_rCount s + of_nat (length d) \<and>
    v4_ws s' = v4_ws s @ [m] \<and> part_of m (Ack (v4_rCount s')) err"
proof (cases "\<exists>c. valid_command c \<and> b = wire c")
  case True
  then obtain c where c: "valid_command c" "b = wire c" by blast
  show ?thesis
  proof (cases c)
    case (Data d)
    note r = assms(2) [unfolded c(2) Data]
    from assms(1) c(1) [unfolded Data] r show ?thesis
    proof (cases rule: recvCmd_data_cases)
      case (acked m)
      then show ?thesis using c Data by (intro exI [of _ d] exI [of _ m]) (simp add: sent_simps)
    qed (use assms(3) in \<open>auto dest: sent_simps\<close>)
  qed (use assms c in \<open>auto simp: recvCmd_wire readAck_eq split: prod.splits option.splits if_splits\<close>)
qed (use assms recvCmd_malformed [of b U E s] in \<open>auto\<close>)

theorem ack_only_after_delivery_witness:
  "\<exists>d m. valid_command (Data d) \<and> wire (Data [7]) = wire (Data d) \<and> [7] = [] @ d \<and>
     (1 :: 64 word) = 0 + of_nat (length d) \<and> [wire (Ack 1)] = [] @ [m] \<and> part_of m (Ack 1) None"
proof -
  let ?s = "v4_New 5 Server"
  let ?t = "?s\<lparr>v4_rCount := 1, v4_ssh := [7], v4_ws := [wire (Ack 1)]\<rparr>"
  have r: "recvCmd rfc4122 io_ok (wire (Data [7])) ?s = Ret (?t, None)"
    by (simp add: recvCmd_wire readData_def v4_send_defs NewAck_def v4_New_def)
  have "v4_ws ?t \<noteq> v4_ws ?s" by (simp add: v4_New_def)
  from ack_only_after_delivery [OF env_ok_io_ok r this] show ?thesis by (simp add: v4_New_def)
qed

section \<open>The session identifier\<close>

text \<open>
  The session identifier is set at most once, and only on a client: a message changes it only if the session is a
  client without an identifier and the message is a well formed CONNECT_SUCCESS, whose SID it then is.
\<close>

lemma sid_set_once:
  assumes "env_ok E" and "recvCmd U E b s = Ret (s', err)" and "v4_sid s' \<noteq> v4_sid s"
  shows "v4_role s = Client \<and> v4_sid s = uuid_Nil \<and>
    (\<exists>cs. valid_command (ConnectSuccess cs) \<and> b = wire (ConnectSuccess cs) \<and>
          v4_sid s' = fst (uuid_Parse U (string_of_bytes cs)))"
proof (cases "\<exists>c. valid_command c \<and> b = wire c")
  case True
  then obtain c where c: "valid_command c" "b = wire c" by blast
  show ?thesis
  proof (cases c)
    case (Data d)
    note r = assms(2) [unfolded c(2) Data]
    from assms(1) c(1) [unfolded Data] r show ?thesis
      by (cases rule: recvCmd_data_cases) (use assms(3) in \<open>auto dest: sent_simps\<close>)
  qed (use assms c in \<open>auto simp: recvCmd_wire readAck_eq split: prod.splits option.splits if_splits\<close>)
qed (use assms recvCmd_malformed [of b U E s] in \<open>auto\<close>)

lemma sendConnect_ok:
  assumes "uuid_text_ok U"
  shows "sendConnect U io_ok s =
    (s\<lparr>v4_mu := False, v4_ws := v4_ws s @ [wire (ConnectSuccess (bytes_of_string (uuid_String U (v4_sid s))))], v4_cur := []\<rparr>, None)"
proof -
  have "valid_command (ConnectSuccess (bytes_of_string (uuid_String U (v4_sid s))))"
    using assms by (simp add: uuid_text_ok_def)
  then have "ConnectSuccess_check (bytes_of_string (uuid_String U (v4_sid s))) = None"
    by (simp add: ConnectSuccess_check_None)
  with assms show ?thesis
    by (simp add: uuid_text_ok_def v4_send_defs NewConnectSuccess_def)
qed

lemma recv_connect:
  assumes "uuid_text_ok U" "v4_role c = Client" "v4_sid c = uuid_Nil"
  shows "recvCmd U E (wire (ConnectSuccess (bytes_of_string (uuid_String U u)))) c = Ret (c\<lparr>v4_sid := u\<rparr>, None)"
  using assms by (simp add: recvCmd_wire uuid_text_ok_def)

text \<open>
  The handshake: the first message of a server's \<open>runSSH\<close> is a CONNECT_SUCCESS that a client accepts, after which
  both ends agree on the session identifier.
\<close>

lemma handshake_agrees:
  assumes "uuid_text_ok U"
  shows "\<exists>m. v4_runSSH U io_ok [] (v4_New u Server) = ((v4_New u Server)\<lparr>v4_ws := [m]\<rparr>, None) \<and>
    recvCmd U E m (v4_New w Client) = Ret ((v4_New w Client)\<lparr>v4_sid := u\<rparr>, None)"
  using sendConnect_ok [OF assms, of "v4_New u Server"] recv_connect [OF assms, of "v4_New w Client" E u]
  by (auto simp: v4_runSSH_def establishConn_def v4_New_def)

section \<open>Whole runs\<close>

text \<open>
  One DATA message over working connections: the payload goes to SSH and its acknowledgement to the WebSocket.
  This is the v4 instance of the contract \<open>byte_relay\<close>, with a 64-bit counter.
\<close>

definition v4_deliver :: "uuid_lib \<Rightarrow> v4 \<Rightarrow> bytes \<Rightarrow> v4" where
  "v4_deliver U s d = (case recvCmd U io_ok (wire (Data d)) s of Ret (s', _) \<Rightarrow> s' | Panic _ \<Rightarrow> s)"

abbreviation data_chunk :: "bytes \<Rightarrow> bool" where
  "data_chunk d \<equiv> valid_command (Data d)"

lemma recvCmd_data_ok:
  assumes "data_chunk d"
  shows "recvCmd U io_ok (wire (Data d)) s =
    Ret (s\<lparr>v4_rCount := v4_rCount s + of_nat (length d), v4_ssh := v4_ssh s @ d, v4_mu := False,
           v4_ws := v4_ws s @ [wire (Ack (v4_rCount s + of_nat (length d)))], v4_cur := []\<rparr>, None)"
  using assms by (simp add: recvCmd_wire readData_def v4_send_defs NewAck_def)

lemma v4_deliver_eq:
  "data_chunk d \<Longrightarrow> v4_deliver U s d =
     s\<lparr>v4_rCount := v4_rCount s + of_nat (length d), v4_ssh := v4_ssh s @ d, v4_mu := False,
       v4_ws := v4_ws s @ [wire (Ack (v4_rCount s + of_nat (length d)))], v4_cur := []\<rparr>"
  by (simp add: v4_deliver_def recvCmd_data_ok)

interpretation v4r: byte_relay "v4_deliver U" data_chunk v4_ssh "\<lambda>s. unat (v4_rCount s)" "2 ^ 64" for U
proof
  fix d s
  assume d: "data_chunk d"
  show "v4_ssh (v4_deliver U s d) = v4_ssh s @ d" by (simp only: v4_deliver_eq [OF d]) simp
  show "unat (v4_rCount (v4_deliver U s d)) = (unat (v4_rCount s) + length d) mod 2 ^ 64"
    by (simp only: v4_deliver_eq [OF d]) (simp add: unat_word_ariths unat_of_nat mod_simps)
qed

lemma v4_deliver_acks:
  "list_all data_chunk ds \<Longrightarrow>
   v4_ws (foldl (v4_deliver U) s ds) =
     v4_ws s @ map (\<lambda>k. wire (Ack (v4_rCount s + of_nat (length (concat (take (Suc k) ds)))))) [0..<length ds]"
proof (induction ds arbitrary: s)
  case (Cons d ds)
  then have d: "data_chunk d" and ds: "list_all data_chunk ds" by auto
  have "[0..<length (d # ds)] = 0 # map Suc [0..<length ds]" by (simp add: map_Suc_upt upt_conv_Cons del: upt_Suc)
  then show ?case
    using Cons.IH [OF ds, of "v4_deliver U s d"] by (simp add: v4_deliver_eq [OF d] add.assoc del: upt_Suc)
qed simp

lemma v4_runWS_data:
  "list_all data_chunk ds \<Longrightarrow>
   v4_runWS U (map (\<lambda>d. (io_ok, Inr (BinaryMessage, message (wire (Data d))))) ds) s = Ret (foldl (v4_deliver U) s ds, None)"
  by (induction ds arbitrary: s)
    (auto simp: runWS_iter_def v4_parseBinary_def recvCmd_data_ok v4_deliver_eq)

text \<open>
  A v4 session that is sent DATA messages writes exactly their payloads to SSH, in order, counts them modulo
  \<open>2^64\<close>, and answers each with the ACK of all bytes received so far; it keeps running.
\<close>

lemma v4_runWS_delivers:
  assumes "list_all data_chunk ds"
  shows "\<exists>s'. v4_runWS U (map (\<lambda>d. (io_ok, Inr (BinaryMessage, message (wire (Data d))))) ds) (v4_New u r) = Ret (s', None) \<and>
    v4_ssh s' = concat ds \<and> unat (v4_rCount s') = length (concat ds) mod 2 ^ 64 \<and>
    v4_ws s' = map (\<lambda>k. wire (Ack (of_nat (length (concat (take (Suc k) ds)))))) [0..<length ds]"
proof -
  let ?n = "v4_New u r"
  have n: "v4_ssh ?n = []" "unat (v4_rCount ?n) = 0" "v4_ws ?n = []" "v4_rCount ?n = 0" by (simp_all add: v4_New_def)
  show ?thesis
    using v4_runWS_data [OF assms, of U ?n] v4r.delivered_all [OF assms, of U ?n] v4r.counter_all [OF assms, of ?n U]
      v4_deliver_acks [OF assms, of U ?n] n
    by simp
qed

text \<open>The other direction: what a read of the SSH connection must give for the loop to go on.\<close>

definition good_read :: "io_reader \<Rightarrow> bool" where
  "good_read R \<longleftrightarrow> reader_ok R \<and> snd (R MaxArrayLen) = None \<and> fst (R MaxArrayLen) \<noteq> []"

lemma good_read_chunk: "good_read R \<Longrightarrow> data_chunk (fst (R MaxArrayLen))"
  by (auto simp: good_read_def reader_ok_def MaxArrayLen_def)

lemma bufio_transparent: "bufio_Read R bufio_NewReader MaxArrayLen = (R MaxArrayLen, bufio_NewReader)"
  by (simp add: bufio_Read_direct MaxArrayLen_def)

lemma runSSH_iter_ok:
  assumes "good_read R"
  shows "runSSH_iter io_ok R s =
    (s\<lparr>v4_mu := False, v4_ws := v4_ws s @ [wire (Data (fst (R MaxArrayLen)))], v4_cur := []\<rparr>, None)"
proof -
  from assms obtain d where r: "R MaxArrayLen = (d, None)" by (cases "R MaxArrayLen") (auto simp: good_read_def)
  with good_read_chunk [OF assms] have "Data_check d = None" by (simp add: Data_check_None)
  with r show ?thesis by (simp add: runSSH_iter_def bufio_transparent v4_send_defs NewData_def)
qed

text \<open>
  The SSH side is forwarded without loss: as long as reads deliver data, each read becomes one DATA message with
  exactly the bytes read, in order, and the buffered reader that is thrown away after each read holds nothing
  back. Counters and the SSH output are untouched.
\<close>

lemma v4_runSSH_forwards:
  assumes "list_all good_read Rs"
  shows "\<exists>s'. v4_runSSH_loop (map (Pair io_ok) Rs) s = (s', None) \<and>
    v4_ws s' = v4_ws s @ map (\<lambda>R. wire (Data (fst (R MaxArrayLen)))) Rs \<and>
    v4_ssh s' = v4_ssh s \<and> v4_rCount s' = v4_rCount s \<and> v4_wCount s' = v4_wCount s \<and>
    list_all (\<lambda>R. bio_buf (snd (bufio_Read R bufio_NewReader MaxArrayLen)) = []) Rs"
  using assms
proof (induction Rs arbitrary: s)
  case (Cons R Rs)
  then have R: "good_read R" and Rs: "list_all good_read Rs" by auto
  show ?case
    using Cons.IH [OF Rs, of "fst (runSSH_iter io_ok R s)"]
    by (auto simp: runSSH_iter_ok [OF R] bufio_transparent)
qed simp

text \<open>
  Bytes that a read delivers together with an error are dropped: the contract of \<^verbatim>\<open>io.Reader\<close> lets a read return
  data and an error at once, and the loop then returns the error without sending the data.
\<close>

lemma v4_runSSH_drops_final_bytes:
  assumes "R MaxArrayLen = (d, Some e)"
  shows "runSSH_iter E R s = (s, Some e)"
  using assms by (simp add: runSSH_iter_def bufio_transparent)

text \<open>
  Every turn of the SSH loop leaves the mutex free and hands at most one message to the WebSocket, a prefix of the
  DATA command of the bytes read; it changes neither the counters, nor the identifier, nor what SSH was given.
\<close>

lemma runSSH_iter_frame:
  assumes "env_ok E" and "\<not> v4_mu s" and "runSSH_iter E R s = (s', err)"
  shows "\<not> v4_mu s' \<and> v4_rCount s' = v4_rCount s \<and> v4_wCount s' = v4_wCount s \<and> v4_sid s' = v4_sid s \<and>
    v4_ssh s' = v4_ssh s \<and>
    (v4_ws s' = v4_ws s \<or> (\<exists>n. v4_ws s' = v4_ws s @ [take n (wire (Data (fst (R MaxArrayLen))))]))"
  using assms(1,3)
proof (cases rule: runSSH_iter_cases)
  case empty
  then have "v4_ws s' = v4_ws s @ [take 0 (wire (Data (fst (R MaxArrayLen))))]" by (simp add: sent_simps)
  with empty show ?thesis by (auto simp: sent_simps)
qed (use assms(2) in \<open>auto simp: sent_simps part_of_def\<close>)

section \<open>Counters of bounded width\<close>

text \<open>The acknowledgements with counters that never wrap around: each must not lie behind the one before.\<close>

fun unbounded_acks :: "nat \<Rightarrow> nat list \<Rightarrow> nat option" where
  "unbounded_acks w [] = Some w"
| "unbounded_acks w (a # as) = (if w \<le> a then unbounded_acks a as else None)"

text \<open>No two acknowledgements in a row are half the range apart: at most \<open>2^63\<close> bytes are under way.\<close>

fun acks_near :: "nat \<Rightarrow> nat list \<Rightarrow> bool" where
  "acks_near w [] \<longleftrightarrow> True"
| "acks_near w (a # as) \<longleftrightarrow> a < w + 2 ^ 63 \<and> w \<le> a + 2 ^ 63 \<and> acks_near a as"

lemma unat_of_nat_64: "n < 2 ^ 64 \<Longrightarrow> unat (of_nat n :: 64 word) = n"
  by (simp add: unat_of_nat)

lemma readAck_near:
  assumes "v4_wCount s = of_nat w" and "a < w + 2 ^ 63" and "w \<le> a + 2 ^ 63"
  shows "fst (readAck (of_nat a) s) = (if w \<le> a then s\<lparr>v4_wCount := of_nat a\<rparr> else s) \<and> (snd (readAck (of_nat a) s) = None \<longleftrightarrow> w \<le> a)"
proof (cases "w \<le> a")
  case True
  have "of_nat a - of_nat w = (of_nat (a - w) :: 64 word)" using True by (simp add: of_nat_diff)
  moreover have "unat (of_nat (a - w) :: 64 word) = a - w" using assms(2) True by (intro unat_of_nat_64) simp
  then have "(of_nat (a - w) :: 64 word) < 2 ^ 63" using assms(2) True by (simp only: word_less_nat_alt) simp
  ultimately show ?thesis using True assms(1) by (simp add: readAck_eq)
next
  case False
  have "of_nat a - of_nat w = - (of_nat (w - a) :: 64 word)" using False by (simp add: of_nat_diff)
  moreover have "\<not> - (of_nat (w - a) :: 64 word) < 2 ^ 63"
  proof -
    have "(of_nat (2 ^ 64 - (w - a)) :: 64 word) = of_nat (2 ^ 64) - of_nat (w - a)" using assms(3) False by (intro of_nat_diff) simp
    then have "- (of_nat (w - a) :: 64 word) = of_nat (2 ^ 64 - (w - a))" by simp
    then have "unat (- (of_nat (w - a) :: 64 word)) = 2 ^ 64 - (w - a)" using False by (simp only:) (intro unat_of_nat_64, simp)
    then show ?thesis using assms(3) False by (simp only: word_less_nat_alt) simp
  qed
  ultimately show ?thesis using False assms(1) by (simp add: readAck_eq)
qed

text \<open>
  C21. The 64-bit arithmetic of acknowledgements is equivalent to counting without bound: on any sequence of cumulative acknowledgements, given
  modulo \<open>2^64\<close> and never half the range apart, the session goes on exactly as long as the unbounded counts do not go backwards, also across
  any number of wrap-arounds, and then its counter is the last of them.
\<close>

theorem acks_like_unbounded:
  assumes "v4_wCount s = of_nat w" and "acks_near w as"
  shows "\<exists>s' err. v4_runWS U (map (\<lambda>a. (E, Inr (BinaryMessage, message (wire (Ack (of_nat a)))))) as) s = Ret (s', err) \<and>
    (case unbounded_acks w as of None \<Rightarrow> err \<noteq> None | Some w' \<Rightarrow> err = None \<and> s' = s\<lparr>v4_wCount := of_nat w'\<rparr>)"
  using assms
proof (induction as arbitrary: s w)
  case Nil
  then show ?case by simp
next
  case (Cons a as)
  have iter: "runWS_iter U E (Inr (BinaryMessage, message (wire (Ack (of_nat a))))) s = Ret (readAck (of_nat a) s)"
    using recvCmd_wire [of "Ack (of_nat a)" U E s] by (simp add: runWS_iter_def v4_parseBinary_def del: wire.simps)
  obtain s1 e1 where r: "readAck (of_nat a) s = (s1, e1)" by fastforce
  show ?case
  proof (cases "w \<le> a")
    case True
    with readAck_near [of s w a] Cons.prems r have "s1 = s\<lparr>v4_wCount := of_nat a\<rparr>" "e1 = None" by simp_all
    moreover from this Cons.prems Cons.IH [of s1 a] obtain s' err where
      "v4_runWS U (map (\<lambda>a. (E, Inr (BinaryMessage, message (wire (Ack (of_nat a)))))) as) s1 = Ret (s', err)"
      "case unbounded_acks a as of None \<Rightarrow> err \<noteq> None | Some w' \<Rightarrow> err = None \<and> s' = s1\<lparr>v4_wCount := of_nat w'\<rparr>"
      by auto
    ultimately show ?thesis using True iter r by (intro exI [of _ s'] exI [of _ err]) (simp del: wire.simps split: option.splits)
  next
    case False
    with readAck_near [of s w a] Cons.prems r obtain e where "e1 = Some e" by auto
    with False iter r show ?thesis by (simp del: wire.simps)
  qed
qed

theorem acks_like_unbounded_witness:
  "\<exists>s' err. v4_runWS rfc4122 (map (\<lambda>a. (io_ok, Inr (BinaryMessage, message (wire (Ack (of_nat a)))))) [2 ^ 64 + 3, 2 ^ 64 + 1])
      ((v4_New 5 Server)\<lparr>v4_wCount := of_nat (2 ^ 64 - 2)\<rparr>) = Ret (s', err) \<and>
     (case unbounded_acks (2 ^ 64 - 2) [2 ^ 64 + 3, 2 ^ 64 + 1] of None \<Rightarrow> err \<noteq> None
      | Some w' \<Rightarrow> err = None \<and> s' = ((v4_New 5 Server)\<lparr>v4_wCount := of_nat (2 ^ 64 - 2)\<rparr>)\<lparr>v4_wCount := of_nat w'\<rparr>)"
  by (rule acks_like_unbounded) simp_all

end
