(* ===== verification/Duplex_V4.thy ===== *)
theory Duplex_V4
  imports Session_V4
begin

text \<open>
  Two corp-relay-v4 sessions back to back: the helper (\<open>Client\<close>) and the relay (\<open>Server\<close>), each running the two loops
  of \<^verbatim>\<open>Session.Run\<close>, over a WebSocket that delivers messages reliably and in order. A step is one turn of one of the
  four loops, in any interleaving. The two loops of one session share only the WebSocket writer, which the mutex
  protects, so a turn can be taken as atomic. The messages a session has sent are its \<open>v4_ws\<close>, and \<open>net_got\<close> counts how many
  of its peer's messages it has consumed.
\<close>

section \<open>The network\<close>

fun peer :: "Role \<Rightarrow> Role" where
  "peer Server = Client"
| "peer Client = Server"

lemma peer_simps [simp]: "peer (peer r) = r" "peer r \<noteq> r" "r \<noteq> peer r" "peer r = Server \<longleftrightarrow> r = Client" "peer r = Client \<longleftrightarrow> r = Server"
  by (cases r; simp)+

record net =
  net_end :: "Role \<Rightarrow> v4"
  net_got :: "Role \<Rightarrow> nat"
  net_in :: "Role \<Rightarrow> bytes"
  net_err :: "Role \<Rightarrow> go_error option"
  net_est :: bool

definition net_init :: "uuid \<Rightarrow> net" where
  "net_init u = \<lparr>net_end = v4_New u, net_got = (\<lambda>_. 0), net_in = (\<lambda>_. []), net_err = (\<lambda>_. None), net_est = False\<rparr>"

text \<open>
  \<open>connect\<close> is the start of the server's \<^verbatim>\<open>runSSH\<close>; \<open>read\<close> a turn of a \<^verbatim>\<open>runSSH\<close> loop on a read that delivers data;
  \<open>recv\<close> a turn of a \<^verbatim>\<open>runWS\<close> loop on the next message of the peer. A session that has reported an error takes no
  further step.
\<close>

inductive net_step :: "uuid_lib \<Rightarrow> net \<Rightarrow> net \<Rightarrow> bool" for U where
  connect: "\<lbrakk> \<not> net_est n; net_err n Server = None; establishConn U io_ok 0 (net_end n Server) = (s', err) \<rbrakk> \<Longrightarrow>
    net_step U n (n\<lparr>net_end := (net_end n)(Server := s'), net_err := (net_err n)(Server := err), net_est := True\<rparr>)"
| read: "\<lbrakk> net_err n r = None; r = Server \<Longrightarrow> net_est n; good_read R; runSSH_iter io_ok R (net_end n r) = (s', err) \<rbrakk> \<Longrightarrow>
    net_step U n (n\<lparr>net_end := (net_end n)(r := s'), net_in := (net_in n)(r := net_in n r @ fst (R MaxArrayLen)),
                    net_err := (net_err n)(r := err)\<rparr>)"
| recv: "\<lbrakk> net_err n r = None; net_got n r < length (v4_ws (net_end n (peer r)));
      runWS_iter U io_ok (Inr (BinaryMessage, message (v4_ws (net_end n (peer r)) ! net_got n r))) (net_end n r) = Ret (s', err) \<rbrakk> \<Longrightarrow>
    net_step U n (n\<lparr>net_end := (net_end n)(r := s'), net_got := (net_got n)(r := Suc (net_got n r)),
                    net_err := (net_err n)(r := err)\<rparr>)"

inductive net_reach :: "uuid_lib \<Rightarrow> uuid \<Rightarrow> net \<Rightarrow> bool" for U u where
  start: "net_reach U u (net_init u)"
| step: "net_reach U u n \<Longrightarrow> net_step U n n' \<Longrightarrow> net_reach U u n'"

section \<open>What is in flight\<close>

fun payload :: "command \<Rightarrow> bytes" where
  "payload (Data d) = d"
| "payload _ = []"

fun acks_of :: "command \<Rightarrow> 64 word list" where
  "acks_of (Ack a) = [a]"
| "acks_of _ = []"

fun sids_of :: "command \<Rightarrow> bytes list" where
  "sids_of (ConnectSuccess s) = [s]"
| "sids_of _ = []"

definition payloads :: "command list \<Rightarrow> bytes" where "payloads cs = concat (map payload cs)"

definition acks :: "command list \<Rightarrow> 64 word list" where "acks cs = concat (map acks_of cs)"

definition sids :: "command list \<Rightarrow> bytes list" where "sids cs = concat (map sids_of cs)"

lemma in_flight_simps [simp]:
  "payloads [] = []" "payloads (c # cs) = payload c @ payloads cs" "payloads (cs @ ds) = payloads cs @ payloads ds"
  "acks [] = []" "acks (c # cs) = acks_of c @ acks cs" "acks (cs @ ds) = acks cs @ acks ds"
  "sids [] = []" "sids (c # cs) = sids_of c @ sids cs" "sids (cs @ ds) = sids cs @ sids ds"
  by (simp_all add: payloads_def acks_def sids_def)

text \<open>
  The acknowledgements under way to a session that has seen \<open>w\<close>, when the peer's counter stands at \<open>r\<close>: each is ahead
  of the one before by less than half the range, and the last is the counter.
\<close>

fun ack_chain :: "64 word \<Rightarrow> 64 word list \<Rightarrow> 64 word \<Rightarrow> bool" where
  "ack_chain w [] r \<longleftrightarrow> w = r"
| "ack_chain w (a # as) r \<longleftrightarrow> a - w < 2 ^ 63 \<and> ack_chain a as r"

lemma ack_chain_snoc: "ack_chain w as r \<Longrightarrow> r' - r < 2 ^ 63 \<Longrightarrow> ack_chain w (as @ [r']) r'"
  by (induction as arbitrary: w) auto

section \<open>The invariant\<close>

text \<open>
  One direction, from the sender \<open>a\<close> of the commands \<open>cs\<close> to the receiver \<open>b\<close>, which has consumed \<open>k\<close> of them: what was read
  at \<open>a\<close> is what was delivered at \<open>b\<close> and what is in flight; \<open>b\<close> counts what it delivered; and the acknowledgements that \<open>b\<close>
  has among its own commands \<open>ds\<close>, beyond the \<open>j\<close> that \<open>a\<close> has consumed, chain from \<open>a\<close>'s counter to \<open>b\<close>'s.
\<close>

definition dir_inv :: "bytes \<Rightarrow> v4 \<Rightarrow> command list \<Rightarrow> nat \<Rightarrow> v4 \<Rightarrow> command list \<Rightarrow> nat \<Rightarrow> bool" where
  "dir_inv inp a cs j b ds k \<longleftrightarrow>
     payloads cs = inp \<and> payloads (take k cs) = v4_ssh b \<and> v4_rCount b = of_nat (length (v4_ssh b)) \<and>
     ack_chain (v4_wCount a) (acks (drop j ds)) (v4_rCount b)"

definition conn_inv :: "uuid_lib \<Rightarrow> bool \<Rightarrow> v4 \<Rightarrow> v4 \<Rightarrow> command list \<Rightarrow> nat \<Rightarrow> bool" where
  "conn_inv U est sv cl ds j \<longleftrightarrow>
     (if est then sids ds = [bytes_of_string (uuid_String U (v4_sid sv))] else sids ds = []) \<and>
     v4_sid cl = (if sids (take j ds) = [] then uuid_Nil else v4_sid sv)"

definition net_inv :: "uuid_lib \<Rightarrow> net \<Rightarrow> (Role \<Rightarrow> command list) \<Rightarrow> bool" where
  "net_inv U n cs \<longleftrightarrow>
     (\<forall>r. list_all valid_command (cs r) \<and> list_all (\<lambda>c. \<forall>a. c \<noteq> ReconnectSuccess a) (cs r) \<and>
          v4_ws (net_end n r) = map wire (cs r) \<and> v4_role (net_end n r) = r \<and> net_err n r = None \<and>
          net_got n r \<le> length (cs (peer r)) \<and>
          dir_inv (net_in n r) (net_end n r) (cs r) (net_got n r) (net_end n (peer r)) (cs (peer r)) (net_got n (peer r))) \<and>
     sids (cs Client) = [] \<and>
     conn_inv U (net_est n) (net_end n Server) (net_end n Client) (cs Server) (net_got n Client)"

lemma net_invD:
  assumes "net_inv U n cs"
  shows "list_all valid_command (cs r)" "list_all (\<lambda>c. \<forall>a. c \<noteq> ReconnectSuccess a) (cs r)"
    "v4_ws (net_end n r) = map wire (cs r)" "v4_role (net_end n r) = r" "net_err n r = None"
    "net_got n r \<le> length (cs (peer r))"
    "dir_inv (net_in n r) (net_end n r) (cs r) (net_got n r) (net_end n (peer r)) (cs (peer r)) (net_got n (peer r))"
    "sids (cs Client) = []"
    "conn_inv U (net_est n) (net_end n Server) (net_end n Client) (cs Server) (net_got n Client)"
  using assms by (auto simp: net_inv_def)

lemma take_payloads: "k < length cs \<Longrightarrow> payloads (take (Suc k) cs) = payloads (take k cs) @ payload (cs ! k)"
  by (simp add: take_Suc_conv_app_nth)

lemma take_sids: "k < length cs \<Longrightarrow> sids (take (Suc k) cs) = sids (take k cs) @ sids_of (cs ! k)"
  by (simp add: take_Suc_conv_app_nth)

lemma drop_acks: "j < length ds \<Longrightarrow> acks (drop j ds) = acks_of (ds ! j) @ acks (drop (Suc j) ds)"
  by (simp add: Cons_nth_drop_Suc [symmetric])

text \<open>
  The two ends of a direction when the session at one end sends a command, and when it consumes one. \<open>same_rx\<close> and
  \<open>same_tx\<close> say that a session's receiving and sending counters are as they were.
\<close>

definition same_rx :: "v4 \<Rightarrow> v4 \<Rightarrow> bool" where
  "same_rx s t \<longleftrightarrow> v4_ssh t = v4_ssh s \<and> v4_rCount t = v4_rCount s"

definition same_tx :: "v4 \<Rightarrow> v4 \<Rightarrow> bool" where
  "same_tx s t \<longleftrightarrow> v4_wCount t = v4_wCount s"

lemma dir_send_tx:
  "dir_inv inp a cs j b ds k \<Longrightarrow> k \<le> length cs \<Longrightarrow> same_tx a a' \<Longrightarrow>
   dir_inv (inp @ payload c) a' (cs @ [c]) j b ds k"
  by (auto simp: dir_inv_def same_tx_def)

lemma dir_send_rx:
  "dir_inv inp a cs j b ds k \<Longrightarrow> j \<le> length ds \<Longrightarrow> same_rx b b' \<Longrightarrow> acks_of c = [] \<Longrightarrow>
   dir_inv inp a cs j b' (ds @ [c]) k"
  by (auto simp: dir_inv_def same_rx_def)

lemma dir_recv_rx:
  "dir_inv inp a cs j b ds k \<Longrightarrow> k < length cs \<Longrightarrow> payload (cs ! k) = [] \<Longrightarrow> same_rx b b' \<Longrightarrow>
   dir_inv inp a cs j b' ds (Suc k)"
  by (auto simp: dir_inv_def same_rx_def take_payloads)

lemma dir_recv_tx:
  "dir_inv inp a cs j b ds k \<Longrightarrow> j < length ds \<Longrightarrow> acks_of (ds ! j) = [] \<Longrightarrow> same_tx a a' \<Longrightarrow>
   dir_inv inp a' cs (Suc j) b ds k"
  by (auto simp: dir_inv_def same_tx_def drop_acks)

lemma dir_recv_ack:
  "dir_inv inp a cs j b ds k \<Longrightarrow> j < length ds \<Longrightarrow> ds ! j = Ack x \<Longrightarrow>
   x - v4_wCount a < 2 ^ 63 \<and> dir_inv inp (a\<lparr>v4_wCount := x\<rparr>) cs (Suc j) b ds k"
  by (auto simp: dir_inv_def drop_acks)

lemma chunk_step: "data_chunk d \<Longrightarrow> (c + of_nat (length d)) - c < (2 ^ 63 :: 64 word)"
  by (simp add: word_less_nat_alt unat_of_nat)

lemma dir_recv_data:
  assumes "dir_inv inp a cs j b ds k" "k < length cs" "j \<le> length ds" "cs ! k = Data d" "data_chunk d"
    and "v4_ssh b' = v4_ssh b @ d" "v4_rCount b' = v4_rCount b + of_nat (length d)"
  shows "dir_inv inp a cs j b' (ds @ [Ack (v4_rCount b')]) (Suc k)"
  using assms ack_chain_snoc [of "v4_wCount a" "acks (drop j ds)" "v4_rCount b" "v4_rCount b'"] chunk_step [of d "v4_rCount b"]
  by (auto simp: dir_inv_def take_payloads simp del: valid_command.simps)

lemma net_inv_init: "net_inv U (net_init u) (\<lambda>_. [])"
  by (simp add: net_inv_def net_init_def v4_New_def dir_inv_def conn_inv_def uuid_Nil_def)

section \<open>Every step keeps the invariant\<close>

lemma role_cases: "q = r \<or> q = peer r"
  by (cases q; cases r) auto

lemma net_inv_send:
  assumes I: "net_inv U n cs"
    and n': "net_end n' = (net_end n)(r := s')" "net_in n' = (net_in n)(r := net_in n r @ payload c)" "net_got n' = net_got n"
      "\<And>q. net_err n' q = None"
    and s': "v4_ws s' = v4_ws (net_end n r) @ [wire c]" "v4_role s' = v4_role (net_end n r)"
      "same_rx (net_end n r) s'" "same_tx (net_end n r) s'"
    and c: "valid_command c" "\<And>a. c \<noteq> ReconnectSuccess a" "acks_of c = []" "r = Client \<Longrightarrow> sids_of c = []"
    and conn: "conn_inv U (net_est n') (net_end n' Server) (net_end n' Client) ((cs(r := cs r @ [c])) Server) (net_got n Client)"
  shows "net_inv U n' (cs(r := cs r @ [c]))"
proof -
  let ?cs = "cs(r := cs r @ [c])"
  have *: "list_all valid_command (?cs q) \<and> list_all (\<lambda>c. \<forall>a. c \<noteq> ReconnectSuccess a) (?cs q) \<and>
      v4_ws (net_end n' q) = map wire (?cs q) \<and> v4_role (net_end n' q) = q \<and> net_err n' q = None \<and>
      net_got n' q \<le> length (?cs (peer q)) \<and>
      dir_inv (net_in n' q) (net_end n' q) (?cs q) (net_got n' q) (net_end n' (peer q)) (?cs (peer q)) (net_got n' (peer q))" for q
  proof -
    consider "q = r" | "q = peer r" using role_cases by blast
    then show ?thesis
    proof cases
      case 1
      then show ?thesis
        using net_invD(1-7) [OF I, of r] net_invD(6) [OF I, of "peer r"] s' c n'
          dir_send_tx [OF net_invD(7) [OF I, of r] _ s'(4), where c = c]
        by (simp add: le_SucI)
    next
      case 2
      then show ?thesis
        using net_invD(1-7) [OF I, of "peer r"] net_invD(6) [OF I, of r] s' c n'
          dir_send_rx [OF net_invD(7) [OF I, of "peer r"], where b' = s' and c = c]
        by (simp add: le_SucI)
    qed
  qed
  have "sids (?cs Client) = []" using net_invD(8) [OF I] c(4) by auto
  with * conn n' show ?thesis unfolding net_inv_def by simp
qed

lemma net_step_connect:
  assumes I: "net_inv U n cs" and U: "uuid_text_ok U" and "\<not> net_est n"
    and e: "establishConn U io_ok 0 (net_end n Server) = (s', err)"
  shows "\<exists>cs'. net_inv U (n\<lparr>net_end := (net_end n)(Server := s'), net_err := (net_err n)(Server := err), net_est := True\<rparr>) cs'"
proof -
  let ?c = "ConnectSuccess (bytes_of_string (uuid_String U (v4_sid (net_end n Server))))"
  from e have s': "s' = (net_end n Server)\<lparr>v4_mu := False, v4_ws := v4_ws (net_end n Server) @ [wire ?c], v4_cur := []\<rparr>" "err = None"
    by (auto simp: establishConn_def sendConnect_ok [OF U])
  have val: "valid_command ?c" using U by (simp add: uuid_text_ok_def)
  have conn: "conn_inv U True s' (net_end n Client) (cs Server @ [?c]) (net_got n Client)"
    using net_invD(9) [OF I] net_invD(6) [OF I, of Client] assms(3) s' by (simp add: conn_inv_def)
  have "net_inv U (n\<lparr>net_end := (net_end n)(Server := s'), net_err := (net_err n)(Server := err), net_est := True\<rparr>)
      (cs(Server := cs Server @ [?c]))"
    by (rule net_inv_send [OF I, where s' = s']) (use val conn s' net_invD(5) [OF I] in \<open>auto simp: same_rx_def same_tx_def\<close>)
  then show ?thesis by blast
qed

lemma net_step_read:
  assumes I: "net_inv U n cs" and R: "good_read R" and e: "runSSH_iter io_ok R (net_end n r) = (s', err)"
  shows "\<exists>cs'. net_inv U (n\<lparr>net_end := (net_end n)(r := s'), net_in := (net_in n)(r := net_in n r @ fst (R MaxArrayLen)),
      net_err := (net_err n)(r := err)\<rparr>) cs'"
proof -
  let ?c = "Data (fst (R MaxArrayLen))"
  from e have s': "s' = (net_end n r)\<lparr>v4_mu := False, v4_ws := v4_ws (net_end n r) @ [wire ?c], v4_cur := []\<rparr>" "err = None"
    by (auto simp: runSSH_iter_ok [OF R])
  have conn: "conn_inv U (net_est n) (((net_end n)(r := s')) Server) (((net_end n)(r := s')) Client) ((cs(r := cs r @ [?c])) Server) (net_got n Client)"
    using net_invD(9) [OF I] net_invD(6) [OF I, of Client] s' by (cases r) (auto simp: conn_inv_def)
  have "net_inv U (n\<lparr>net_end := (net_end n)(r := s'), net_in := (net_in n)(r := net_in n r @ fst (R MaxArrayLen)),
      net_err := (net_err n)(r := err)\<rparr>) (cs(r := cs r @ [?c]))"
    by (rule net_inv_send [OF I, where s' = s']) (use conn s' net_invD(5) [OF I] good_read_chunk [OF R] in \<open>auto simp: same_rx_def same_tx_def\<close>)
  then show ?thesis by blast
qed

lemma net_inv_consume:
  assumes I: "net_inv U n cs" and k: "net_got n r < length (cs (peer r))"
    and n': "net_end n' = (net_end n)(r := s')" "net_in n' = net_in n" "net_got n' = (net_got n)(r := Suc (net_got n r))"
      "net_est n' = net_est n" "\<And>q. net_err n' q = None"
    and s': "v4_ws s' = v4_ws (net_end n r)" "v4_role s' = v4_role (net_end n r)" "same_rx (net_end n r) s'"
    and c: "payload (cs (peer r) ! net_got n r) = []"
    and tx: "dir_inv (net_in n r) s' (cs r) (Suc (net_got n r)) (net_end n (peer r)) (cs (peer r)) (net_got n (peer r))"
    and conn: "conn_inv U (net_est n) (net_end n' Server) (net_end n' Client) (cs Server) (net_got n' Client)"
  shows "net_inv U n' cs"
proof -
  have *: "list_all valid_command (cs q) \<and> list_all (\<lambda>c. \<forall>a. c \<noteq> ReconnectSuccess a) (cs q) \<and>
      v4_ws (net_end n' q) = map wire (cs q) \<and> v4_role (net_end n' q) = q \<and> net_err n' q = None \<and>
      net_got n' q \<le> length (cs (peer q)) \<and>
      dir_inv (net_in n' q) (net_end n' q) (cs q) (net_got n' q) (net_end n' (peer q)) (cs (peer q)) (net_got n' (peer q))" for q
  proof -
    consider "q = r" | "q = peer r" using role_cases by blast
    then show ?thesis
    proof cases
      case 1
      then show ?thesis using net_invD(1-7) [OF I, of r] s' n' k tx by simp
    next
      case 2
      then show ?thesis
        using net_invD(1-7) [OF I, of "peer r"] s' n' k
          dir_recv_rx [OF net_invD(7) [OF I, of "peer r"], where b' = s'] c
        by simp
    qed
  qed
  with conn n' net_invD(8) [OF I] show ?thesis unfolding net_inv_def by simp
qed

lemma net_inv_deliver:
  assumes I: "net_inv U n cs" and k: "net_got n r < length (cs (peer r))"
    and c: "cs (peer r) ! net_got n r = Data d" "data_chunk d"
    and n': "net_end n' = (net_end n)(r := s')" "net_in n' = net_in n" "net_got n' = (net_got n)(r := Suc (net_got n r))"
      "net_est n' = net_est n" "\<And>q. net_err n' q = None"
    and s': "v4_ws s' = v4_ws (net_end n r) @ [wire (Ack (v4_rCount s'))]" "v4_role s' = v4_role (net_end n r)"
      "v4_ssh s' = v4_ssh (net_end n r) @ d" "v4_rCount s' = v4_rCount (net_end n r) + of_nat (length d)"
      "same_tx (net_end n r) s'" "v4_sid s' = v4_sid (net_end n r)"
  shows "net_inv U n' (cs(r := cs r @ [Ack (v4_rCount s')]))"
proof -
  let ?cs = "cs(r := cs r @ [Ack (v4_rCount s')])"
  have *: "list_all valid_command (?cs q) \<and> list_all (\<lambda>c. \<forall>a. c \<noteq> ReconnectSuccess a) (?cs q) \<and>
      v4_ws (net_end n' q) = map wire (?cs q) \<and> v4_role (net_end n' q) = q \<and> net_err n' q = None \<and>
      net_got n' q \<le> length (?cs (peer q)) \<and>
      dir_inv (net_in n' q) (net_end n' q) (?cs q) (net_got n' q) (net_end n' (peer q)) (?cs (peer q)) (net_got n' (peer q))" for q
  proof -
    consider "q = r" | "q = peer r" using role_cases by blast
    then show ?thesis
    proof cases
      case 1
      have "dir_inv (net_in n r) s' (cs r) (Suc (net_got n r)) (net_end n (peer r)) (cs (peer r)) (net_got n (peer r))"
        by (rule dir_recv_tx [OF net_invD(7) [OF I] k _ s'(5)]) (simp add: c)
      then have "dir_inv (net_in n r) s' (?cs r) (Suc (net_got n r)) (net_end n (peer r)) (cs (peer r)) (net_got n (peer r))"
        using dir_send_tx [where c = "Ack (v4_rCount s')" and a' = s'] net_invD(6) [OF I, of "peer r"]
        by (fastforce simp: same_tx_def)
      with 1 show ?thesis using net_invD(1-6) [OF I, of r] s' n' k by simp
    next
      case 2
      have "dir_inv (net_in n (peer r)) (net_end n (peer r)) (cs (peer r)) (net_got n (peer r)) s' (?cs r) (Suc (net_got n r))"
        using dir_recv_data [OF net_invD(7) [OF I, of "peer r"], where d = d and b' = s'] net_invD(6) [OF I, of "peer r"] k c s'
        by simp
      with 2 show ?thesis using net_invD(1-6) [OF I, of "peer r"] s' n' k by simp
    qed
  qed
  have "conn_inv U (net_est n') (net_end n' Server) (net_end n' Client) (?cs Server) (net_got n' Client)"
    using net_invD(9) [OF I] net_invD(6) [OF I, of Client] s'(6) c k n'
    by (cases r) (auto simp: conn_inv_def take_sids)
  with * net_invD(8) [OF I] show ?thesis unfolding net_inv_def by (cases r) simp_all
qed

text \<open>
  What is left to do until nothing is in flight: a data command costs two turns, one at each end, every other command
  one.
\<close>

fun turns :: "command \<Rightarrow> nat" where
  "turns (Data d) = 2"
| "turns _ = 1"

definition pending :: "net \<Rightarrow> (Role \<Rightarrow> command list) \<Rightarrow> nat" where
  "pending n cs = sum_list (map turns (drop (net_got n Client) (cs Server))) + sum_list (map turns (drop (net_got n Server) (cs Client)))"

lemma turns_pos: "0 < turns c"
  by (cases c) auto

lemma pending_zero: "pending n cs = 0 \<Longrightarrow> length (cs (peer r)) \<le> net_got n r"
  by (cases r) (auto simp: pending_def drop_eq_Nil [symmetric] simp del: drop_eq_Nil, (metis list.exhaust list.set_intros(1) turns_pos less_numeral_extra(3))+)

lemma pending_nonzero: "pending n cs \<noteq> 0 \<Longrightarrow> \<exists>r. net_got n r < length (cs (peer r))"
  by (rule ccontr) (auto simp: pending_def not_less dest: spec [of _ Client] spec [of _ Server])

lemma pending_consume:
  assumes "net_got n r < length (cs (peer r))" "net_got n' = (net_got n)(r := Suc (net_got n r))"
  shows "pending n cs = turns (cs (peer r) ! net_got n r) + pending n' cs"
  using assms by (cases r) (simp_all add: pending_def Cons_nth_drop_Suc [symmetric])

lemma pending_snoc: "net_got n (peer r) \<le> length (cs r) \<Longrightarrow> pending n (cs(r := cs r @ [c])) = pending n cs + turns c"
  by (cases r) (simp_all add: pending_def)

lemma sids_split: "k < length cs \<Longrightarrow> sids cs = sids (take k cs) @ sids_of (cs ! k) @ sids (drop (Suc k) cs)"
  using id_take_nth_drop [of k cs] by (metis in_flight_simps(8) in_flight_simps(9))

lemma pending_connect:
  assumes I: "net_inv U n cs" and k: "net_got n r < length (cs (peer r))" and c: "cs (peer r) ! net_got n r = ConnectSuccess b"
  shows "r = Client \<and> v4_sid (net_end n Client) = uuid_Nil \<and> b = bytes_of_string (uuid_String U (v4_sid (net_end n Server))) \<and>
    conn_inv U (net_est n) (net_end n Server) ((net_end n Client)\<lparr>v4_sid := v4_sid (net_end n Server)\<rparr>) (cs Server) (Suc (net_got n Client))"
proof (cases r)
  case Server
  with sids_split [OF k] c net_invD(8) [OF I] show ?thesis by simp
next
  case Client
  have s: "sids (cs Server) = sids (take (net_got n Client) (cs Server)) @ [b] @ sids (drop (Suc (net_got n Client)) (cs Server))"
    using sids_split [OF k] c Client by simp
  with net_invD(9) [OF I] have "sids (cs Server) = [bytes_of_string (uuid_String U (v4_sid (net_end n Server)))]"
    by (auto simp: conn_inv_def split: if_splits)
  with s have "sids (take (net_got n Client) (cs Server)) = [] \<and> b = bytes_of_string (uuid_String U (v4_sid (net_end n Server)))"
    by (cases "sids (take (net_got n Client) (cs Server))") simp_all
  then show ?thesis
    using net_invD(9) [OF I] k c Client by (auto simp: conn_inv_def take_sids)
qed

lemma net_step_recv:
  assumes I: "net_inv U n cs" and U: "uuid_text_ok U" and l: "net_got n r < length (v4_ws (net_end n (peer r)))"
    and e: "runWS_iter U io_ok (Inr (BinaryMessage, message (v4_ws (net_end n (peer r)) ! net_got n r))) (net_end n r) = Ret (s', err)"
  shows "\<exists>cs'. net_inv U (n\<lparr>net_end := (net_end n)(r := s'), net_got := (net_got n)(r := Suc (net_got n r)),
      net_err := (net_err n)(r := err)\<rparr>) cs' \<and>
    pending (n\<lparr>net_end := (net_end n)(r := s'), net_got := (net_got n)(r := Suc (net_got n r)),
      net_err := (net_err n)(r := err)\<rparr>) cs' < pending n cs" (is "\<exists>cs'. net_inv U ?n cs' \<and> _")
proof -
  let ?c = "cs (peer r) ! net_got n r"
  have k: "net_got n r < length (cs (peer r))" using l net_invD(3) [OF I, of "peer r"] by simp
  have v: "valid_command ?c" and nr: "\<And>a. ?c \<noteq> ReconnectSuccess a"
    using net_invD(1,2) [OF I, of "peer r"] k by (auto simp: list_all_length)
  have e: "recvCmd U io_ok (wire ?c) (net_end n r) = Ret (s', err)"
    using e k net_invD(3) [OF I, of "peer r"] by (simp add: runWS_iter_def v4_parseBinary_def)
  note err = net_invD(5) [OF I]
  have p: "pending n cs = turns ?c + pending ?n cs" by (rule pending_consume [of n r cs, OF k]) simp
  then have less: "pending ?n cs < pending n cs" using turns_pos by simp
  show ?thesis
  proof (cases ?c)
    case (ConnectSuccess b)
    from pending_connect [OF I k ConnectSuccess] have r: "r = Client" and nil: "v4_sid (net_end n Client) = uuid_Nil"
      and b: "b = bytes_of_string (uuid_String U (v4_sid (net_end n Server)))"
      and conn: "conn_inv U (net_est n) (net_end n Server) ((net_end n Client)\<lparr>v4_sid := v4_sid (net_end n Server)\<rparr>) (cs Server) (Suc (net_got n Client))"
      by auto
    from e ConnectSuccess b r nil net_invD(4) [OF I, of Client] have s': "s' = (net_end n Client)\<lparr>v4_sid := v4_sid (net_end n Server)\<rparr>" "err = None"
      by (auto simp: recv_connect [OF U])
    have "net_inv U ?n cs"
    proof (rule net_inv_consume [OF I k, where s' = s'])
      show "dir_inv (net_in n r) s' (cs r) (Suc (net_got n r)) (net_end n (peer r)) (cs (peer r)) (net_got n (peer r))"
        by (rule dir_recv_tx [OF net_invD(7) [OF I] k]) (use ConnectSuccess s' r in \<open>simp_all add: same_tx_def\<close>)
    qed (use s' r err conn ConnectSuccess in \<open>auto simp: same_rx_def\<close>)
    with less show ?thesis by blast
  next
    case (ReconnectSuccess a)
    with nr show ?thesis by blast
  next
    case (Data d)
    with e v have s': "s' = (net_end n r)\<lparr>v4_rCount := v4_rCount (net_end n r) + of_nat (length d), v4_ssh := v4_ssh (net_end n r) @ d,
        v4_mu := False, v4_ws := v4_ws (net_end n r) @ [wire (Ack (v4_rCount (net_end n r) + of_nat (length d)))], v4_cur := []\<rparr>" "err = None"
      by (auto simp: recvCmd_data_ok)
    have "net_inv U ?n (cs(r := cs r @ [Ack (v4_rCount s')]))"
      by (rule net_inv_deliver [OF I k Data]) (use s' err v Data in \<open>auto simp: same_tx_def\<close>)
    moreover have "pending ?n (cs(r := cs r @ [Ack (v4_rCount s')])) < pending n cs"
      using p Data net_invD(6) [OF I, of "peer r"] by (subst pending_snoc) simp_all
    ultimately show ?thesis by blast
  next
    case (Ack a)
    from dir_recv_ack [OF net_invD(7) [OF I] k Ack] have fwd: "a - v4_wCount (net_end n r) < 2 ^ 63"
      and tx: "dir_inv (net_in n r) ((net_end n r)\<lparr>v4_wCount := a\<rparr>) (cs r) (Suc (net_got n r)) (net_end n (peer r)) (cs (peer r)) (net_got n (peer r))"
      by auto
    from e Ack v fwd have s': "s' = (net_end n r)\<lparr>v4_wCount := a\<rparr>" "err = None" by (auto simp: recvCmd_wire readAck_eq)
    have "net_inv U ?n cs"
    proof (rule net_inv_consume [OF I k, where s' = s'])
      show "conn_inv U (net_est n) (net_end ?n Server) (net_end ?n Client) (cs Server) (net_got ?n Client)"
        using net_invD(9) [OF I] s' k Ack by (cases r) (auto simp: conn_inv_def take_sids)
    qed (use s' err tx Ack in \<open>auto simp: same_rx_def\<close>)
    with less show ?thesis by blast
  qed
qed

lemma net_reach_inv:
  assumes "net_reach U u n" and "uuid_text_ok U"
  shows "\<exists>cs. net_inv U n cs"
  using assms(1)
proof (induction rule: net_reach.induct)
  case start
  show ?case using net_inv_init by blast
next
  case (step n n')
  then obtain cs where I: "net_inv U n cs" by blast
  from step.hyps(2) show ?case
    by (cases rule: net_step.cases)
      (use I assms(2) net_step_connect net_step_read net_step_recv in \<open>blast+\<close>)
qed

section \<open>Draining\<close>

text \<open>
  While a message is pending, its receiver can take it: the turn returns. Repeating it empties both directions.
\<close>

lemma net_can_recv:
  assumes I: "net_inv U n cs" and U: "uuid_text_ok U" and k: "net_got n r < length (cs (peer r))"
  shows "\<exists>n' cs'. net_step U n n' \<and> net_inv U n' cs' \<and> pending n' cs' < pending n cs \<and> net_in n' = net_in n"
proof -
  have l: "net_got n r < length (v4_ws (net_end n (peer r)))" using k net_invD(3) [OF I, of "peer r"] by simp
  obtain s' err where e: "runWS_iter U io_ok (Inr (BinaryMessage, message (v4_ws (net_end n (peer r)) ! net_got n r))) (net_end n r) = Ret (s', err)"
    using recvCmd_returns [of U io_ok "v4_ws (net_end n (peer r)) ! net_got n r" "net_end n r"]
    by (auto simp: runWS_iter_def v4_parseBinary_def)
  from net_step.recv [OF net_invD(5) [OF I] l e] net_step_recv [OF I U l e] show ?thesis
    by fastforce
qed

lemma net_inv_drains:
  assumes "net_inv U n cs" and "uuid_text_ok U"
  shows "\<exists>n' cs'. (net_step U)\<^sup>*\<^sup>* n n' \<and> net_inv U n' cs' \<and> pending n' cs' = 0 \<and> net_in n' = net_in n"
  using assms(1)
proof (induction "pending n cs" arbitrary: n cs rule: less_induct)
  case less
  show ?case
  proof (cases "pending n cs = 0")
    case True
    with less.prems show ?thesis by blast
  next
    case False
    then obtain r where "net_got n r < length (cs (peer r))" using pending_nonzero by blast
    from net_can_recv [OF less.prems assms(2) this] obtain n1 cs1 where
      1: "net_step U n n1" "net_inv U n1 cs1" "pending n1 cs1 < pending n cs" "net_in n1 = net_in n" by blast
    from less.hyps [OF 1(3,2)] 1(1,4) show ?thesis by (metis converse_rtranclp_into_rtranclp)
  qed
qed

lemma net_inv_drained:
  assumes I: "net_inv U n cs" and p: "pending n cs = 0"
  shows "v4_ssh (net_end n (peer r)) = net_in n r" "v4_wCount (net_end n r) = of_nat (length (net_in n r))"
proof -
  have "length (cs q) \<le> net_got n (peer q)" for q using pending_zero [OF p, of "peer q"] by simp
  then have "take (net_got n (peer r)) (cs r) = cs r" "drop (net_got n r) (cs (peer r)) = []"
    by (metis take_all, metis drop_all peer_simps(1))
  with net_invD(7) [OF I, of r] show "v4_ssh (net_end n (peer r)) = net_in n r" "v4_wCount (net_end n r) = of_nat (length (net_in n r))"
    by (auto simp: dir_inv_def)
qed

section \<open>The properties of the pair\<close>

text \<open>
  C2. Nothing is lost, duplicated or reordered between the two SSH sides, in either direction and under any
  interleaving of the four loops: the bytes read from SSH at one end are the bytes written to SSH at the other end
  followed by the payloads of the commands still in flight.
\<close>

theorem duplex_in_order:
  assumes "net_reach U u n" and "uuid_text_ok U"
  shows "\<exists>cs. list_all valid_command cs \<and> map wire cs = drop (net_got n (peer r)) (v4_ws (net_end n r)) \<and>
    net_in n r = v4_ssh (net_end n (peer r)) @ payloads cs"
proof -
  obtain cs where I: "net_inv U n cs" using net_reach_inv [OF assms] by blast
  let ?k = "net_got n (peer r)"
  have "list_all valid_command (drop ?k (cs r))"
    using net_invD(1) [OF I, of r] by (auto simp: list_all_iff dest: in_set_dropD)
  moreover have "payloads (cs r) = payloads (take ?k (cs r)) @ payloads (drop ?k (cs r))"
    using in_flight_simps(3) [of "take ?k (cs r)" "drop ?k (cs r)"] by simp
  ultimately show ?thesis
    using net_invD(3,7) [OF I, of r] by (intro exI [of _ "drop ?k (cs r)"]) (auto simp: dir_inv_def drop_map)
qed

text \<open>
  C10. Two well-behaved peers never disagree: in every reachable state neither session has reported an error (no
  command is refused, no acknowledgement is taken for a reverse one, even after the counters wrap), the client's
  session ID is unset or the server's, and each session counts exactly the bytes it has written to SSH.
\<close>

theorem duplex_no_error:
  assumes "net_reach U u n" and "uuid_text_ok U"
  shows "net_err n r = None \<and> v4_sid (net_end n Client) \<in> {uuid_Nil, v4_sid (net_end n Server)} \<and>
    v4_rCount (net_end n r) = of_nat (length (v4_ssh (net_end n r)))"
proof -
  obtain cs where I: "net_inv U n cs" using net_reach_inv [OF assms] by blast
  from net_invD(5) [OF I, of r] net_invD(7) [OF I, of "peer r"] net_invD(9) [OF I] show ?thesis
    by (auto simp: dir_inv_def conn_inv_def)
qed

text \<open>
  C9. The pair makes progress: from every reachable state the two sessions can reach, by consuming messages alone, a
  state in which everything that was read from SSH at either end has been written to SSH at the other end and
  acknowledged back to the sender.
\<close>

theorem duplex_drains:
  assumes "net_reach U u n" and "uuid_text_ok U"
  shows "\<exists>n'. (net_step U)\<^sup>*\<^sup>* n n' \<and> net_in n' = net_in n \<and>
    (\<forall>r. v4_ssh (net_end n' (peer r)) = net_in n r \<and> v4_wCount (net_end n' r) = of_nat (length (net_in n r)))"
proof -
  obtain cs where I: "net_inv U n cs" using net_reach_inv [OF assms] by blast
  from net_inv_drains [OF I assms(2)] obtain n' cs' where
    "(net_step U)\<^sup>*\<^sup>* n n'" "net_inv U n' cs'" "pending n' cs' = 0" "net_in n' = net_in n" by blast
  with net_inv_drained show ?thesis by metis
qed

text \<open>
  A run in which the client's first byte overtakes the server's CONNECT_SUCCESS: the server's two loops start together,
  and \<^verbatim>\<open>runWS\<close> may answer the DATA before \<^verbatim>\<open>runSSH\<close> has sent anything.
\<close>

definition early_data :: "uuid \<Rightarrow> net" where
  "early_data u = (net_init u)\<lparr>net_end := (v4_New u)(Client := (v4_New u Client)\<lparr>v4_mu := False, v4_ws := [wire (Data [7])], v4_cur := []\<rparr>),
     net_in := (\<lambda>_. [])(Client := [7])\<rparr>"

definition early_ack :: "uuid \<Rightarrow> net" where
  "early_ack u = (early_data u)\<lparr>net_got := (\<lambda>_. 0)(Server := 1), net_end := (net_end (early_data u))(Server :=
     (v4_New u Server)\<lparr>v4_rCount := 1, v4_ssh := [7], v4_mu := False, v4_ws := [wire (Ack 1)], v4_cur := []\<rparr>)\<rparr>"

lemma early_data_step: "net_step U (net_init u) (early_data u)"
proof -
  have R: "good_read (ready [7])" by (simp add: good_read_def ready_def MaxArrayLen_def)
  have i: "fst (ready [7] MaxArrayLen) = [7]" by (simp add: ready_def MaxArrayLen_def)
  from net_step.read [OF _ _ R runSSH_iter_ok [OF R], of "net_init u" Client U] show ?thesis
    by (simp add: early_data_def net_init_def i v4_New_def fun_upd_def cong: if_cong)
qed

lemma early_ack_step: "net_step U (early_data u) (early_ack u)"
proof -
  have "runWS_iter U io_ok (Inr (BinaryMessage, message (v4_ws (net_end (early_data u) (peer Server)) ! net_got (early_data u) Server))) (net_end (early_data u) Server) =
      Ret ((v4_New u Server)\<lparr>v4_rCount := 1, v4_ssh := [7], v4_mu := False, v4_ws := [wire (Ack 1)], v4_cur := []\<rparr>, None)"
    by (simp add: runWS_iter_def v4_parseBinary_def early_data_def net_init_def recvCmd_data_ok) (simp add: v4_New_def)
  from net_step.recv [OF _ _ this] show ?thesis
    by (simp add: early_ack_def early_data_def net_init_def fun_upd_def cong: if_cong)
qed

lemma early_ack_reach: "net_reach U u (early_ack u)"
  using net_reach.intros early_data_step early_ack_step by metis

text \<open>
  CONNECT_SUCCESS need not be the first command of a server: there is a run in which the client's data arrives
  before the server's \<^verbatim>\<open>runSSH\<close> has announced the session, and the first message the client is sent is an ACK.
\<close>

lemma connect_may_come_late:
  "\<exists>n. net_reach U u n \<and> \<not> net_est n \<and> v4_sid (net_end n Client) = uuid_Nil \<and> v4_ws (net_end n Server) = [wire (Ack 1)]"
  using early_ack_reach [of U u] by (intro exI [of _ "early_ack u"]) (simp add: early_ack_def early_data_def net_init_def v4_New_def)

theorem duplex_in_order_witness:
  "\<exists>cs. list_all valid_command cs \<and> map wire cs = drop (net_got (early_data 5) (peer Client)) (v4_ws (net_end (early_data 5) Client)) \<and>
    net_in (early_data 5) Client = v4_ssh (net_end (early_data 5) (peer Client)) @ payloads cs"
  by (rule duplex_in_order [OF net_reach.step [OF net_reach.start early_data_step] uuid_text_ok_rfc4122])

theorem duplex_no_error_witness:
  "net_err (early_ack 5) Server = None \<and> v4_sid (net_end (early_ack 5) Client) \<in> {uuid_Nil, v4_sid (net_end (early_ack 5) Server)} \<and>
    v4_rCount (net_end (early_ack 5) Server) = of_nat (length (v4_ssh (net_end (early_ack 5) Server)))"
  by (rule duplex_no_error [OF early_ack_reach uuid_text_ok_rfc4122])

theorem duplex_drains_witness:
  "\<exists>n'. (net_step rfc4122)\<^sup>*\<^sup>* (early_data 5) n' \<and> net_in n' = net_in (early_data 5) \<and>
    (\<forall>r. v4_ssh (net_end n' (peer r)) = net_in (early_data 5) r \<and> v4_wCount (net_end n' r) = of_nat (length (net_in (early_data 5) r)))"
  by (rule duplex_drains [OF net_reach.step [OF net_reach.start early_data_step] uuid_text_ok_rfc4122])

end
