(* ===== verification/Session_V1.thy ===== *)
theory Session_V1
  imports Session_Iface
begin

text \<open>
  The original corp-relay session (\<^verbatim>\<open>src/session/corprelay/corprelay.go\<close>). Every WebSocket message is a 4-byte big endian
  acknowledgement followed by data; the acknowledgement counts received bytes modulo \<open>2^24\<close>, and a non-zero high byte
  reports an error. The record \<open>v1\<close> is the Go \<^verbatim>\<open>Session\<close> with what its connections have been given so far. The loops of
  \<^verbatim>\<open>runSSH\<close> and \<^verbatim>\<open>runWS\<close> are given by their bodies and by runs over a list of inputs; \<open>v1_Run_fail\<close> is what \<^verbatim>\<open>Run\<close> does
  once a loop has reported its error.
\<close>

section \<open>State\<close>

definition AckByteSize :: nat where "AckByteSize = 4"

definition AckErrMask :: "32 word" where "AckErrMask = 0xff000000"

definition ChunkSize :: "32 word" where "ChunkSize = 0xffffff"

record v1 =
  v1_sid :: uuid
  v1_c :: "32 word"
  v1_ssh :: bytes
  v1_ws :: "bytes list"

definition v1_New :: "uuid \<Rightarrow> v1" where
  "v1_New fresh = \<lparr>v1_sid = fresh, v1_c = 0, v1_ssh = [], v1_ws = []\<rparr>"

definition v1_Version :: ProtocolVersion where "v1_Version = CorpRelay"

definition incCounter :: "nat \<Rightarrow> v1 \<Rightarrow> v1" where
  "incCounter n s = s\<lparr>v1_c := (v1_c s + of_nat n) AND ChunkSize\<rparr>"

section \<open>Acknowledgements\<close>

text \<open>\<^verbatim>\<open>readAck\<close> returns the value it read beside \<open>ErrInvalidAck\<close>; the reader has then been advanced past it.\<close>

definition v1_readAck :: "reader \<Rightarrow> (32 word \<times> go_error option) go \<times> reader" where
  "v1_readAck r =
     (case io_ReadFull r AckByteSize of
        (Inl err, r') \<Rightarrow> (Ret (0, Some (Wrap ''ReadFull() error: '' err [])), r')
      | (Inr b, r') \<Rightarrow>
          (go_bind (uint32 b) (\<lambda>ack. if ack > ChunkSize then Ret (ack, Some ErrInvalidAck) else Ret (ack, None)), r'))"

definition writeAck :: "io_writer \<Rightarrow> bytes \<Rightarrow> 32 word \<Rightarrow> bytes \<times> go_error option" where
  "writeAck W out ack = io_Write W out (be32 ack)"

section \<open>WebSocket to SSH\<close>

definition copyWS :: "io_env \<Rightarrow> reader \<Rightarrow> v1 \<Rightarrow> v1 \<times> go_error option" where
  "copyWS E r s =
     (case buffer_ReadFrom r of
        (_, Some err) \<Rightarrow> (s, Some err)
      | (b, None) \<Rightarrow>
          (let s1 = incCounter (length b) s in
           case io_Write (ssh_Write E) (v1_ssh s1) b of (out, err) \<Rightarrow> (s1\<lparr>v1_ssh := out\<rparr>, err)))"

definition v1_parseBinary :: "io_env \<Rightarrow> reader \<Rightarrow> v1 \<Rightarrow> (v1 \<times> go_error option) go" where
  "v1_parseBinary E r s =
     (case v1_readAck r of
        (Panic p, _) \<Rightarrow> Panic p
      | (Ret (_, Some err), _) \<Rightarrow> Ret (s, Some (Wrap ''readAck() error: '' err []))
      | (Ret (_, None), r') \<Rightarrow> Ret (copyWS E r' s))"

text \<open>Text messages carry latency reports and are ignored.\<close>

definition parseText :: "reader \<Rightarrow> v1 \<Rightarrow> v1 \<times> go_error option" where
  "parseText r s = (case buffer_ReadFrom r of (_, Some err) \<Rightarrow> (s, Some err) | (_, None) \<Rightarrow> (s, None))"

definition v1_runWS_iter :: "io_env \<Rightarrow> (go_error + nat \<times> reader) \<Rightarrow> v1 \<Rightarrow> (v1 \<times> go_error option) go" where
  "v1_runWS_iter E nr s =
     (case nr of
        Inl err \<Rightarrow> Ret (s, Some (Wrap ''NextReader() error: '' err []))
      | Inr (t, r) \<Rightarrow>
          (if t = BinaryMessage then v1_parseBinary E r s
           else if t = TextMessage then Ret (parseText r s)
           else Ret (s, Some (NewError (''unsupported message type: '' @ itoa t)))))"

fun v1_runWS :: "(io_env \<times> (go_error + nat \<times> reader)) list \<Rightarrow> v1 \<Rightarrow> (v1 \<times> go_error option) go" where
  "v1_runWS [] s = Ret (s, None)"
| "v1_runWS ((E, nr) # is) s =
     go_bind (v1_runWS_iter E nr s) (\<lambda>(s1, err).
       case err of Some e \<Rightarrow> Ret (s1, Some e) | None \<Rightarrow> v1_runWS is s1)"

section \<open>SSH to WebSocket\<close>

definition v1_copySSH :: "io_env \<Rightarrow> bytes \<Rightarrow> bytes \<Rightarrow> bytes \<times> go_error option" where
  "v1_copySSH E m b = io_Write (ws_Write E) m b"

text \<open>
  The body of \<^verbatim>\<open>runSSH\<close>. The deferred \<^verbatim>\<open>w.Close()\<close> sends what was written to the message, on the error paths too.
\<close>

definition v1_runSSH_iter :: "io_env \<Rightarrow> io_reader \<Rightarrow> v1 \<Rightarrow> v1 \<times> go_error option" where
  "v1_runSSH_iter E R s =
     (case fst (bufio_Read R bufio_NewReader (unat ChunkSize)) of
        (_, Some err) \<Rightarrow> (s, Some err)
      | (data, None) \<Rightarrow>
          (case ws_NextWriter E BinaryMessage of
             Some err \<Rightarrow> (s, Some (Wrap ''NextWriter() error: '' err []))
           | None \<Rightarrow>
               (case writeAck (ws_Write E) [] (v1_c s) of
                  (m, Some err) \<Rightarrow>
                    (s\<lparr>v1_ws := v1_ws s @ [m]\<rparr>,
                     Some (Wrap (''writeAck('' @ itoa (unat (v1_c s)) @ '') error: '') err []))
                | (m, None) \<Rightarrow>
                    (case v1_copySSH E m data of (m', err) \<Rightarrow> (s\<lparr>v1_ws := v1_ws s @ [m']\<rparr>, err)))))"

fun v1_runSSH :: "(io_env \<times> io_reader) list \<Rightarrow> v1 \<Rightarrow> v1 \<times> go_error option" where
  "v1_runSSH [] s = (s, None)"
| "v1_runSSH ((E, R) # is) s =
     (case v1_runSSH_iter E R s of
        (s1, Some err) \<Rightarrow> (s1, Some err)
      | (s1, None) \<Rightarrow> v1_runSSH is s1)"

text \<open>
  The end of \<^verbatim>\<open>Run\<close>: after the first error of a loop, tell the peer by an acknowledgement with all error bits set, and
  return the original error whatever becomes of that.
\<close>

definition v1_Run_fail :: "io_env \<Rightarrow> go_error \<Rightarrow> v1 \<Rightarrow> v1 \<times> go_error" where
  "v1_Run_fail E err s =
     (case ws_NextWriter E BinaryMessage of
        Some _ \<Rightarrow> (s, err)
      | None \<Rightarrow>
          (let s1 = s\<lparr>v1_c := v1_c s OR AckErrMask\<rparr> in
           case writeAck (ws_Write E) [] (v1_c s1) of (m, _) \<Rightarrow> (s1\<lparr>v1_ws := v1_ws s1 @ [m]\<rparr>, err)))"

section \<open>The counter and the error bits\<close>

lemma ChunkSize_mask: "ChunkSize = mask 24"
  by (simp add: ChunkSize_def mask_eq_exp_minus_1)

lemma unat_and_ChunkSize: "unat (x AND ChunkSize) = unat x mod 2 ^ 24"
  by (simp only: ChunkSize_mask take_bit_eq_mask [symmetric] unsigned_take_bit_eq take_bit_nat_def)

lemma incCounter_unat: "unat (v1_c (incCounter n s)) = (unat (v1_c s) + n) mod 2 ^ 24"
proof -
  have "unat (v1_c s + of_nat n) = (unat (v1_c s) + n) mod 2 ^ 32"
    by (simp add: unat_word_ariths unat_of_nat mod_simps)
  moreover have "(unat (v1_c s) + n) mod 2 ^ 32 mod 2 ^ 24 = (unat (v1_c s) + n) mod 2 ^ 24"
    by (rule mod_mod_cancel) simp
  ultimately show ?thesis by (simp add: incCounter_def unat_and_ChunkSize)
qed

lemma ack_high_zero: "ack \<le> ChunkSize \<longleftrightarrow> drop_bit 24 ack = 0"
proof -
  have "drop_bit 24 ack = 0 \<longleftrightarrow> unat (drop_bit 24 ack) = 0" by (simp add: unat_eq_0)
  also have "\<dots> \<longleftrightarrow> unat ack div 2 ^ 24 = 0" by (simp only: unat_drop_bit_eq drop_bit_nat_def)
  also have "\<dots> \<longleftrightarrow> unat ack \<le> unat ChunkSize" by (auto simp: ChunkSize_def div_eq_0_iff)
  finally show ?thesis by (simp add: word_le_nat_alt)
qed

lemma ack_mask_bits: "ack AND AckErrMask = push_bit 24 (drop_bit 24 ack)"
proof -
  have m: "AckErrMask = push_bit 24 (mask 8)" by (simp add: AckErrMask_def push_bit_eq_mult mask_eq_exp_minus_1)
  show ?thesis unfolding m by (rule bit_word_eqI) (auto simp: bit_simps)
qed

lemma push_drop_zero: "push_bit 24 (drop_bit 24 ack) = 0 \<longleftrightarrow> drop_bit 24 (ack :: 32 word) = 0"
proof
  assume "push_bit 24 (drop_bit 24 ack) = 0"
  then have "drop_bit 24 (push_bit 24 (drop_bit 24 ack)) = 0" by simp
  moreover have "drop_bit 24 (push_bit 24 (drop_bit 24 ack)) = drop_bit 24 ack"
    by (rule bit_word_eqI) (auto simp: bit_simps dest: bit_imp_le_length)
  ultimately show "drop_bit 24 ack = 0" by simp
qed simp

lemma ack_first_byte: "hd (be32 ack) = 0 \<longleftrightarrow> drop_bit 24 ack = 0"
proof -
  have "drop_bit 24 ack = ucast (ucast (drop_bit 24 ack) :: byte)"
    by (rule bit_word_eqI) (auto simp: bit_simps dest: bit_imp_le_length)
  then have "drop_bit 24 ack = 0" if "(ucast (drop_bit 24 ack) :: byte) = 0" using that by simp
  then show ?thesis by (auto simp: be32_def)
qed

text \<open>
  \<open>readAck\<close>'s range check is the check of the error byte: an acknowledgement is above \<open>ChunkSize\<close> exactly when
  one of the bits of \<open>AckErrMask\<close> is set, that is, when its first byte on the wire is not zero.
\<close>

lemma ack_error_bits:
  "(ack > ChunkSize \<longleftrightarrow> ack AND AckErrMask \<noteq> 0) \<and> (ack > ChunkSize \<longleftrightarrow> hd (be32 ack) \<noteq> 0)"
  by (simp add: linorder_not_le [symmetric] ack_high_zero ack_mask_bits push_drop_zero ack_first_byte)

lemma error_ack_invalid: "c OR AckErrMask > ChunkSize"
proof -
  have "(c OR AckErrMask) AND AckErrMask = AckErrMask" by (rule bit_word_eqI) (auto simp: bit_simps)
  then have "(c OR AckErrMask) AND AckErrMask \<noteq> 0" by (simp add: AckErrMask_def)
  then have "drop_bit 24 (c OR AckErrMask) \<noteq> 0" by (metis ack_mask_bits push_drop_zero)
  then have "\<not> c OR AckErrMask \<le> ChunkSize" by (simp only: ack_high_zero not_False_eq_True)
  then show ?thesis by (simp only: linorder_not_le)
qed

section \<open>Messages\<close>

lemma v1_readAck_be32:
  assumes "rd_data r = be32 a @ d"
  shows "v1_readAck r = (Ret (a, if a > ChunkSize then Some ErrInvalidAck else None), r\<lparr>rd_data := d\<rparr>)"
  using assms by (simp add: v1_readAck_def io_ReadFull_def AckByteSize_def)

lemma v1_readAck_short:
  assumes "length (rd_data r) < 4"
  shows "\<exists>e. v1_readAck r = (Ret (0, Some (Wrap ''ReadFull() error: '' e [])), r\<lparr>rd_data := []\<rparr>)"
  using assms by (simp add: v1_readAck_def io_ReadFull_def AckByteSize_def)

lemma split_ack: "4 \<le> length b \<Longrightarrow> \<exists>a d. b = be32 a @ d"
  using uint32_exact [of "take 4 b"] by (metis append_take_drop_id length_take min.absorb2)

text \<open>
  Acknowledgements round trip: \<open>readAck\<close> returns a value without an error exactly when the stream starts with the
  four bytes \<open>writeAck\<close> produces for it and its error byte is clear, and it consumes just those bytes.
\<close>

lemma v1_readAck_exact:
  "v1_readAck r = (Ret (a, None), r') \<longleftrightarrow>
     a \<le> ChunkSize \<and> rd_data r = fst (writeAck bytes_Buffer [] a) @ rd_data r' \<and> r' = r\<lparr>rd_data := rd_data r'\<rparr>"
proof (cases "length (rd_data r) < 4")
  case True
  then show ?thesis using v1_readAck_short [OF True] by (auto simp: writeAck_def)
next
  case False
  then obtain b d where r: "rd_data r = be32 b @ d" using split_ack [of "rd_data r"] by auto
  show ?thesis
    unfolding v1_readAck_be32 [OF r] using r
    by (cases r; cases r') (auto simp: writeAck_def linorder_not_less split: if_splits)
qed

lemma v1_parseBinary_be32:
  "v1_parseBinary E (message (be32 a @ d)) s =
     (if a > ChunkSize then Ret (s, Some (Wrap ''readAck() error: '' ErrInvalidAck [])) else Ret (copyWS E (message d) s))"
  by (simp add: v1_parseBinary_def v1_readAck_be32 [where a = a and d = d] message_def)

lemma v1_parseBinary_cases:
  obtains (bad) e where "v1_parseBinary E r s = Ret (s, Some e)"
  | (copy) r' where "v1_parseBinary E r s = Ret (copyWS E r' s)"
proof (cases "length (rd_data r) < 4")
  case True
  from v1_readAck_short [OF this] bad show thesis by (auto simp: v1_parseBinary_def)
next
  case False
  then obtain a d where r: "rd_data r = be32 a @ d" using split_ack [of "rd_data r"] by auto
  show thesis using bad copy by (cases "a > ChunkSize") (auto simp: v1_parseBinary_def v1_readAck_be32 [OF r])
qed

lemma incCounter_bound: "v1_c (incCounter n s) \<le> ChunkSize"
  by (simp add: incCounter_def word_and_le1)

lemma copyWS_bound: "v1_c s \<le> ChunkSize \<Longrightarrow> v1_c (fst (copyWS E r s)) \<le> ChunkSize"
  by (simp add: copyWS_def Let_def incCounter_bound split: prod.splits option.splits)

lemma v1_runWS_iter_inv:
  assumes "v1_c s \<le> ChunkSize"
  shows "\<exists>s' err. v1_runWS_iter E nr s = Ret (s', err) \<and> v1_c s' \<le> ChunkSize"
proof (cases nr)
  case (Inr tr)
  obtain t r where tr: "tr = (t, r)" by fastforce
  show ?thesis
  proof (cases "t = BinaryMessage")
    case True
    show ?thesis
    proof (cases rule: v1_parseBinary_cases [of E r s])
      case (copy r')
      with True assms Inr tr copyWS_bound [OF assms, of E r'] show ?thesis
        by (auto simp: v1_runWS_iter_def prod_eq_iff intro!: exI [of _ "fst (copyWS E r' s)"])
    qed (use True assms Inr tr in \<open>auto simp: v1_runWS_iter_def\<close>)
  qed (use assms Inr tr in \<open>auto simp: v1_runWS_iter_def parseText_def split: prod.splits option.splits\<close>)
qed (use assms in \<open>auto simp: v1_runWS_iter_def\<close>)

text \<open>
  Whatever arrives on the WebSocket and however the connections fail, the v1 read loop never panics and the counter
  keeps its high byte clear, so the session never announces an error it does not have.
\<close>

lemma v1_runWS_counter_clean:
  assumes "v1_c s \<le> ChunkSize"
  shows "\<exists>s' err. v1_runWS is s = Ret (s', err) \<and> v1_c s' \<le> ChunkSize"
  using assms
proof (induction "is" arbitrary: s)
  case (Cons i "is")
  obtain E nr where i: "i = (E, nr)" by fastforce
  obtain s1 err where s1: "v1_runWS_iter E nr s = Ret (s1, err)" "v1_c s1 \<le> ChunkSize"
    using v1_runWS_iter_inv [OF Cons.prems] by blast
  show ?case using Cons.IH [OF s1(2)] s1 by (cases err) (simp_all add: i)
qed simp

section \<open>Whole runs\<close>

definition v1_deliver :: "v1 \<Rightarrow> bytes \<Rightarrow> v1" where
  "v1_deliver s d = fst (copyWS io_ok (message d) s)"

lemma copyWS_ok: "copyWS io_ok (message d) s = ((incCounter (length d) s)\<lparr>v1_ssh := v1_ssh s @ d\<rparr>, None)"
  by (simp add: copyWS_def Let_def incCounter_def)

lemma v1_deliver_eq: "v1_deliver s d = (incCounter (length d) s)\<lparr>v1_ssh := v1_ssh s @ d\<rparr>"
  by (simp add: v1_deliver_def copyWS_ok)

text \<open>The v1 instance of the contract \<open>byte_relay\<close>, with a 24-bit counter.\<close>

interpretation v1r: byte_relay v1_deliver "\<lambda>_. True" v1_ssh "\<lambda>s. unat (v1_c s)" "2 ^ 24"
proof
  fix d s
  show "v1_ssh (v1_deliver s d) = v1_ssh s @ d" by (simp add: v1_deliver_eq)
  have "v1_c (v1_deliver s d) = v1_c (incCounter (length d) s)" by (simp add: v1_deliver_eq)
  then show "unat (v1_c (v1_deliver s d)) = (unat (v1_c s) + length d) mod 2 ^ 24" by (simp only: incCounter_unat)
qed

lemma v1_runWS_data:
  "list_all (\<lambda>(a, d). a \<le> ChunkSize) ms \<Longrightarrow>
   v1_runWS (map (\<lambda>(a, d). (io_ok, Inr (BinaryMessage, message (be32 a @ d)))) ms) s =
     Ret (foldl v1_deliver s (map snd ms), None)"
proof (induction ms arbitrary: s)
  case (Cons m ms)
  then show ?case
    by (cases m) (simp add: v1_runWS_iter_def v1_parseBinary_be32 copyWS_ok v1_deliver_eq linorder_not_less [symmetric])
qed simp

text \<open>
  A v1 session writes exactly the payloads of the messages it receives to SSH, in order, whatever valid
  acknowledgements they carry, and its counter is the number of bytes received modulo \<open>2^24\<close>.
\<close>

lemma v1_runWS_delivers:
  assumes "list_all (\<lambda>(a, d). a \<le> ChunkSize) ms"
  shows "\<exists>s'. v1_runWS (map (\<lambda>(a, d). (io_ok, Inr (BinaryMessage, message (be32 a @ d)))) ms) (v1_New u) = Ret (s', None) \<and>
    v1_ssh s' = concat (map snd ms) \<and> unat (v1_c s') = length (concat (map snd ms)) mod 2 ^ 24"
proof -
  have all: "list_all (\<lambda>_. True) (map snd ms)" by (simp add: list_all_iff)
  show ?thesis
    using v1_runWS_data [OF assms, of "v1_New u"] v1r.delivered_all [OF all, of "v1_New u"]
      v1r.counter_all [OF all, of "v1_New u"]
    by (simp add: v1_New_def)
qed

section \<open>Two ends\<close>

lemma v1_bufio_transparent: "bufio_Read R bufio_NewReader (unat ChunkSize) = (R (unat ChunkSize), bufio_NewReader)"
  by (simp add: bufio_Read_direct ChunkSize_def)

lemma v1_runSSH_iter_ok:
  assumes "R (unat ChunkSize) = (d, None)"
  shows "v1_runSSH_iter io_ok R s = (s\<lparr>v1_ws := v1_ws s @ [be32 (v1_c s) @ d]\<rparr>, None)"
  using assms by (simp add: v1_runSSH_iter_def v1_bufio_transparent writeAck_def v1_copySSH_def)

text \<open>
  What one v1 end sends, the other accepts: a read of the SSH connection becomes one message, and the peer
  delivers exactly the bytes read, as long as the sender has not been marked as failed.
\<close>

lemma v1_peer_delivers:
  assumes "v1_c s \<le> ChunkSize" and "R (unat ChunkSize) = (d, None)"
  shows "\<exists>m. v1_runSSH_iter io_ok R s = (s\<lparr>v1_ws := v1_ws s @ [m]\<rparr>, None) \<and>
    v1_parseBinary io_ok (message m) p = Ret ((incCounter (length d) p)\<lparr>v1_ssh := v1_ssh p @ d\<rparr>, None)"
  using assms(1) v1_runSSH_iter_ok [of R d s, OF assms(2)] by (auto simp: v1_parseBinary_be32 copyWS_ok)

text \<open>
  The end of a v1 session reaches the peer: when \<^verbatim>\<open>Run\<close> can still write, its last message is an acknowledgement with
  the error bits set, which the peer's \<open>parseBinary\<close> rejects as an invalid acknowledgement without changing its
  session; \<^verbatim>\<open>Run\<close> itself returns the error that ended it.
\<close>

lemma v1_error_reaches_peer:
  "\<exists>m s'. v1_Run_fail io_ok err s = (s', err) \<and> v1_ws s' = v1_ws s @ [m] \<and> v1_ssh s' = v1_ssh s \<and>
    (\<exists>e. v1_parseBinary E (message m) p = Ret (p, Some e) \<and> errors_Is e ErrInvalidAck)"
  using v1_parseBinary_be32 [of E "v1_c s OR AckErrMask" "[]" p] error_ack_invalid [of "v1_c s"]
  by (simp add: v1_Run_fail_def writeAck_def)

end
