(* ===== verification/Duplex_V1.thy ===== *)
theory Duplex_V1
  imports Session_V1 Duplex_V4
begin

text \<open>
  Two corp-relay sessions back to back, like theory \<open>Duplex_V4\<close> for the other protocol, and with the end of a session: when the
  SSH connection of one end fails, \<^verbatim>\<open>Run\<close> sends an acknowledgement with the error bits set, at which the other end stops. A step is one
  turn of one loop, or what \<^verbatim>\<open>Run\<close> does after the first error, in any interleaving; an end whose loop has failed makes no further
  turns. (In the code the other loop goes on until \<^verbatim>\<open>Run\<close> has closed the session; the theory \<open>Writer_Race\<close> has what it can do until then.) The fields \<open>n1_in\<close> (the reads of the SSH connection so far) and \<open>n1_own\<close> (its own SSH connection has failed) only record what
  happened.
\<close>

section \<open>The network\<close>

record net1 =
  n1_end :: "Role \<Rightarrow> v1"
  n1_got :: "Role \<Rightarrow> nat"
  n1_in :: "Role \<Rightarrow> bytes list"
  n1_err :: "Role \<Rightarrow> go_error option"
  n1_own :: "Role \<Rightarrow> bool"
  n1_closed :: "Role \<Rightarrow> bool"

definition net1_init :: "(Role \<Rightarrow> uuid) \<Rightarrow> net1" where
  "net1_init u = \<lparr>n1_end = (\<lambda>r. v1_New (u r)), n1_got = (\<lambda>_. 0), n1_in = (\<lambda>_. []), n1_err = (\<lambda>_. None), n1_own = (\<lambda>_. False),
     n1_closed = (\<lambda>_. False)\<rparr>"

inductive net1_step :: "net1 \<Rightarrow> net1 \<Rightarrow> bool" where
  read: "\<lbrakk> n1_err n r = None; R (unat ChunkSize) = (d, None); v1_runSSH_iter io_ok R (n1_end n r) = (s', err) \<rbrakk> \<Longrightarrow>
    net1_step n (n\<lparr>n1_end := (n1_end n)(r := s'), n1_in := (n1_in n)(r := n1_in n r @ [d]), n1_err := (n1_err n)(r := err)\<rparr>)"
| ssh_fails: "\<lbrakk> n1_err n r = None; R (unat ChunkSize) = (d, Some e); v1_runSSH_iter io_ok R (n1_end n r) = (s', err) \<rbrakk> \<Longrightarrow>
    net1_step n (n\<lparr>n1_end := (n1_end n)(r := s'), n1_err := (n1_err n)(r := err), n1_own := (n1_own n)(r := True)\<rparr>)"
| recv: "\<lbrakk> n1_err n r = None; n1_got n r < length (v1_ws (n1_end n (peer r)));
      v1_runWS_iter io_ok (Inr (BinaryMessage, message (v1_ws (n1_end n (peer r)) ! n1_got n r))) (n1_end n r) = Ret (s', err) \<rbrakk> \<Longrightarrow>
    net1_step n (n\<lparr>n1_end := (n1_end n)(r := s'), n1_got := (n1_got n)(r := Suc (n1_got n r)), n1_err := (n1_err n)(r := err)\<rparr>)"
| close: "\<lbrakk> n1_err n r = Some e; \<not> n1_closed n r; v1_Run_fail io_ok e (n1_end n r) = (s', e') \<rbrakk> \<Longrightarrow>
    net1_step n (n\<lparr>n1_end := (n1_end n)(r := s'), n1_closed := (n1_closed n)(r := True)\<rparr>)"

inductive net1_reach :: "(Role \<Rightarrow> uuid) \<Rightarrow> net1 \<Rightarrow> bool" for u where
  start: "net1_reach u (net1_init u)"
| step: "net1_reach u n \<Longrightarrow> net1_step n n' \<Longrightarrow> net1_reach u n'"

section \<open>The invariant\<close>

definition good_msg :: "bytes \<Rightarrow> bool" where
  "good_msg m \<longleftrightarrow> (\<exists>a d. m = be32 a @ d \<and> a \<le> ChunkSize)"

text \<open>The messages of an end that carry data: all of them, but for the last one of a closed end.\<close>

definition data_sent :: "net1 \<Rightarrow> Role \<Rightarrow> bytes list" where
  "data_sent n r = (if n1_closed n r then butlast (v1_ws (n1_end n r)) else v1_ws (n1_end n r))"

definition end_inv :: "net1 \<Rightarrow> Role \<Rightarrow> bool" where
  "end_inv n r \<longleftrightarrow>
     list_all good_msg (data_sent n r) \<and> map (drop 4) (data_sent n r) = n1_in n r \<and>
     (n1_closed n r \<longrightarrow> n1_err n r \<noteq> None \<and> (\<exists>a. a > ChunkSize \<and> v1_ws (n1_end n r) = data_sent n r @ [be32 a])) \<and>
     (\<not> n1_closed n r \<longrightarrow> v1_c (n1_end n r) \<le> ChunkSize \<and> unat (v1_c (n1_end n r)) = length (v1_ssh (n1_end n r)) mod 2 ^ 24)"

definition dir1_inv :: "net1 \<Rightarrow> Role \<Rightarrow> bool" where
  "dir1_inv n r \<longleftrightarrow>
     n1_got n r \<le> length (v1_ws (n1_end n (peer r))) \<and>
     v1_ssh (n1_end n r) = concat (take (n1_got n r) (n1_in n (peer r))) \<and>
     (if n1_err n r = None then n1_got n r \<le> length (n1_in n (peer r))
      else n1_own n r \<or> n1_got n r = Suc (length (n1_in n (peer r))) \<and> errors_Is (the (n1_err n r)) ErrInvalidAck \<and> n1_own n (peer r))"

definition net1_inv :: "net1 \<Rightarrow> bool" where
  "net1_inv n \<longleftrightarrow> (\<forall>r. end_inv n r \<and> dir1_inv n r)"

lemma net1_inv_init: "net1_inv (net1_init u)"
  by (simp add: net1_inv_def end_inv_def dir1_inv_def net1_init_def data_sent_def v1_New_def)

lemma good_be32: "a \<le> ChunkSize \<Longrightarrow> good_msg (be32 a @ d)"
  by (auto simp: good_msg_def)

lemma drop_be32 [simp]: "drop 4 (be32 a @ d) = d" "drop 4 (be32 a) = []"
  by (simp_all add: be32_def)

lemma open_sent: "end_inv n r \<Longrightarrow> n1_err n r = None \<Longrightarrow> \<not> n1_closed n r \<and> length (v1_ws (n1_end n r)) = length (n1_in n r)"
  by (auto simp: end_inv_def data_sent_def dest: arg_cong [of _ _ length])

text \<open>What the next message of the peer is, and what receiving it does.\<close>

lemma recv_message [consumes 4, case_names data error]:
  assumes "end_inv n (peer r)" and "dir1_inv n r" and "n1_err n r = None" and "n1_got n r < length (v1_ws (n1_end n (peer r)))"
  obtains (data) a where "n1_got n r < length (n1_in n (peer r))" "a \<le> ChunkSize"
      "v1_ws (n1_end n (peer r)) ! n1_got n r = be32 a @ n1_in n (peer r) ! n1_got n r"
  | (error) a where "n1_got n r = length (n1_in n (peer r))" "a > ChunkSize" "v1_ws (n1_end n (peer r)) ! n1_got n r = be32 a @ []"
      "n1_err n (peer r) \<noteq> None"
proof -
  let ?k = "n1_got n r" and ?q = "peer r"
  have len: "length (data_sent n ?q) = length (n1_in n ?q)" using assms(1) by (auto simp: end_inv_def dest: arg_cong [of _ _ length])
  have k: "?k \<le> length (n1_in n ?q)" using assms(2,3) by (simp add: dir1_inv_def)
  have ws: "v1_ws (n1_end n ?q) = data_sent n ?q \<or> n1_err n ?q \<noteq> None \<and> (\<exists>a. a > ChunkSize \<and> v1_ws (n1_end n ?q) = data_sent n ?q @ [be32 a])"
    using assms(1) by (auto simp: end_inv_def data_sent_def)
  show thesis
  proof (cases "?k < length (n1_in n ?q)")
    case True
    with ws len have m: "v1_ws (n1_end n ?q) ! ?k = data_sent n ?q ! ?k" by (auto simp: nth_append)
    from assms(1) True len obtain a d where a: "data_sent n ?q ! ?k = be32 a @ d" "a \<le> ChunkSize"
      by (auto simp: end_inv_def list_all_length good_msg_def)
    have mp: "map (drop 4) (data_sent n ?q) = n1_in n ?q" using assms(1) by (simp add: end_inv_def)
    have "n1_in n ?q ! ?k = drop 4 (data_sent n ?q ! ?k)" unfolding mp [symmetric] using True len by simp
    with data True m a show thesis by simp
  next
    case False
    with k have eq: "?k = length (n1_in n ?q)" by simp
    with ws len assms(4) obtain a where "a > ChunkSize" "v1_ws (n1_end n ?q) = data_sent n ?q @ [be32 a]" "n1_err n ?q \<noteq> None" by auto
    with error eq len show thesis by (simp add: nth_append)
  qed
qed

text \<open>
  A step at \<open>r\<close> keeps the invariant if it keeps it for \<open>r\<close> itself and for the direction into its peer.
\<close>

lemma net1_invI:
  assumes "net1_inv n" and "end_inv n' r" and "dir1_inv n' r" and "dir1_inv n' (peer r)"
    and "n1_end n' (peer r) = n1_end n (peer r) \<and> n1_in n' (peer r) = n1_in n (peer r) \<and> n1_err n' (peer r) = n1_err n (peer r) \<and>
      n1_closed n' (peer r) = n1_closed n (peer r)"
  shows "net1_inv n'"
  unfolding net1_inv_def
proof
  fix q
  have "end_inv n (peer r)" using assms(1) unfolding net1_inv_def by blast
  then have "end_inv n' (peer r)" using assms(5) by (cases "n1_closed n (peer r)") (simp_all add: end_inv_def data_sent_def)
  with assms(2-4) show "end_inv n' q \<and> dir1_inv n' q" using role_cases [of q r] by auto
qed

lemma inv_read:
  assumes I: "net1_inv n" and e: "n1_err n r = None" and R: "R (unat ChunkSize) = (d, None)" and s: "v1_runSSH_iter io_ok R (n1_end n r) = (s', err)"
  shows "net1_inv (n\<lparr>n1_end := (n1_end n)(r := s'), n1_in := (n1_in n)(r := n1_in n r @ [d]), n1_err := (n1_err n)(r := err)\<rparr>)" (is "net1_inv ?n")
proof -
  have E: "end_inv n r" and D: "dir1_inv n r" and P: "dir1_inv n (peer r)" using I by (simp_all add: net1_inv_def)
  have s': "s' = (n1_end n r)\<lparr>v1_ws := v1_ws (n1_end n r) @ [be32 (v1_c (n1_end n r)) @ d]\<rparr>" "err = None"
    using s v1_runSSH_iter_ok [of R d, OF R] by simp_all
  note o = open_sent [OF E e]
  have "end_inv ?n r" using E o s' e good_be32 by (simp add: end_inv_def data_sent_def)
  moreover have "dir1_inv ?n r" using D s' e by (cases "n1_err n r") (simp_all add: dir1_inv_def)
  moreover have "dir1_inv ?n (peer r)" using P o s' by (auto simp: dir1_inv_def split: if_splits)
  ultimately show ?thesis by (rule net1_invI [OF I]) simp
qed

lemma inv_ssh_fails:
  assumes I: "net1_inv n" and e: "n1_err n r = None" and R: "R (unat ChunkSize) = (d, Some x)" and s: "v1_runSSH_iter io_ok R (n1_end n r) = (s', err)"
  shows "net1_inv (n\<lparr>n1_end := (n1_end n)(r := s'), n1_err := (n1_err n)(r := err), n1_own := (n1_own n)(r := True)\<rparr>)" (is "net1_inv ?n")
proof -
  have E: "end_inv n r" and D: "dir1_inv n r" and P: "dir1_inv n (peer r)" using I by (simp_all add: net1_inv_def)
  have s': "s' = n1_end n r" "err = Some x" using s R by (simp_all add: v1_runSSH_iter_def v1_bufio_transparent)
  note o = open_sent [OF E e]
  have "end_inv ?n r" using E o s' by (simp add: end_inv_def data_sent_def)
  moreover have "dir1_inv ?n r" using D s' by (cases "n1_err n r") (simp_all add: dir1_inv_def)
  moreover have "dir1_inv ?n (peer r)" using P o s' by (cases "n1_err n (peer r)") (auto simp: dir1_inv_def)
  ultimately show ?thesis by (rule net1_invI [OF I]) simp
qed

lemma inv_recv:
  assumes I: "net1_inv n" and e: "n1_err n r = None" and k: "n1_got n r < length (v1_ws (n1_end n (peer r)))"
    and s: "v1_runWS_iter io_ok (Inr (BinaryMessage, message (v1_ws (n1_end n (peer r)) ! n1_got n r))) (n1_end n r) = Ret (s', err)"
  shows "net1_inv (n\<lparr>n1_end := (n1_end n)(r := s'), n1_got := (n1_got n)(r := Suc (n1_got n r)), n1_err := (n1_err n)(r := err)\<rparr>)" (is "net1_inv ?n")
proof -
  have E: "end_inv n r" and D: "dir1_inv n r" and P: "dir1_inv n (peer r)" and Q: "end_inv n (peer r)" using I by (simp_all add: net1_inv_def)
  note o = open_sent [OF E e]
  have P': "dir1_inv ?n (peer r)" if "v1_ws s' = v1_ws (n1_end n r)" using P that by (cases "n1_err n (peer r)") (simp_all add: dir1_inv_def)
  from Q D e k show ?thesis
  proof (cases rule: recv_message)
    case (data a)
    let ?d = "n1_in n (peer r) ! n1_got n r"
    have s': "s' = v1_deliver (n1_end n r) ?d" "err = None"
      using s data(2,3) by (simp_all add: v1_runWS_iter_def v1_parseBinary_be32 copyWS_ok v1_deliver_eq linorder_not_less [symmetric])
    have f: "v1_ssh s' = v1_ssh (n1_end n r) @ ?d" "v1_ws s' = v1_ws (n1_end n r)" "v1_c s' \<le> ChunkSize"
      by (simp_all add: s' v1_deliver_eq incCounter_bound) (simp add: incCounter_def)
    have c: "unat (v1_c s') = length (v1_ssh s') mod 2 ^ 24"
      using E o v1r.counter_deliver [where s = "n1_end n r" and d = ?d] f(1) s'(1) by (simp add: end_inv_def mod_simps)
    have "end_inv ?n r" using E o f(2,3) c s'(2) by (simp add: end_inv_def data_sent_def)
    moreover have "dir1_inv ?n r" using D k data(1) f(1) s'(2) e by (simp add: dir1_inv_def take_Suc_conv_app_nth)
    ultimately show ?thesis using P' [OF f(2)] by (rule net1_invI [OF I]) simp
  next
    case (error a)
    have s': "s' = n1_end n r" "err = Some (Wrap ''readAck() error: '' ErrInvalidAck [])"
      using s error(2,3) v1_parseBinary_be32 [of io_ok a "[]"] by (simp_all add: v1_runWS_iter_def)
    have "end_inv ?n r" using E o s' by (simp add: end_inv_def data_sent_def)
    moreover have "n1_own n (peer r)" using P o error(4) by (auto simp: dir1_inv_def split: if_splits)
    then have "dir1_inv ?n r" using D k error(1) s' by (simp add: dir1_inv_def)
    moreover have "dir1_inv ?n (peer r)" by (rule P') (simp add: s')
    ultimately show ?thesis by (rule net1_invI [OF I]) simp
  qed
qed

lemma inv_close:
  assumes I: "net1_inv n" and e: "n1_err n r = Some x" and c: "\<not> n1_closed n r" and s: "v1_Run_fail io_ok x (n1_end n r) = (s', x')"
  shows "net1_inv (n\<lparr>n1_end := (n1_end n)(r := s'), n1_closed := (n1_closed n)(r := True)\<rparr>)" (is "net1_inv ?n")
proof -
  have E: "end_inv n r" and D: "dir1_inv n r" and P: "dir1_inv n (peer r)" using I by (simp_all add: net1_inv_def)
  let ?a = "v1_c (n1_end n r) OR AckErrMask"
  have s': "v1_ws s' = v1_ws (n1_end n r) @ [be32 ?a]" "v1_ssh s' = v1_ssh (n1_end n r)"
    using s by (auto simp: v1_Run_fail_def writeAck_def Let_def)
  have "end_inv ?n r" using E c e s' error_ack_invalid [of "v1_c (n1_end n r)"] by (auto simp: end_inv_def data_sent_def)
  moreover have "dir1_inv ?n r" using D s' by (cases "n1_err n r") (simp_all add: dir1_inv_def)
  moreover have "dir1_inv ?n (peer r)" using P s' by (cases "n1_err n (peer r)") (simp_all add: dir1_inv_def)
  ultimately show ?thesis by (rule net1_invI [OF I]) simp
qed

lemma net1_inv_step: "net1_step n n' \<Longrightarrow> net1_inv n \<Longrightarrow> net1_inv n'"
  by (induction rule: net1_step.induct) (rule inv_read inv_ssh_fails inv_recv inv_close; assumption)+

lemma net1_inv_reach: "net1_reach u n \<Longrightarrow> net1_inv n"
  by (induction rule: net1_reach.induct) (auto intro: net1_inv_init net1_inv_step)

section \<open>The properties of the pair\<close>



text \<open>From every state in which no SSH connection has failed, everything can be delivered.\<close>

lemma deliver_one:
  assumes I: "net1_inv n" and e: "n1_err n r = None" and k: "n1_got n r < length (n1_in n (peer r))"
  shows "\<exists>n'. net1_step n n' \<and> net1_inv n' \<and> n1_in n' = n1_in n \<and> n1_err n' = n1_err n \<and> n1_got n' = (n1_got n)(r := Suc (n1_got n r))"
proof -
  have D: "dir1_inv n r" and Q: "end_inv n (peer r)" using I by (simp_all add: net1_inv_def)
  have len: "length (n1_in n (peer r)) \<le> length (v1_ws (n1_end n (peer r)))"
  proof -
    have "map (drop 4) (data_sent n (peer r)) = n1_in n (peer r)" using Q by (simp add: end_inv_def)
    then have "length (n1_in n (peer r)) = length (data_sent n (peer r))" by (metis length_map)
    then show ?thesis by (simp add: data_sent_def)
  qed
  with k have l: "n1_got n r < length (v1_ws (n1_end n (peer r)))" by simp
  from Q D e l show ?thesis
  proof (cases rule: recv_message)
    case (data a)
    let ?s = "v1_deliver (n1_end n r) (n1_in n (peer r) ! n1_got n r)"
    have s: "v1_runWS_iter io_ok (Inr (BinaryMessage, message (v1_ws (n1_end n (peer r)) ! n1_got n r))) (n1_end n r) = Ret (?s, None)"
      using data(2,3) by (simp add: v1_runWS_iter_def v1_parseBinary_be32 copyWS_ok v1_deliver_eq linorder_not_less [symmetric])
    from net1_step.recv [OF e l s] inv_recv [OF I e l s] e show ?thesis by (auto simp: fun_upd_idem)
  qed (use k in simp)
qed

lemma deliver_all:
  assumes "net1_inv n" and "n1_err n = (\<lambda>_. None)"
  shows "\<exists>n'. net1_step\<^sup>*\<^sup>* n n' \<and> n1_in n' = n1_in n \<and> (\<forall>r. v1_ssh (n1_end n' r) = concat (n1_in n (peer r)))"
  using assms
proof (induction "length (n1_in n Client) - n1_got n Server + (length (n1_in n Server) - n1_got n Client)" arbitrary: n rule: less_induct)
  case less
  show ?case
  proof (cases "\<exists>r. n1_got n r < length (n1_in n (peer r))")
    case True
    then obtain r where k: "n1_got n r < length (n1_in n (peer r))" by blast
    from deliver_one [OF less.prems(1) _ k] less.prems(2) obtain n' where n': "net1_step n n'" "net1_inv n'" "n1_in n' = n1_in n"
      "n1_err n' = (\<lambda>_. None)" "n1_got n' = (n1_got n)(r := Suc (n1_got n r))" by auto
    have "length (n1_in n' Client) - n1_got n' Server + (length (n1_in n' Server) - n1_got n' Client) <
        length (n1_in n Client) - n1_got n Server + (length (n1_in n Server) - n1_got n Client)"
      using k by (cases r) (simp_all add: n'(3,5))
    from less.hyps [OF this n'(2,4)] obtain n'' where "net1_step\<^sup>*\<^sup>* n' n''" "n1_in n'' = n1_in n"
      "\<forall>r. v1_ssh (n1_end n'' r) = concat (n1_in n (peer r))" by (auto simp: n'(3))
    then show ?thesis using n'(1) by (meson converse_rtranclp_into_rtranclp)
  next
    case False
    then have "v1_ssh (n1_end n r) = concat (n1_in n (peer r))" for r
      using less.prems(1) by (auto simp: net1_inv_def dir1_inv_def not_less)
    then show ?thesis by blast
  qed
qed

text \<open>
  C13. The pair makes progress: from every reachable state in which neither end has failed, the two ends can reach, by consuming
  messages alone, a state in which everything that was read from SSH at either end has been written to SSH at the other.
\<close>

theorem v1_duplex_drains:
  assumes "net1_reach u n" and "n1_err n = (\<lambda>_. None)"
  shows "\<exists>n'. net1_step\<^sup>*\<^sup>* n n' \<and> n1_in n' = n1_in n \<and> (\<forall>r. v1_ssh (n1_end n' r) = concat (n1_in n (peer r)))"
  by (rule deliver_all [OF net1_inv_reach [OF assms(1)] assms(2)])

section \<open>A run\<close>

text \<open>The client sends one byte, then its SSH connection fails; the server writes the byte and learns of the end.\<close>

definition run1 :: net1 where
  "run1 = (net1_init (\<lambda>_. 3))\<lparr>n1_end := (n1_end (net1_init (\<lambda>_. 3)))(Client := (v1_New 3)\<lparr>v1_ws := [be32 0 @ [7]]\<rparr>),
     n1_in := (n1_in (net1_init (\<lambda>_. 3)))(Client := [[7]]), n1_err := (n1_err (net1_init (\<lambda>_. 3)))(Client := None)\<rparr>"

definition run2 :: net1 where
  "run2 = run1\<lparr>n1_end := (n1_end run1)(Client := n1_end run1 Client), n1_err := (n1_err run1)(Client := Some EOF), n1_own := (n1_own run1)(Client := True)\<rparr>"

definition run3 :: net1 where
  "run3 = run2\<lparr>n1_end := (n1_end run2)(Client := (v1_New 3)\<lparr>v1_c := AckErrMask, v1_ws := [be32 0 @ [7], be32 AckErrMask]\<rparr>),
     n1_closed := (n1_closed run2)(Client := True)\<rparr>"

definition run4 :: net1 where
  "run4 = run3\<lparr>n1_end := (n1_end run3)(Server := (v1_New 3)\<lparr>v1_c := 1, v1_ssh := [7]\<rparr>), n1_got := (n1_got run3)(Server := Suc 0),
     n1_err := (n1_err run3)(Server := None)\<rparr>"

definition run5 :: net1 where
  "run5 = run4\<lparr>n1_end := (n1_end run4)(Server := n1_end run4 Server), n1_got := (n1_got run4)(Server := Suc (Suc 0)),
     n1_err := (n1_err run4)(Server := Some (Wrap ''readAck() error: '' ErrInvalidAck []))\<rparr>"

lemmas run_defs = run1_def run2_def run3_def run4_def run5_def net1_init_def

lemma run1_reach: "net1_reach (\<lambda>_. 3) run1"
proof -
  have "v1_runSSH_iter io_ok (ready [7]) (n1_end (net1_init (\<lambda>_. 3)) Client) = ((v1_New 3)\<lparr>v1_ws := [be32 0 @ [7]]\<rparr>, None)"
    using v1_runSSH_iter_ok [of "ready [7]" "[7]"] by (simp add: ready_def net1_init_def v1_New_def ChunkSize_def)
  from net1_step.read [OF _ _ this, where d = "[7]"] have "net1_step (net1_init (\<lambda>_. 3)) run1"
    unfolding run1_def by (simp add: net1_init_def ready_def ChunkSize_def)
  then show ?thesis by (rule net1_reach.step [OF net1_reach.start])
qed

lemma run3_reach: "net1_reach (\<lambda>_. 3) run3"
proof -
  have "v1_runSSH_iter io_ok (\<lambda>_. ([], Some EOF)) (n1_end run1 Client) = (n1_end run1 Client, Some EOF)"
    by (simp add: v1_runSSH_iter_def v1_bufio_transparent)
  from net1_step.ssh_fails [OF _ _ this, where d = "[]" and e = EOF] have 1: "net1_step run1 run2"
    unfolding run2_def by (simp add: run1_def)
  have "v1_Run_fail io_ok EOF (n1_end run2 Client) = ((v1_New 3)\<lparr>v1_c := AckErrMask, v1_ws := [be32 0 @ [7], be32 AckErrMask]\<rparr>, EOF)"
    by (simp add: v1_Run_fail_def writeAck_def run_defs v1_New_def)
  from net1_step.close [OF _ _ this] have 2: "net1_step run2 run3"
    unfolding run3_def by (simp add: run_defs)
  show ?thesis by (rule net1_reach.step [OF net1_reach.step [OF run1_reach 1] 2])
qed

lemma run5_reach: "net1_reach (\<lambda>_. 3) run5"
proof -
  have "v1_runWS_iter io_ok (Inr (BinaryMessage, message (v1_ws (n1_end run3 (peer Server)) ! n1_got run3 Server))) (n1_end run3 Server) =
      Ret ((v1_New 3)\<lparr>v1_c := 1, v1_ssh := [7]\<rparr>, None)"
    using v1_parseBinary_be32 [of io_ok 0 "[7]"] by (simp add: v1_runWS_iter_def run_defs v1_New_def copyWS_ok incCounter_def ChunkSize_def)
  from net1_step.recv [OF _ _ this] have 1: "net1_step run3 run4" unfolding run4_def by (simp add: run_defs)
  have "v1_runWS_iter io_ok (Inr (BinaryMessage, message (v1_ws (n1_end run4 (peer Server)) ! n1_got run4 Server))) (n1_end run4 Server) =
      Ret (n1_end run4 Server, Some (Wrap ''readAck() error: '' ErrInvalidAck []))"
    using v1_parseBinary_be32 [of io_ok AckErrMask "[]"] by (simp add: v1_runWS_iter_def run_defs ChunkSize_def AckErrMask_def)
  from net1_step.recv [OF _ _ this] have 2: "net1_step run4 run5" unfolding run5_def by (simp add: run_defs)
  show ?thesis by (rule net1_reach.step [OF net1_reach.step [OF run3_reach 1] 2])
qed



theorem v1_duplex_drains_witness:
  "\<exists>n'. net1_step\<^sup>*\<^sup>* run1 n' \<and> n1_in n' = n1_in run1 \<and> (\<forall>r. v1_ssh (n1_end n' r) = concat (n1_in run1 (peer r)))"
  by (rule v1_duplex_drains [OF run1_reach]) (simp add: run_defs fun_eq_iff)

end
