(* ===== verification/Writer_Lock.thy ===== *)
theory Writer_Lock
  imports Session_V4
begin

text \<open>
  The writer's mutex of a corp-relay-v4 session, at the grain at which the two goroutines of \<^verbatim>\<open>Run\<close> really interleave: taking the mutex, asking
  for a message writer, each \<^verbatim>\<open>Write\<close> on it, closing it and releasing the mutex are steps of their own
  (\<^verbatim>\<open>wsWriter\<close>, \<^verbatim>\<open>binWrite\<close> and the cancel function of \<^verbatim>\<open>src/session/corprelayv4/corprelayv4.go\<close>). The theory \<open>Session_V4\<close> has the same
  code as functions that run a whole turn at once; here it is shown that every fine interleaving is some sequence of such turns, so
  that the theories on two sessions may take a turn as one step. \<open>turn\<close> is what one turn of a loop works on: what its connections
  answer and what it has read.
\<close>

section \<open>Turns\<close>

datatype goroutine = RunSSH | RunWS

datatype turn =
    Connect io_env
  | Read io_env io_reader
  | Receive io_env "go_error + nat \<times> reader"

fun turn_env :: "turn \<Rightarrow> io_env" where
  "turn_env (Connect E) = E"
| "turn_env (Read E R) = E"
| "turn_env (Receive E nr) = E"

fun turn_by :: "turn \<Rightarrow> goroutine" where
  "turn_by (Receive E nr) = RunWS"
| "turn_by _ = RunSSH"

text \<open>
  The part of a turn of \<^verbatim>\<open>runWS\<close> before \<^verbatim>\<open>sendAck\<close>: the session once the payload of a DATA message has been written to SSH; \<open>None\<close> if the
  turn sends no acknowledgement.
\<close>

definition ack_due :: "io_env \<Rightarrow> (go_error + nat \<times> reader) \<Rightarrow> v4 \<Rightarrow> v4 option" where
  "ack_due E nr s =
     (case nr of
        Inl _ \<Rightarrow> None
      | Inr (t, r) \<Rightarrow>
          if t \<noteq> BinaryMessage then None
          else case buffer_ReadFrom r of
            (_, Some _) \<Rightarrow> None
          | (b, None) \<Rightarrow>
              (case Unmarshal b of
                 Ret (Some (Data d), None) \<Rightarrow> (case readData E d s of (s1, None) \<Rightarrow> Some s1 | (_, Some _) \<Rightarrow> None)
               | _ \<Rightarrow> None))"

text \<open>The command that a turn makes once it has the writer.\<close>

fun turn_command :: "uuid_lib \<Rightarrow> turn \<Rightarrow> v4 \<Rightarrow> command \<times> go_error option" where
  "turn_command U (Connect E) s = NewConnectSuccess (fst (uuid_MarshalText U (v4_sid s)))"
| "turn_command U (Read E R) s = NewData (fst (fst (bufio_Read R bufio_NewReader MaxArrayLen)))"
| "turn_command U (Receive E nr) s = (NewAck (v4_rCount s), None)"

text \<open>A command is written by one call of \<^verbatim>\<open>w.Write\<close> for each of its parts.\<close>

fun pieces :: "command \<Rightarrow> bytes list" where
  "pieces (ConnectSuccess cs) = map binval_bytes [BinTag TagConnectSuccess, BinU32 (of_nat (length cs))] @ [cs]"
| "pieces (ReconnectSuccess a) = map binval_bytes [BinTag TagReconnectSuccess, BinU64 a]"
| "pieces (Data d) = map binval_bytes [BinTag TagData, BinU32 (of_nat (length d))] @ [d]"
| "pieces (Ack a) = map binval_bytes [BinTag TagAck, BinU64 a]"

fun write_pieces :: "io_writer \<Rightarrow> bytes \<Rightarrow> bytes list \<Rightarrow> bytes \<times> go_error option" where
  "write_pieces W out [] = (out, None)"
| "write_pieces W out (p # ps) =
     (case io_Write W out p of
        (out', Some err) \<Rightarrow> (out', Some err)
      | (out', None) \<Rightarrow> write_pieces W out' ps)"

lemma binWrite_pieces: "binWrite W out vs = write_pieces W out (map binval_bytes vs)"
  by (induction vs arbitrary: out) (simp_all split: prod.split option.split)

lemma write_pieces_append:
  "write_pieces W out (ps @ qs) = (case write_pieces W out ps of (out', Some e) \<Rightarrow> (out', Some e) | (out', None) \<Rightarrow> write_pieces W out' qs)"
  by (induction ps arbitrary: out) (simp_all split: prod.split option.split)

lemma command_Write_pieces: "command_Write c W out = write_pieces W out (pieces c)"
proof -
  have one: "write_pieces W out [p] = io_Write W out p" for out p by (simp split: prod.split option.split)
  show ?thesis
    by (cases c)
      (simp_all only: command_Write.simps pieces.simps ConnectSuccess_Write_def ReconnectSuccess_Write_def Data_Write_def Ack_Write_def
        binWrite_pieces write_pieces_append one)
qed

section \<open>The two goroutines, step by step\<close>

text \<open>
  Where a goroutine is: between turns, at \<^verbatim>\<open>s.mu.Lock()\<close>, at \<^verbatim>\<open>s.wFunc(t)\<close>, at the next \<^verbatim>\<open>Write\<close>, at \<^verbatim>\<open>w.Close()\<close>, at \<^verbatim>\<open>s.mu.Unlock()\<close>,
  or back from its loop with an error.
\<close>

datatype pc =
    Free
  | Locking turn
  | Opening turn
  | Writing turn "bytes list"
  | Closing turn "go_error option"
  | Unlocking "go_error option"
  | Returned go_error

fun after :: "go_error option \<Rightarrow> pc" where
  "after None = Free"
| "after (Some e) = Returned e"

record fine =
  f_s :: v4
  f_pc :: "goroutine \<Rightarrow> pc"
  f_conn :: bool

definition fine_init :: "uuid \<Rightarrow> Role \<Rightarrow> fine" where
  "fine_init u r = \<lparr>f_s = v4_New u r, f_pc = (\<lambda>_. Free), f_conn = False\<rparr>"

inductive fine_step :: "uuid_lib \<Rightarrow> goroutine \<Rightarrow> fine \<Rightarrow> fine \<Rightarrow> bool" for U where
  connect: "\<lbrakk> f_pc f RunSSH = Free; v4_role (f_s f) = Server; \<not> f_conn f; uuid_MarshalText U (v4_sid (f_s f)) = (sid, None) \<rbrakk> \<Longrightarrow>
    fine_step U RunSSH f (f\<lparr>f_pc := (f_pc f)(RunSSH := Locking (Connect E)), f_conn := True\<rparr>)"
| connect_fails: "\<lbrakk> f_pc f RunSSH = Free; v4_role (f_s f) = Server; \<not> f_conn f; uuid_MarshalText U (v4_sid (f_s f)) = (sid, Some e) \<rbrakk> \<Longrightarrow>
    fine_step U RunSSH f (f\<lparr>f_pc := (f_pc f)(RunSSH := Returned e), f_conn := True\<rparr>)"
| read: "\<lbrakk> f_pc f RunSSH = Free; v4_role (f_s f) = Server \<Longrightarrow> f_conn f; fst (bufio_Read R bufio_NewReader MaxArrayLen) = (d, None) \<rbrakk> \<Longrightarrow>
    fine_step U RunSSH f (f\<lparr>f_pc := (f_pc f)(RunSSH := Locking (Read E R))\<rparr>)"
| read_fails: "\<lbrakk> f_pc f RunSSH = Free; v4_role (f_s f) = Server \<Longrightarrow> f_conn f; fst (bufio_Read R bufio_NewReader MaxArrayLen) = (d, Some e) \<rbrakk> \<Longrightarrow>
    fine_step U RunSSH f (f\<lparr>f_pc := (f_pc f)(RunSSH := Returned e)\<rparr>)"
| receive_data: "\<lbrakk> f_pc f RunWS = Free; ack_due E nr (f_s f) = Some s' \<rbrakk> \<Longrightarrow>
    fine_step U RunWS f (f\<lparr>f_s := s', f_pc := (f_pc f)(RunWS := Locking (Receive E nr))\<rparr>)"
| receive_other: "\<lbrakk> f_pc f RunWS = Free; ack_due E nr (f_s f) = None; runWS_iter U E nr (f_s f) = Ret (s', err) \<rbrakk> \<Longrightarrow>
    fine_step U RunWS f (f\<lparr>f_s := s', f_pc := (f_pc f)(RunWS := after err)\<rparr>)"
| lock: "\<lbrakk> f_pc f g = Locking t; \<not> v4_mu (f_s f) \<rbrakk> \<Longrightarrow>
    fine_step U g f (f\<lparr>f_s := (f_s f)\<lparr>v4_mu := True\<rparr>, f_pc := (f_pc f)(g := Opening t)\<rparr>)"
| refused: "\<lbrakk> f_pc f g = Opening t; ws_NextWriter (turn_env t) BinaryMessage = Some e \<rbrakk> \<Longrightarrow>
    fine_step U g f (f\<lparr>f_pc := (f_pc f)(g := Unlocking (Some (Wrap ''wFunc() error: '' e [])))\<rparr>)"
| invalid: "\<lbrakk> f_pc f g = Opening t; ws_NextWriter (turn_env t) BinaryMessage = None; turn_command U t (f_s f) = (c, Some e) \<rbrakk> \<Longrightarrow>
    fine_step U g f (f\<lparr>f_s := (f_s f)\<lparr>v4_cur := []\<rparr>, f_pc := (f_pc f)(g := Closing t (Some e))\<rparr>)"
| opened: "\<lbrakk> f_pc f g = Opening t; ws_NextWriter (turn_env t) BinaryMessage = None; turn_command U t (f_s f) = (c, None) \<rbrakk> \<Longrightarrow>
    fine_step U g f (f\<lparr>f_s := (f_s f)\<lparr>v4_cur := []\<rparr>, f_pc := (f_pc f)(g := Writing t (pieces c))\<rparr>)"
| wrote: "\<lbrakk> f_pc f g = Writing t (p # ps); io_Write (ws_Write (turn_env t)) (v4_cur (f_s f)) p = (m, None) \<rbrakk> \<Longrightarrow>
    fine_step U g f (f\<lparr>f_s := (f_s f)\<lparr>v4_cur := m\<rparr>, f_pc := (f_pc f)(g := Writing t ps)\<rparr>)"
| write_fails: "\<lbrakk> f_pc f g = Writing t (p # ps); io_Write (ws_Write (turn_env t)) (v4_cur (f_s f)) p = (m, Some e) \<rbrakk> \<Longrightarrow>
    fine_step U g f (f\<lparr>f_s := (f_s f)\<lparr>v4_cur := m\<rparr>, f_pc := (f_pc f)(g := Closing t (Some e))\<rparr>)"
| written: "f_pc f g = Writing t [] \<Longrightarrow> fine_step U g f (f\<lparr>f_pc := (f_pc f)(g := Closing t None)\<rparr>)"
| close: "f_pc f g = Closing t err \<Longrightarrow>
    fine_step U g f (f\<lparr>f_s := (f_s f)\<lparr>v4_ws := v4_ws (f_s f) @ [v4_cur (f_s f)], v4_cur := []\<rparr>, f_pc := (f_pc f)(g := Unlocking err)\<rparr>)"
| unlock: "f_pc f g = Unlocking err \<Longrightarrow>
    fine_step U g f (f\<lparr>f_s := (f_s f)\<lparr>v4_mu := False\<rparr>, f_pc := (f_pc f)(g := after err)\<rparr>)"

inductive fine_reach :: "uuid_lib \<Rightarrow> uuid \<Rightarrow> Role \<Rightarrow> fine \<Rightarrow> bool" for U u r where
  start: "fine_reach U u r (fine_init u r)"
| step: "fine_reach U u r f \<Longrightarrow> fine_step U g f f' \<Longrightarrow> fine_reach U u r f'"

section \<open>The same session, turn by turn\<close>

record turns =
  t_s :: v4
  t_err :: "goroutine \<Rightarrow> go_error option"
  t_conn :: bool

definition turns_init :: "uuid \<Rightarrow> Role \<Rightarrow> turns" where
  "turns_init u r = \<lparr>t_s = v4_New u r, t_err = (\<lambda>_. None), t_conn = False\<rparr>"

inductive turn_step :: "uuid_lib \<Rightarrow> turns \<Rightarrow> turns \<Rightarrow> bool" for U where
  connect: "\<lbrakk> t_err a RunSSH = None; v4_role (t_s a) = Server; \<not> t_conn a; establishConn U E 0 (t_s a) = (s', err) \<rbrakk> \<Longrightarrow>
    turn_step U a (a\<lparr>t_s := s', t_err := (t_err a)(RunSSH := err), t_conn := True\<rparr>)"
| read: "\<lbrakk> t_err a RunSSH = None; v4_role (t_s a) = Server \<Longrightarrow> t_conn a; runSSH_iter E R (t_s a) = (s', err) \<rbrakk> \<Longrightarrow>
    turn_step U a (a\<lparr>t_s := s', t_err := (t_err a)(RunSSH := err)\<rparr>)"
| recv: "\<lbrakk> t_err a RunWS = None; runWS_iter U E nr (t_s a) = Ret (s', err) \<rbrakk> \<Longrightarrow>
    turn_step U a (a\<lparr>t_s := s', t_err := (t_err a)(RunWS := err)\<rparr>)"

inductive turn_reach :: "uuid_lib \<Rightarrow> uuid \<Rightarrow> Role \<Rightarrow> turns \<Rightarrow> bool" for U u r where
  start: "turn_reach U u r (turns_init u r)"
| step: "turn_reach U u r a \<Longrightarrow> turn_step U a a' \<Longrightarrow> turn_reach U u r a'"

section \<open>A turn in one step\<close>

definition turn_message :: "uuid_lib \<Rightarrow> turn \<Rightarrow> v4 \<Rightarrow> bytes \<times> go_error option" where
  "turn_message U t s =
     (case turn_command U t s of
        (_, Some e) \<Rightarrow> ([], Some e)
      | (c, None) \<Rightarrow> write_pieces (ws_Write (turn_env t)) [] (pieces c))"

definition turn_send :: "uuid_lib \<Rightarrow> turn \<Rightarrow> v4 \<Rightarrow> v4 \<times> go_error option" where
  "turn_send U t s =
     (case ws_NextWriter (turn_env t) BinaryMessage of
        Some e \<Rightarrow> (s\<lparr>v4_mu := False\<rparr>, Some (Wrap ''wFunc() error: '' e []))
      | None \<Rightarrow> (case turn_message U t s of (m, err) \<Rightarrow> (s\<lparr>v4_mu := False, v4_ws := v4_ws s @ [m], v4_cur := []\<rparr>, err)))"

lemmas turn_defs = turn_send_def turn_message_def v4_send_defs command_Write_pieces

lemma establishConn_turn:
  "uuid_MarshalText U (v4_sid s) = (sid, None) \<Longrightarrow> establishConn U E 0 s = turn_send U (Connect E) s"
  by (auto simp: turn_defs split: option.splits prod.splits)

lemma runSSH_iter_turn:
  "fst (bufio_Read R bufio_NewReader MaxArrayLen) = (d, None) \<Longrightarrow> runSSH_iter E R s = turn_send U (Read E R) s"
  by (auto simp: runSSH_iter_def turn_defs split: option.splits prod.splits)

lemma ack_dueE:
  assumes "ack_due E nr s = Some s1"
  obtains r b d where "nr = Inr (BinaryMessage, r)" "buffer_ReadFrom r = (b, None)" "Unmarshal b = Ret (Some (Data d), None)"
    "readData E d s = (s1, None)"
  using assms by (auto simp: ack_due_def split: sum.splits prod.splits if_splits option.splits go.splits command.splits)

lemma runWS_iter_turn: "ack_due E nr s = Some s1 \<Longrightarrow> runWS_iter U E nr s = Ret (turn_send U (Receive E nr) s1)"
  by (erule ack_dueE) (auto simp: runWS_iter_def v4_parseBinary_def recvCmd_def turn_defs split: option.splits prod.splits)

section \<open>What a goroutine leaves alone\<close>

lemma readData_frame:
  "readData E d (s\<lparr>v4_mu := m, v4_ws := w, v4_cur := c\<rparr>) = (case readData E d s of (s1, err) \<Rightarrow> (s1\<lparr>v4_mu := m, v4_ws := w, v4_cur := c\<rparr>, err))"
  by (simp add: readData_def split: prod.split)

lemma readData_keeps: "readData E d s = (s1, err) \<Longrightarrow> s1 = s\<lparr>v4_rCount := v4_rCount s1, v4_ssh := v4_ssh s1\<rparr>"
  by (auto simp: readData_def split: prod.splits)

lemma ack_due_frame:
  "ack_due E nr (s\<lparr>v4_mu := m, v4_ws := w, v4_cur := c\<rparr>) = map_option (\<lambda>s1. s1\<lparr>v4_mu := m, v4_ws := w, v4_cur := c\<rparr>) (ack_due E nr s)"
  by (simp add: ack_due_def readData_frame split: sum.split prod.split option.split go.split command.split)

lemma ack_due_keeps: "ack_due E nr s = Some s1 \<Longrightarrow> s1 = s\<lparr>v4_rCount := v4_rCount s1, v4_ssh := v4_ssh s1\<rparr>"
  by (erule ack_dueE) (rule readData_keeps)

text \<open>A turn of \<^verbatim>\<open>runWS\<close> that sends nothing does not look at the writer, and does not touch it.\<close>

lemma recvCmd_silent:
  assumes "\<And>d. Unmarshal b = Ret (Some (Data d), None) \<Longrightarrow> snd (readData E d s) \<noteq> None" and "recvCmd U E b s = Ret (s', err)"
  shows "recvCmd U E b (s\<lparr>v4_mu := m, v4_ws := w, v4_cur := c\<rparr>) = Ret (s'\<lparr>v4_mu := m, v4_ws := w, v4_cur := c\<rparr>, err) \<and>
    v4_mu s' = v4_mu s \<and> v4_ws s' = v4_ws s \<and> v4_cur s' = v4_cur s \<and> v4_role s' = v4_role s \<and> (v4_role s = Server \<longrightarrow> v4_sid s' = v4_sid s)"
proof -
  obtain co eo where u: "Unmarshal b = Ret (co, eo)" using Unmarshal_returns by blast
  show ?thesis
  proof (cases eo)
    case (Some e)
    with u assms(2) show ?thesis by (auto simp: recvCmd_def)
  next
    case None
    with u assms(2) obtain cmd where co: "co = Some cmd" by (cases co) (auto simp: recvCmd_def)
    show ?thesis
    proof (cases cmd)
      case (ConnectSuccess cs)
      with u None co assms(2) show ?thesis by (auto simp: recvCmd_def Let_def split: if_splits prod.splits option.splits)
    next
      case (ReconnectSuccess x)
      with u None co assms(2) show ?thesis by (auto simp: recvCmd_def)
    next
      case (Data d)
      with u None co assms(1) obtain s1 e where r: "readData E d s = (s1, Some e)" by (cases "readData E d s") auto
      with u None co Data assms(2) have "s' = s1" "err = Some e" by (simp_all add: recvCmd_def)
      moreover have "v4_mu s1 = v4_mu s \<and> v4_ws s1 = v4_ws s \<and> v4_cur s1 = v4_cur s \<and> v4_role s1 = v4_role s \<and> v4_sid s1 = v4_sid s"
        using r by (auto simp: readData_def split: prod.splits)
      ultimately show ?thesis using u None co Data r by (simp add: recvCmd_def readData_frame)
    next
      case (Ack x)
      with u None co assms(2) show ?thesis by (auto simp: recvCmd_def readAck_eq split: if_splits)
    qed
  qed
qed

lemma runWS_iter_silent:
  assumes "ack_due E nr s = None" and "runWS_iter U E nr s = Ret (s', err)"
  shows "runWS_iter U E nr (s\<lparr>v4_mu := m, v4_ws := w, v4_cur := c\<rparr>) = Ret (s'\<lparr>v4_mu := m, v4_ws := w, v4_cur := c\<rparr>, err) \<and>
    v4_mu s' = v4_mu s \<and> v4_ws s' = v4_ws s \<and> v4_cur s' = v4_cur s \<and> v4_role s' = v4_role s \<and> (v4_role s = Server \<longrightarrow> v4_sid s' = v4_sid s)"
proof (cases nr)
  case (Inl e)
  with assms show ?thesis by (auto simp: runWS_iter_def)
next
  case (Inr tr)
  obtain t r where tr: "tr = (t, r)" by fastforce
  obtain b e where b: "buffer_ReadFrom r = (b, e)" by fastforce
  show ?thesis
  proof (cases "t = BinaryMessage \<and> e = None")
    case True
    have "snd (readData E d s) \<noteq> None" if "Unmarshal b = Ret (Some (Data d), None)" for d
      using that assms(1) Inr tr b True by (auto simp: ack_due_def split: prod.splits option.splits)
    then show ?thesis
      using recvCmd_silent [where b = b and E = E and s = s and m = m and w = w and c = c] assms(2) Inr tr b True by (simp add: runWS_iter_def v4_parseBinary_def)
  qed (use assms Inr tr b in \<open>auto simp: runWS_iter_def v4_parseBinary_def\<close>)
qed

section \<open>Mutual exclusion\<close>

fun pending :: "pc \<Rightarrow> turn option" where
  "pending (Locking t) = Some t"
| "pending (Opening t) = Some t"
| "pending (Writing t ps) = Some t"
| "pending (Closing t err) = Some t"
| "pending _ = None"

fun holding :: "pc \<Rightarrow> bool" where
  "holding (Opening t) = True"
| "holding (Writing t ps) = True"
| "holding (Closing t err) = True"
| "holding (Unlocking err) = True"
| "holding _ = False"

fun has_writer :: "pc \<Rightarrow> bool" where
  "has_writer (Writing t ps) = True"
| "has_writer (Closing t err) = True"
| "has_writer _ = False"

definition lock_ok :: "fine \<Rightarrow> bool" where
  "lock_ok f \<longleftrightarrow>
     (v4_mu (f_s f) \<longleftrightarrow> holding (f_pc f RunSSH) \<or> holding (f_pc f RunWS)) \<and> \<not> (holding (f_pc f RunSSH) \<and> holding (f_pc f RunWS)) \<and>
     (v4_cur (f_s f) \<noteq> [] \<longrightarrow> has_writer (f_pc f RunSSH) \<or> has_writer (f_pc f RunWS))"

lemma has_writer_holding: "has_writer p \<Longrightarrow> holding p"
  by (cases p) simp_all

lemma after_simps [simp]: "\<not> holding (after e)" "\<not> has_writer (after e)" "pending (after e) = None"
  by (cases e; simp)+

lemma ack_due_lock: "ack_due E nr s = Some s1 \<Longrightarrow> v4_mu s1 = v4_mu s \<and> v4_cur s1 = v4_cur s"
  using ack_due_keeps [of E nr s s1] by (metis v4.surjective v4.update_convs v4.select_convs)

lemma goroutine_cases: "g = RunSSH \<or> g = RunWS"
  by (cases g) simp_all

lemma lock_step: "fine_step U g f f' \<Longrightarrow> lock_ok f \<Longrightarrow> lock_ok f'"
proof (induction rule: fine_step.induct)
  case (receive_data f E nr s')
  then show ?case using ack_due_lock [OF receive_data(2)] by (simp add: lock_ok_def)
next
  case (receive_other f E nr s' err)
  then show ?case using runWS_iter_silent [OF receive_other(2,3)] by (simp add: lock_ok_def)
next
  case (lock f g t)
  then show ?case using has_writer_holding by (cases g) (auto simp: lock_ok_def)
next
  case (opened f g t c)
  then show ?case by (cases g) (auto simp: lock_ok_def)
next
  case (unlock f g err)
  then show ?case using has_writer_holding by (cases g) (auto simp: lock_ok_def)
qed (auto simp: lock_ok_def; use goroutine_cases in metis)+

lemma lock_ok_init: "lock_ok (fine_init u r)"
  by (simp add: fine_init_def lock_ok_def v4_New_def)

lemma lock_ok_reach: "fine_reach U u r f \<Longrightarrow> lock_ok f"
  by (induction rule: fine_reach.induct) (auto intro: lock_step lock_ok_init)

section \<open>Every interleaving is a sequence of turns\<close>

fun pc_err :: "pc \<Rightarrow> go_error option" where
  "pc_err (Unlocking err) = err"
| "pc_err (Returned e) = Some e"
| "pc_err _ = None"

text \<open>What the session becomes by the part of \<^verbatim>\<open>runWS\<close>'s pending turn that comes before the lock.\<close>

fun rx :: "turn option \<Rightarrow> v4 \<Rightarrow> v4 option" where
  "rx (Some (Receive E nr)) s = ack_due E nr s"
| "rx (Some _) s = None"
| "rx None s = Some s"

fun tx_ok :: "uuid_lib \<Rightarrow> turn option \<Rightarrow> bool \<Rightarrow> turns \<Rightarrow> bool" where
  "tx_ok U None conn a \<longleftrightarrow> conn = t_conn a"
| "tx_ok U (Some (Connect E)) conn a \<longleftrightarrow> conn \<and> \<not> t_conn a \<and> v4_role (t_s a) = Server \<and> snd (uuid_MarshalText U (v4_sid (t_s a))) = None"
| "tx_ok U (Some (Read E R)) conn a \<longleftrightarrow>
     conn = t_conn a \<and> (v4_role (t_s a) = Server \<longrightarrow> t_conn a) \<and> snd (fst (bufio_Read R bufio_NewReader MaxArrayLen)) = None"
| "tx_ok U (Some (Receive E nr)) conn a \<longleftrightarrow> False"

fun writing_ok :: "uuid_lib \<Rightarrow> v4 \<Rightarrow> pc \<Rightarrow> bool" where
  "writing_ok U s (Writing t ps) \<longleftrightarrow>
     ws_NextWriter (turn_env t) BinaryMessage = None \<and> write_pieces (ws_Write (turn_env t)) (v4_cur s) ps = turn_message U t s"
| "writing_ok U s (Closing t err) \<longleftrightarrow> ws_NextWriter (turn_env t) BinaryMessage = None \<and> turn_message U t s = (v4_cur s, err)"
| "writing_ok U s _ \<longleftrightarrow> True"

definition same_but_writer :: "v4 \<Rightarrow> v4 \<Rightarrow> bool" where
  "same_but_writer s s1 \<longleftrightarrow> s = s1\<lparr>v4_mu := v4_mu s, v4_cur := v4_cur s\<rparr>"

lemma same_but_writer_iff:
  "same_but_writer s t \<longleftrightarrow> v4_sid s = v4_sid t \<and> v4_role s = v4_role t \<and> v4_rCount s = v4_rCount t \<and> v4_wCount s = v4_wCount t \<and>
     v4_ssh s = v4_ssh t \<and> v4_ws s = v4_ws t"
  by (cases s; cases t) (auto simp: same_but_writer_def)

text \<open>
  The relation between the two: turn by turn, a session has done what the goroutines have finished, and a goroutine's turn counts as
  done when its message is closed or its writer refused.
\<close>

definition sim :: "uuid_lib \<Rightarrow> fine \<Rightarrow> turns \<Rightarrow> bool" where
  "sim U f a \<longleftrightarrow>
     (\<exists>s1. rx (pending (f_pc f RunWS)) (t_s a) = Some s1 \<and> same_but_writer (f_s f) s1) \<and>
     \<not> v4_mu (t_s a) \<and> v4_cur (t_s a) = [] \<and> tx_ok U (pending (f_pc f RunSSH)) (f_conn f) a \<and>
     (\<forall>g. t_err a g = pc_err (f_pc f g) \<and> writing_ok U (f_s f) (f_pc f g))"

lemma rx_keeps: "rx p s = Some s1 \<Longrightarrow> s1 = s\<lparr>v4_rCount := v4_rCount s1, v4_ssh := v4_ssh s1\<rparr>"
  by (cases "(p, s)" rule: rx.cases) (auto dest: ack_due_keeps)

lemma simD:
  assumes "sim U f a"
  obtains s1 where "rx (pending (f_pc f RunWS)) (t_s a) = Some s1" "same_but_writer (f_s f) s1"
    "v4_sid s1 = v4_sid (t_s a)" "v4_role s1 = v4_role (t_s a)" "v4_ws s1 = v4_ws (t_s a)" "v4_mu s1 = v4_mu (t_s a)" "v4_cur s1 = v4_cur (t_s a)"
    "v4_sid (f_s f) = v4_sid (t_s a)" "v4_role (f_s f) = v4_role (t_s a)" "v4_ws (f_s f) = v4_ws (t_s a)" "v4_rCount (f_s f) = v4_rCount s1"
proof -
  from assms obtain s1 where r: "rx (pending (f_pc f RunWS)) (t_s a) = Some s1" and b: "same_but_writer (f_s f) s1"
    by (auto simp: sim_def)
  from rx_keeps [OF r] have k: "v4_sid s1 = v4_sid (t_s a)" "v4_role s1 = v4_role (t_s a)" "v4_ws s1 = v4_ws (t_s a)" "v4_mu s1 = v4_mu (t_s a)"
    "v4_cur s1 = v4_cur (t_s a)"
    by (cases s1; cases "t_s a"; simp)+
  with b show thesis using that [OF r b k] by (simp add: same_but_writer_iff)
qed

lemma sim_eq: "sim U f a \<Longrightarrow> v4_sid (f_s f) = v4_sid (t_s a) \<and> v4_role (f_s f) = v4_role (t_s a) \<and> v4_ws (f_s f) = v4_ws (t_s a)"
  by (erule simD) blast

lemma turn_message_cong:
  "v4_sid s = v4_sid s' \<Longrightarrow> v4_rCount s = v4_rCount s' \<or> turn_by t = RunSSH \<Longrightarrow> turn_message U t s = turn_message U t s'"
  by (cases t) (auto simp: turn_message_def)

lemma pending_by:
  assumes "sim U f a" and "pending (f_pc f g) = Some t"
  shows "turn_by t = g"
proof (cases g)
  case RunSSH
  with assms show ?thesis by (cases t) (auto simp: sim_def)
next
  case RunWS
  with assms show ?thesis by (cases t) (auto simp: sim_def)
qed

text \<open>A step of a goroutine that only moves it on within its turn, or that finishes one that has already been counted.\<close>

lemma sim_internal:
  assumes S: "sim U f a" and p: "pending p = pending (f_pc f g)" "pc_err p = pc_err (f_pc f g)" "writing_ok U s' p"
    and s': "same_but_writer s' (f_s f)"
    and other: "\<And>h. h \<noteq> g \<Longrightarrow> has_writer (f_pc f h) \<Longrightarrow> v4_cur s' = v4_cur (f_s f)"
  shows "sim U (f\<lparr>f_s := s', f_pc := (f_pc f)(g := p)\<rparr>) a" (is "sim U ?f' a")
proof -
  have base: "same_but_writer s' s1" if "same_but_writer (f_s f) s1" for s1
    using that s' by (simp add: same_but_writer_iff)
  have f: "v4_sid s' = v4_sid (f_s f)" "v4_rCount s' = v4_rCount (f_s f)"
    using s' by (simp_all add: same_but_writer_iff)
  have w: "writing_ok U s' (f_pc f h)" if "h \<noteq> g" for h
  proof -
    have "writing_ok U (f_s f) (f_pc f h)" using S by (simp add: sim_def)
    moreover have "turn_message U t s' = turn_message U t (f_s f)" for t using turn_message_cong [OF f(1)] f(2) by blast
    ultimately show ?thesis using other [OF that] by (cases "f_pc f h") simp_all
  qed
  obtain s1 where s1: "rx (pending (f_pc f RunWS)) (t_s a) = Some s1" "same_but_writer (f_s f) s1" using S by (auto simp: sim_def)
  have pend: "pending (((f_pc f)(g := p)) h) = pending (f_pc f h)" for h using p(1) by simp
  have "t_err a h = pc_err (((f_pc f)(g := p)) h) \<and> writing_ok U s' (((f_pc f)(g := p)) h)" for h
    using S p(2,3) w by (cases "h = g") (simp_all add: sim_def)
  moreover have "f_s ?f' = s'" "f_pc ?f' = (f_pc f)(g := p)" "f_conn ?f' = f_conn f" by simp_all
  ultimately show ?thesis using S s1(1) base [OF s1(2)] unfolding sim_def by (simp only: pend) blast
qed

lemma tx_cong:
  "tx_ok U p conn a \<Longrightarrow> v4_role (t_s b) = v4_role (t_s a) \<Longrightarrow> v4_sid (t_s b) = v4_sid (t_s a) \<Longrightarrow> t_conn b = t_conn a \<Longrightarrow> tx_ok U p conn b"
  by (cases "(U, p, conn, a)" rule: tx_ok.cases) simp_all

lemma goroutine_all: "(\<forall>g. P g) \<longleftrightarrow> P RunSSH \<and> P RunWS"
  by (metis goroutine.exhaust)

lemma rx_frame:
  "rx p (s\<lparr>v4_mu := m, v4_ws := w, v4_cur := c\<rparr>) = map_option (\<lambda>s1. s1\<lparr>v4_mu := m, v4_ws := w, v4_cur := c\<rparr>) (rx p s)"
  by (cases "(p, s)" rule: rx.cases) (auto simp: ack_due_frame)

lemma turn_send_result:
  assumes "turn_send U t s = (s', err)"
  obtains ms where "s' = s\<lparr>v4_mu := False, v4_ws := v4_ws s @ ms, v4_cur := v4_cur s'\<rparr>"
    "\<And>x. v4_sid s = v4_sid x \<Longrightarrow> v4_rCount s = v4_rCount x \<or> turn_by t = RunSSH \<Longrightarrow> v4_cur x = [] \<Longrightarrow>
       turn_send U t x = (x\<lparr>v4_mu := False, v4_ws := v4_ws x @ ms, v4_cur := []\<rparr>, err)"
proof (cases "ws_NextWriter (turn_env t) BinaryMessage")
  case None
  obtain m e where m: "turn_message U t s = (m, e)" by fastforce
  show thesis
  proof (rule that [of "[m]"])
    show "s' = s\<lparr>v4_mu := False, v4_ws := v4_ws s @ [m], v4_cur := v4_cur s'\<rparr>" using assms None m by (auto simp: turn_send_def)
    show "turn_send U t x = (x\<lparr>v4_mu := False, v4_ws := v4_ws x @ [m], v4_cur := []\<rparr>, err)"
      if "v4_sid s = v4_sid x" "v4_rCount s = v4_rCount x \<or> turn_by t = RunSSH" for x
    proof -
      have "turn_message U t x = (m, e)" using turn_message_cong [OF that, of U] m by simp
      then show ?thesis using assms None m by (auto simp: turn_send_def)
    qed
  qed
next
  case (Some e)
  show thesis
  proof (rule that [of "[]"])
    show "s' = s\<lparr>v4_mu := False, v4_ws := v4_ws s @ [], v4_cur := v4_cur s'\<rparr>" using assms Some by (auto simp: turn_send_def)
    show "turn_send U t x = (x\<lparr>v4_mu := False, v4_ws := v4_ws x @ [], v4_cur := []\<rparr>, err)" if "v4_cur x = []" for x
      using assms Some that by (cases x) (auto simp: turn_send_def)
  qed
qed

text \<open>A turn that comes to its end: all that it did since it began is one step of the session turn by turn.\<close>

lemma sim_finish:
  assumes S: "sim U f a" and t: "pending (f_pc f g) = Some t"
    and s': "turn_send U t (f_s f) = (s', err)" and f': "f' = f\<lparr>f_s := s'\<lparr>v4_mu := m\<rparr>, f_pc := (f_pc f)(g := Unlocking err)\<rparr>"
    and c: "v4_cur s' = []" and other: "\<And>h. h \<noteq> g \<Longrightarrow> \<not> has_writer (f_pc f h)"
  shows "\<exists>a'. turn_step U a a' \<and> sim U f' a'"
proof -
  from S obtain s1 where R: "rx (pending (f_pc f RunWS)) (t_s a) = Some s1" "same_but_writer (f_s f) s1"
    "v4_sid s1 = v4_sid (t_s a)" "v4_role s1 = v4_role (t_s a)" "v4_ws s1 = v4_ws (t_s a)" "v4_mu s1 = v4_mu (t_s a)" "v4_cur s1 = v4_cur (t_s a)"
    and eq: "v4_sid (f_s f) = v4_sid (t_s a)" "v4_role (f_s f) = v4_role (t_s a)" "v4_ws (f_s f) = v4_ws (t_s a)" "v4_rCount (f_s f) = v4_rCount s1"
    by (rule simD)
  have by_g: "turn_by t = g" by (rule pending_by [OF S t])
  have err0: "t_err a g = None" using S t by (cases "f_pc f g") (auto simp: sim_def)
  have tx: "tx_ok U (pending (f_pc f RunSSH)) (f_conn f) a" using S by (simp add: sim_def)
  have free: "\<not> v4_mu (t_s a)" "v4_cur (t_s a) = []" using S by (simp_all add: sim_def)
  have w: "writing_ok U x (f_pc f h)" if "h \<noteq> g" for h x using other [OF that] by (cases "f_pc f h") simp_all
  have e: "t_err a h = pc_err (f_pc f h)" for h using S by (simp add: sim_def)
  obtain ms where s'_ms: "s' = (f_s f)\<lparr>v4_mu := False, v4_ws := v4_ws (f_s f) @ ms, v4_cur := v4_cur s'\<rparr>"
    and ms: "\<And>x. v4_sid (f_s f) = v4_sid x \<Longrightarrow> v4_rCount (f_s f) = v4_rCount x \<or> turn_by t = RunSSH \<Longrightarrow> v4_cur x = [] \<Longrightarrow>
       turn_send U t x = (x\<lparr>v4_mu := False, v4_ws := v4_ws x @ ms, v4_cur := []\<rparr>, err)"
    using turn_send_result [OF s'] by metis
  let ?new = "\<lambda>x :: v4. x\<lparr>v4_mu := False, v4_ws := v4_ws x @ ms, v4_cur := []\<rparr>"
  have sim_ssh: "sim U f' a'"
    if g: "g = RunSSH" and a': "t_s a' = ?new (t_s a)" "t_err a' = (t_err a)(RunSSH := err)" "t_conn a' = f_conn f" for a'
  proof -
    have "rx (pending (f_pc f RunWS)) (t_s a') = Some (?new s1)" using R(1,5) by (simp add: a' rx_frame)
    then show ?thesis using e w g R(2) s'_ms c f' eq goroutine_all a' by (simp add: sim_def same_but_writer_iff)
  qed
  show ?thesis
  proof (cases t)
    case (Receive E nr)
    with by_g have g: "g = RunWS" by simp
    with R t Receive have "ack_due E nr (t_s a) = Some s1" by simp
    then have "runWS_iter U E nr (t_s a) = Ret (turn_send U t s1)" unfolding Receive by (rule runWS_iter_turn)
    with ms [of s1] eq free R(3-7) have run: "runWS_iter U E nr (t_s a) = Ret (?new s1, err)" by simp
    let ?a = "a\<lparr>t_s := ?new s1, t_err := (t_err a)(RunWS := err)\<rparr>"
    have "tx_ok U (pending (f_pc f RunSSH)) (f_conn f) ?a" using R(3-7) by (intro tx_cong [OF tx]) simp_all
    then have "sim U f' ?a" using e w g R(2) s'_ms c f' eq goroutine_all by (simp add: sim_def same_but_writer_iff)
    moreover have "turn_step U a ?a" using turn_step.recv [OF _ run] err0 g by simp
    ultimately show ?thesis by blast
  next
    case (Read E R)
    with by_g have g: "g = RunSSH" by simp
    with tx t Read obtain d where rd: "fst (bufio_Read R bufio_NewReader MaxArrayLen) = (d, None)" and conn: "f_conn f = t_conn a"
      "v4_role (t_s a) = Server \<Longrightarrow> t_conn a"
      by (cases "fst (bufio_Read R bufio_NewReader MaxArrayLen)") auto
    have run: "runSSH_iter E R (t_s a) = (?new (t_s a), err)" using ms [of "t_s a"] runSSH_iter_turn [OF rd] Read eq free by simp
    have "turn_step U a (a\<lparr>t_s := ?new (t_s a), t_err := (t_err a)(RunSSH := err)\<rparr>)"
      by (rule turn_step.read [OF _ conn(2) run]) (use err0 g in simp_all)
    moreover have "sim U f' (a\<lparr>t_s := ?new (t_s a), t_err := (t_err a)(RunSSH := err)\<rparr>)" by (rule sim_ssh [OF g]) (simp_all add: conn)
    ultimately show ?thesis by blast
  next
    case (Connect E)
    with by_g have g: "g = RunSSH" by simp
    with tx t Connect obtain sid where sd: "uuid_MarshalText U (v4_sid (t_s a)) = (sid, None)" and conn: "f_conn f" "\<not> t_conn a" "v4_role (t_s a) = Server"
      by (cases "uuid_MarshalText U (v4_sid (t_s a))") auto
    have run: "establishConn U E 0 (t_s a) = (?new (t_s a), err)" using ms [of "t_s a"] establishConn_turn [OF sd] Connect eq free by simp
    have "turn_step U a (a\<lparr>t_s := ?new (t_s a), t_err := (t_err a)(RunSSH := err), t_conn := True\<rparr>)"
      by (rule turn_step.connect [OF _ conn(3,2) run]) (use err0 g in simp)
    moreover have "sim U f' (a\<lparr>t_s := ?new (t_s a), t_err := (t_err a)(RunSSH := err), t_conn := True\<rparr>)" by (rule sim_ssh [OF g]) (simp_all add: conn)
    ultimately show ?thesis by blast
  qed
qed

lemma lock_okD:
  assumes "lock_ok f" and "holding (f_pc f g)"
  shows "v4_mu (f_s f)" "h \<noteq> g \<Longrightarrow> \<not> holding (f_pc f h)" "h \<noteq> g \<Longrightarrow> \<not> has_writer (f_pc f h)"
    "\<not> has_writer (f_pc f g) \<Longrightarrow> v4_cur (f_s f) = []"
  using assms has_writer_holding by (cases g; cases h; auto simp: lock_ok_def)+

lemma pc_err_after [simp]: "pc_err (after err) = err"
  by (cases err) simp_all

lemma writing_ok_after [simp]: "writing_ok U s (after err)"
  by (cases err) simp_all

text \<open>The steps within a turn.\<close>

lemma sim_turn:
  assumes S: "sim U f a" and L: "lock_ok f" and h: "holding (f_pc f g)" and p: "pending p = pending (f_pc f g)" "pc_err p = pc_err (f_pc f g)"
    "writing_ok U s' p" and s': "same_but_writer s' (f_s f)"
  shows "sim U (f\<lparr>f_s := s', f_pc := (f_pc f)(g := p)\<rparr>) a"
  by (rule sim_internal [OF S p s']) (use lock_okD [OF L h] in blast)

lemma sim_steps_in_turn:
  assumes S: "sim U f a" and L: "lock_ok f"
  shows "f_pc f g = Locking t \<Longrightarrow> sim U (f\<lparr>f_s := (f_s f)\<lparr>v4_mu := True\<rparr>, f_pc := (f_pc f)(g := Opening t)\<rparr>) a"
    "f_pc f g = Opening t \<Longrightarrow> ws_NextWriter (turn_env t) BinaryMessage = None \<Longrightarrow> turn_command U t (f_s f) = (c, Some e) \<Longrightarrow>
       sim U (f\<lparr>f_s := (f_s f)\<lparr>v4_cur := []\<rparr>, f_pc := (f_pc f)(g := Closing t (Some e))\<rparr>) a"
    "f_pc f g = Opening t \<Longrightarrow> ws_NextWriter (turn_env t) BinaryMessage = None \<Longrightarrow> turn_command U t (f_s f) = (c, None) \<Longrightarrow>
       sim U (f\<lparr>f_s := (f_s f)\<lparr>v4_cur := []\<rparr>, f_pc := (f_pc f)(g := Writing t (pieces c))\<rparr>) a"
    "f_pc f g = Writing t (p # ps) \<Longrightarrow> io_Write (ws_Write (turn_env t)) (v4_cur (f_s f)) p = (m, None) \<Longrightarrow>
       sim U (f\<lparr>f_s := (f_s f)\<lparr>v4_cur := m\<rparr>, f_pc := (f_pc f)(g := Writing t ps)\<rparr>) a"
    "f_pc f g = Writing t (p # ps) \<Longrightarrow> io_Write (ws_Write (turn_env t)) (v4_cur (f_s f)) p = (m, Some e) \<Longrightarrow>
       sim U (f\<lparr>f_s := (f_s f)\<lparr>v4_cur := m\<rparr>, f_pc := (f_pc f)(g := Closing t (Some e))\<rparr>) a"
    "f_pc f g = Writing t [] \<Longrightarrow> sim U (f\<lparr>f_s := f_s f, f_pc := (f_pc f)(g := Closing t None)\<rparr>) a"
    "f_pc f g = Unlocking err \<Longrightarrow> sim U (f\<lparr>f_s := (f_s f)\<lparr>v4_mu := False\<rparr>, f_pc := (f_pc f)(g := after err)\<rparr>) a"
proof -
  have w: "writing_ok U (f_s f) (f_pc f g)" using S by (simp add: sim_def)
  have m: "turn_message U t' ((f_s f)\<lparr>v4_cur := x\<rparr>) = turn_message U t' (f_s f)" for t' x by (rule turn_message_cong) simp_all
  show "f_pc f g = Locking t \<Longrightarrow> sim U (f\<lparr>f_s := (f_s f)\<lparr>v4_mu := True\<rparr>, f_pc := (f_pc f)(g := Opening t)\<rparr>) a"
    by (rule sim_internal [OF S]) (simp_all add: same_but_writer_iff)
  show "f_pc f g = Opening t \<Longrightarrow> ws_NextWriter (turn_env t) BinaryMessage = None \<Longrightarrow> turn_command U t (f_s f) = (c, Some e) \<Longrightarrow>
       sim U (f\<lparr>f_s := (f_s f)\<lparr>v4_cur := []\<rparr>, f_pc := (f_pc f)(g := Closing t (Some e))\<rparr>) a"
    by (rule sim_turn [OF S L], simp_all add: same_but_writer_iff m, simp add: turn_message_def)
  show "f_pc f g = Opening t \<Longrightarrow> ws_NextWriter (turn_env t) BinaryMessage = None \<Longrightarrow> turn_command U t (f_s f) = (c, None) \<Longrightarrow>
       sim U (f\<lparr>f_s := (f_s f)\<lparr>v4_cur := []\<rparr>, f_pc := (f_pc f)(g := Writing t (pieces c))\<rparr>) a"
    by (rule sim_turn [OF S L], simp_all add: same_but_writer_iff m, simp add: turn_message_def)
  show "f_pc f g = Writing t (p # ps) \<Longrightarrow> io_Write (ws_Write (turn_env t)) (v4_cur (f_s f)) p = (m, None) \<Longrightarrow>
       sim U (f\<lparr>f_s := (f_s f)\<lparr>v4_cur := m\<rparr>, f_pc := (f_pc f)(g := Writing t ps)\<rparr>) a"
    by (rule sim_turn [OF S L]) (use w in \<open>simp_all add: same_but_writer_iff m\<close>)
  show "f_pc f g = Writing t (p # ps) \<Longrightarrow> io_Write (ws_Write (turn_env t)) (v4_cur (f_s f)) p = (m, Some e) \<Longrightarrow>
       sim U (f\<lparr>f_s := (f_s f)\<lparr>v4_cur := m\<rparr>, f_pc := (f_pc f)(g := Closing t (Some e))\<rparr>) a"
    by (rule sim_turn [OF S L]) (use w in \<open>simp_all add: same_but_writer_iff m\<close>)
  show "f_pc f g = Writing t [] \<Longrightarrow> sim U (f\<lparr>f_s := f_s f, f_pc := (f_pc f)(g := Closing t None)\<rparr>) a"
    by (rule sim_turn [OF S L]) (use w in \<open>simp_all add: same_but_writer_iff m\<close>)
  show "f_pc f g = Unlocking err \<Longrightarrow> sim U (f\<lparr>f_s := (f_s f)\<lparr>v4_mu := False\<rparr>, f_pc := (f_pc f)(g := after err)\<rparr>) a"
    by (rule sim_turn [OF S L]) (simp_all add: same_but_writer_iff)
qed

text \<open>A turn of \<^verbatim>\<open>runSSH\<close> begins, or ends before it asks for the writer; so does one of \<^verbatim>\<open>runWS\<close>.\<close>

lemma sim_begin_ssh:
  assumes S: "sim U f a" and p: "f_pc f RunSSH = Free" and tx: "tx_ok U (Some t) conn a"
  shows "sim U (f\<lparr>f_pc := (f_pc f)(RunSSH := Locking t), f_conn := conn\<rparr>) a"
  using S p tx by (simp add: sim_def goroutine_all)

lemma sim_end_ssh:
  assumes S: "sim U f a" and p: "f_pc f RunSSH = Free" and a': "t_s a' = t_s a" "t_err a' = (t_err a)(RunSSH := Some e)" "t_conn a' = conn"
  shows "sim U (f\<lparr>f_pc := (f_pc f)(RunSSH := Returned e), f_conn := conn\<rparr>) a'"
  using S p a' by (simp add: sim_def goroutine_all)

lemma sim_receive_data:
  assumes S: "sim U f a" and p: "f_pc f RunWS = Free" and s': "ack_due E nr (f_s f) = Some s'"
  shows "sim U (f\<lparr>f_s := s', f_pc := (f_pc f)(RunWS := Locking (Receive E nr))\<rparr>) a"
proof -
  from S p have f: "same_but_writer (f_s f) (t_s a)" and w: "writing_ok U (f_s f) (f_pc f RunSSH)" and tx: "tx_ok U (pending (f_pc f RunSSH)) (f_conn f) a"
    by (simp_all add: sim_def)
  note k = ack_due_keeps [OF s']
  have s'_eq: "v4_sid s' = v4_sid (f_s f)" "v4_cur s' = v4_cur (f_s f)" "v4_role s' = v4_role (f_s f)" "v4_wCount s' = v4_wCount (f_s f)" "v4_ws s' = v4_ws (f_s f)"
    by (subst k; simp)+
  have "t_s a = (f_s f)\<lparr>v4_mu := v4_mu (t_s a), v4_ws := v4_ws (t_s a), v4_cur := v4_cur (t_s a)\<rparr>"
    using f by (cases "t_s a"; cases "f_s f") (simp add: same_but_writer_iff)
  then obtain s1 where due: "ack_due E nr (t_s a) = Some s1" and s1: "s1 = s'\<lparr>v4_mu := v4_mu (t_s a), v4_ws := v4_ws (t_s a), v4_cur := v4_cur (t_s a)\<rparr>"
    using ack_due_frame [where E = E and nr = nr and s = "f_s f" and m = "v4_mu (t_s a)" and w = "v4_ws (t_s a)" and c = "v4_cur (t_s a)"] s'
    by simp
  have "same_but_writer s' s1" using s'_eq f by (simp add: same_but_writer_iff s1)
  moreover have "writing_ok U s' (f_pc f RunSSH)"
  proof -
    have by_ssh: "turn_by t = RunSSH" if "pending (f_pc f RunSSH) = Some t" for t using pending_by [OF S that] .
    have "turn_message U t s' = turn_message U t (f_s f)" if "pending (f_pc f RunSSH) = Some t" for t
      using turn_message_cong [OF s'_eq(1)] by_ssh [OF that] by blast
    with w show ?thesis by (cases "f_pc f RunSSH") (simp_all add: s'_eq)
  qed
  ultimately show ?thesis using S p due by (simp add: sim_def goroutine_all)
qed

lemma sim_receive_other:
  assumes S: "sim U f a" and p: "f_pc f RunWS = Free" and due: "ack_due E nr (f_s f) = None" and run: "runWS_iter U E nr (f_s f) = Ret (s', err)"
  shows "\<exists>a'. turn_step U a a' \<and> sim U (f\<lparr>f_s := s', f_pc := (f_pc f)(RunWS := after err)\<rparr>) a'"
proof -
  from S p have f: "same_but_writer (f_s f) (t_s a)" and w: "writing_ok U (f_s f) (f_pc f RunSSH)" and tx: "tx_ok U (pending (f_pc f RunSSH)) (f_conn f) a"
    and free: "\<not> v4_mu (t_s a)" "v4_cur (t_s a) = []" and e: "t_err a g = pc_err (f_pc f g)" for g
    by (simp_all add: sim_def)
  let ?writer = "\<lambda>s. s\<lparr>v4_mu := v4_mu (t_s a), v4_ws := v4_ws (t_s a), v4_cur := v4_cur (t_s a)\<rparr>"
  have "t_s a = ?writer (f_s f)" using f by (cases "t_s a"; cases "f_s f") (simp add: same_but_writer_iff)
  with runWS_iter_silent [OF due run, where m = "v4_mu (t_s a)" and w = "v4_ws (t_s a)" and c = "v4_cur (t_s a)"]
  have run': "runWS_iter U E nr (t_s a) = Ret (?writer s', err)" and k: "v4_mu s' = v4_mu (f_s f)" "v4_ws s' = v4_ws (f_s f)" "v4_cur s' = v4_cur (f_s f)"
    "v4_role s' = v4_role (f_s f)" "v4_role (f_s f) = Server \<Longrightarrow> v4_sid s' = v4_sid (f_s f)"
    by simp_all
  let ?a = "a\<lparr>t_s := ?writer s', t_err := (t_err a)(RunWS := err)\<rparr>"
  have m: "turn_message U t s' = turn_message U t (f_s f)" if "pending (f_pc f RunSSH) = Some t" for t
    using tx that k(5) f by (cases t) (simp_all add: turn_message_def same_but_writer_iff)
  have w': "writing_ok U s' (f_pc f RunSSH)" using w m k(3) by (cases "f_pc f RunSSH") simp_all
  have tx': "tx_ok U (pending (f_pc f RunSSH)) (f_conn f) ?a"
  proof (cases "pending (f_pc f RunSSH)")
    case (Some t)
    with tx k(4,5) f show ?thesis by (cases t) (simp_all add: same_but_writer_iff)
  qed (use tx in simp)
  have "turn_step U a ?a" by (rule turn_step.recv [OF _ run']) (simp add: e p)
  moreover have "sim U (f\<lparr>f_s := s', f_pc := (f_pc f)(RunWS := after err)\<rparr>) ?a"
    using e w' tx' free k f by (simp add: sim_def goroutine_all same_but_writer_iff)
  ultimately show ?thesis by blast
qed

lemma sim_step:
  "fine_step U g f f' \<Longrightarrow> sim U f a \<Longrightarrow> lock_ok f \<Longrightarrow> sim U f' a \<or> (\<exists>a'. turn_step U a a' \<and> sim U f' a')"
proof (induction rule: fine_step.induct)
  case (connect f sid E)
  then have "tx_ok U (Some (Connect E)) True a" using sim_eq [OF connect(5)] by (auto simp: sim_def)
  with sim_begin_ssh [OF connect(5,1)] show ?case by blast
next
  case (connect_fails f sid e)
  note eq = sim_eq [OF connect_fails(5)]
  have c: "f_conn f = t_conn a" "t_err a RunSSH = None" using connect_fails(1,5) by (simp_all add: sim_def)
  have run: "establishConn U io_ok 0 (t_s a) = (t_s a, Some e)" using connect_fails(4) eq by (simp add: establishConn_def sendConnect_def)
  have "turn_step U a (a\<lparr>t_s := t_s a, t_err := (t_err a)(RunSSH := Some e), t_conn := True\<rparr>)"
    by (rule turn_step.connect [OF _ _ _ run]) (use connect_fails(2,3) c eq in simp_all)
  moreover have "sim U (f\<lparr>f_pc := (f_pc f)(RunSSH := Returned e), f_conn := True\<rparr>) (a\<lparr>t_s := t_s a, t_err := (t_err a)(RunSSH := Some e), t_conn := True\<rparr>)"
    by (rule sim_end_ssh [OF connect_fails(5,1)]) simp_all
  ultimately show ?case by blast
next
  case (read f R d E)
  then have "tx_ok U (Some (Read E R)) (f_conn f) a" using sim_eq [OF read(4)] by (auto simp: sim_def)
  from sim_begin_ssh [OF read(4,1) this] show ?case by simp
next
  case (read_fails f R d e)
  note eq = sim_eq [OF read_fails(4)]
  have c: "f_conn f = t_conn a" "t_err a RunSSH = None" using read_fails(1,4) by (simp_all add: sim_def)
  have run: "runSSH_iter io_ok R (t_s a) = (t_s a, Some e)" using read_fails(3) by (simp add: runSSH_iter_def)
  have "turn_step U a (a\<lparr>t_s := t_s a, t_err := (t_err a)(RunSSH := Some e)\<rparr>)"
    by (rule turn_step.read [OF _ _ run]) (use read_fails(2) c eq in simp_all)
  moreover have "sim U (f\<lparr>f_pc := (f_pc f)(RunSSH := Returned e), f_conn := f_conn f\<rparr>) (a\<lparr>t_s := t_s a, t_err := (t_err a)(RunSSH := Some e)\<rparr>)"
    by (rule sim_end_ssh [OF read_fails(4,1)]) (simp_all add: c)
  ultimately show ?case by auto
next
  case (receive_data f E nr s')
  from sim_receive_data [OF receive_data(3,1,2)] show ?case by blast
next
  case (receive_other f E nr s' err)
  from sim_receive_other [OF receive_other(4,1,2,3)] show ?case by blast
next
  case (lock f g t)
  from sim_steps_in_turn(1) [OF lock(3,4,1)] show ?case by blast
next
  case (refused f g t e)
  have h: "holding (f_pc f g)" "\<not> has_writer (f_pc f g)" by (simp_all add: refused(1))
  note L = lock_okD [OF refused(4) h(1)]
  have mu: "f_s f = (f_s f)\<lparr>v4_mu := False, v4_mu := True\<rparr>" using L(1) by (cases "f_s f") simp
  have send: "turn_send U t (f_s f) = ((f_s f)\<lparr>v4_mu := False\<rparr>, Some (Wrap ''wFunc() error: '' e []))" by (simp add: turn_send_def refused(2))
  show ?case
    by (rule disjI2, rule sim_finish [OF refused(3) _ send, where g = g and m = True]) (use refused(1) mu L(3,4) h in simp_all)
next
  case (invalid f g t c e)
  from sim_steps_in_turn(2) [OF invalid(4,5,1,2,3)] show ?case by blast
next
  case (opened f g t c)
  from sim_steps_in_turn(3) [OF opened(4,5,1,2,3)] show ?case by blast
next
  case (wrote f g t p ps m)
  from sim_steps_in_turn(4) [OF wrote(3,4,1,2)] show ?case by blast
next
  case (write_fails f g t p ps m e)
  from sim_steps_in_turn(5) [OF write_fails(3,4,1,2)] show ?case by blast
next
  case (written f g t)
  from sim_steps_in_turn(6) [OF written(2,3,1)] show ?case by simp
next
  case (close f g t err)
  have h: "holding (f_pc f g)" by (simp add: close(1))
  note L = lock_okD [OF close(3) h]
  let ?s = "(f_s f)\<lparr>v4_mu := False, v4_ws := v4_ws (f_s f) @ [v4_cur (f_s f)], v4_cur := []\<rparr>"
  have "writing_ok U (f_s f) (f_pc f g)" using close(2) by (simp add: sim_def)
  then have send: "turn_send U t (f_s f) = (?s, err)" by (simp add: close(1) turn_send_def)
  have mu: "?s\<lparr>v4_mu := True\<rparr> = (f_s f)\<lparr>v4_ws := v4_ws (f_s f) @ [v4_cur (f_s f)], v4_cur := []\<rparr>" using L(1) by (cases "f_s f") simp
  show ?case
    by (rule disjI2, rule sim_finish [OF close(2) _ send, where g = g and m = True]) (use close(1) mu L(3) in simp_all)
next
  case (unlock f g err)
  from sim_steps_in_turn(7) [OF unlock(2,3,1)] show ?case by blast
qed

lemma sim_init: "sim U (fine_init u r) (turns_init u r)"
  by (simp add: sim_def fine_init_def turns_init_def v4_New_def same_but_writer_iff)

lemma sim_reach: "fine_reach U u r f \<Longrightarrow> \<exists>a. turn_reach U u r a \<and> sim U f a"
proof (induction rule: fine_reach.induct)
  case start
  then show ?case using sim_init turn_reach.start by blast
next
  case (step f g f')
  then show ?case using sim_step [OF step(2) _ lock_ok_reach [OF step(1)]] turn_reach.step by blast
qed

section \<open>What the mutex gives\<close>

text \<open>
  C3. The turns of a v4 session's two loops are atomic: whatever the interleaving of the single calls, the messages that the session has
  handed to the WebSocket are those of the same loops run one whole turn after the other, so no message ever holds parts of two commands;
  and between turns the session is in the very state that the turns lead to, with the same loops ended by the same errors.
\<close>

theorem turns_are_atomic:
  assumes "fine_reach U u r f"
  shows "\<exists>a. turn_reach U u r a \<and> v4_ws (f_s f) = v4_ws (t_s a) \<and>
    (pending (f_pc f RunSSH) = None \<and> pending (f_pc f RunWS) = None \<and> \<not> v4_mu (f_s f) \<longrightarrow>
       f_s f = t_s a \<and> (\<forall>g. t_err a g = pc_err (f_pc f g)))"
proof -
  from sim_reach [OF assms] obtain a where a: "turn_reach U u r a" "sim U f a" by blast
  have "f_s f = t_s a \<and> (\<forall>g. t_err a g = pc_err (f_pc f g))"
    if p: "pending (f_pc f RunSSH) = None" "pending (f_pc f RunWS) = None" "\<not> v4_mu (f_s f)"
  proof -
    have "\<not> has_writer (f_pc f g)" for g using p(1,2) by (cases g; cases "f_pc f g") auto
    then have "v4_cur (f_s f) = []" using lock_ok_reach [OF assms] by (auto simp: lock_ok_def)
    with a(2) p(2,3) show ?thesis by (cases "f_s f"; cases "t_s a") (auto simp: sim_def same_but_writer_iff)
  qed
  then show ?thesis using a(1) sim_eq [OF a(2)] by (intro exI [of _ a] conjI impI) simp_all
qed

text \<open>A run in single steps: the client receives one byte of data and acknowledges it.\<close>

definition demo_ack :: "bytes \<Rightarrow> pc \<Rightarrow> bool \<Rightarrow> bytes list \<Rightarrow> fine" where
  "demo_ack cur p mu ws =
     \<lparr>f_s = (v4_New 5 Client)\<lparr>v4_rCount := 1, v4_ssh := [7], v4_mu := mu, v4_ws := ws, v4_cur := cur\<rparr>, f_pc = (\<lambda>_. Free)(RunWS := p), f_conn = False\<rparr>"

abbreviation demo_turn :: turn where
  "demo_turn \<equiv> Receive io_ok (Inr (BinaryMessage, message (wire (Data [7]))))"

lemma demo_ack_steps:
  "fine_step U RunWS (fine_init 5 Client) (demo_ack [] (Locking demo_turn) False [])"
  "fine_step U RunWS (demo_ack [] (Locking demo_turn) False []) (demo_ack [] (Opening demo_turn) True [])"
  "fine_step U RunWS (demo_ack [] (Opening demo_turn) True []) (demo_ack [] (Writing demo_turn [be16 7, be64 1]) True [])"
  "fine_step U RunWS (demo_ack [] (Writing demo_turn [be16 7, be64 1]) True []) (demo_ack (be16 7) (Writing demo_turn [be64 1]) True [])"
  "fine_step U RunWS (demo_ack (be16 7) (Writing demo_turn [be64 1]) True []) (demo_ack (wire (Ack 1)) (Writing demo_turn []) True [])"
  "fine_step U RunWS (demo_ack (wire (Ack 1)) (Writing demo_turn []) True []) (demo_ack (wire (Ack 1)) (Closing demo_turn None) True [])"
  "fine_step U RunWS (demo_ack (wire (Ack 1)) (Closing demo_turn None) True []) (demo_ack [] (Unlocking None) True [wire (Ack 1)])"
  "fine_step U RunWS (demo_ack [] (Unlocking None) True [wire (Ack 1)]) (demo_ack [] Free False [wire (Ack 1)])"
proof -
  have due: "ack_due io_ok (Inr (BinaryMessage, message (wire (Data [7])))) (v4_New 5 Client) = Some ((v4_New 5 Client)\<lparr>v4_rCount := 1, v4_ssh := [7]\<rparr>)"
    using Unmarshal_wire [of "Data [7]"] by (simp add: ack_due_def readData_def v4_New_def del: wire.simps)
  show "fine_step U RunWS (fine_init 5 Client) (demo_ack [] (Locking demo_turn) False [])"
    using fine_step.receive_data [where f = "fine_init 5 Client" and U = U and E = io_ok and nr = "Inr (BinaryMessage, message (wire (Data [7])))"] due
    by (simp add: demo_ack_def fine_init_def v4_New_def del: wire.simps)
  show "fine_step U RunWS (demo_ack [] (Locking demo_turn) False []) (demo_ack [] (Opening demo_turn) True [])"
    using fine_step.lock [of "demo_ack [] (Locking demo_turn) False []" RunWS demo_turn U] by (simp add: demo_ack_def v4_New_def)
  show "fine_step U RunWS (demo_ack [] (Opening demo_turn) True []) (demo_ack [] (Writing demo_turn [be16 7, be64 1]) True [])"
    using fine_step.opened [of "demo_ack [] (Opening demo_turn) True []" RunWS demo_turn U "Ack 1"]
    by (simp add: demo_ack_def v4_New_def NewAck_def TagAck_def)
  show "fine_step U RunWS (demo_ack [] (Writing demo_turn [be16 7, be64 1]) True []) (demo_ack (be16 7) (Writing demo_turn [be64 1]) True [])"
    using fine_step.wrote [of "demo_ack [] (Writing demo_turn [be16 7, be64 1]) True []" RunWS demo_turn "be16 7" "[be64 1]" "be16 7" U]
    by (simp add: demo_ack_def v4_New_def)
  show "fine_step U RunWS (demo_ack (be16 7) (Writing demo_turn [be64 1]) True []) (demo_ack (wire (Ack 1)) (Writing demo_turn []) True [])"
    using fine_step.wrote [of "demo_ack (be16 7) (Writing demo_turn [be64 1]) True []" RunWS demo_turn "be64 1" "[]" "wire (Ack 1)" U]
    by (simp add: demo_ack_def v4_New_def wire.simps(4))
  show "fine_step U RunWS (demo_ack (wire (Ack 1)) (Writing demo_turn []) True []) (demo_ack (wire (Ack 1)) (Closing demo_turn None) True [])"
    using fine_step.written [of "demo_ack (wire (Ack 1)) (Writing demo_turn []) True []" RunWS demo_turn U] by (simp add: demo_ack_def v4_New_def)
  show "fine_step U RunWS (demo_ack (wire (Ack 1)) (Closing demo_turn None) True []) (demo_ack [] (Unlocking None) True [wire (Ack 1)])"
    using fine_step.close [of "demo_ack (wire (Ack 1)) (Closing demo_turn None) True []" RunWS demo_turn None U] by (simp add: demo_ack_def v4_New_def)
  show "fine_step U RunWS (demo_ack [] (Unlocking None) True [wire (Ack 1)]) (demo_ack [] Free False [wire (Ack 1)])"
    using fine_step.unlock [of "demo_ack [] (Unlocking None) True [wire (Ack 1)]" RunWS None U] by (simp add: demo_ack_def v4_New_def)
qed

lemmas demo_ack_reach =
  fine_reach.step [OF fine_reach.start demo_ack_steps(1)]
  fine_reach.step [OF fine_reach.step [OF fine_reach.step [OF fine_reach.step [OF fine_reach.start demo_ack_steps(1)] demo_ack_steps(2)]
    demo_ack_steps(3)] demo_ack_steps(4)]

lemma demo_ack_done: "fine_reach U 5 Client (demo_ack [] Free False [wire (Ack 1)])"
  by (rule demo_ack_reach(2) [THEN fine_reach.step, OF demo_ack_steps(5), THEN fine_reach.step, OF demo_ack_steps(6), THEN fine_reach.step,
        OF demo_ack_steps(7), THEN fine_reach.step, OF demo_ack_steps(8)])

theorem turns_are_atomic_witness:
  "\<exists>a. turn_reach rfc4122 5 Client a \<and> v4_ws (f_s (demo_ack [] Free False [wire (Ack 1)])) = v4_ws (t_s a) \<and>
     v4_ssh (t_s a) = [7] \<and> t_err a RunWS = None"
proof -
  let ?f = "demo_ack [] Free False [wire (Ack 1)]"
  have p: "pending (f_pc ?f RunSSH) = None" "pending (f_pc ?f RunWS) = None" "\<not> v4_mu (f_s ?f)" "v4_ssh (f_s ?f) = [7]" "f_pc ?f RunWS = Free"
    by (simp_all add: demo_ack_def)
  from turns_are_atomic [OF demo_ack_done [of rfc4122]] p obtain a where
    a: "turn_reach rfc4122 5 Client a" "f_s ?f = t_s a" "t_err a RunWS = pc_err (f_pc ?f RunWS)" by blast
  from a(1) show ?thesis by (intro exI [of _ a]) (use a(2,3) p(4,5) in simp)
qed

text \<open>How many steps a goroutine that holds the mutex has to go until it releases it.\<close>

fun hold_left :: "pc \<Rightarrow> nat" where
  "hold_left (Opening t) = 7"
| "hold_left (Writing t ps) = 3 + length ps"
| "hold_left (Closing t err) = 2"
| "hold_left (Unlocking err) = 1"
| "hold_left _ = 0"

lemma length_pieces: "length (pieces c) \<le> 3"
  by (cases c) simp_all

lemma holder_can_step:
  assumes "f_pc f g = p" and "holding p"
  shows "\<exists>f'. fine_step U g f f'"
proof (cases p)
  case (Opening t)
  obtain c e where c: "turn_command U t (f_s f) = (c, e)" by fastforce
  show ?thesis
  proof (cases "ws_NextWriter (turn_env t) BinaryMessage")
    case None
    then show ?thesis using fine_step.invalid [of f g t U c] fine_step.opened [of f g t U c] c assms(1) Opening by (cases e) blast+
  qed (use fine_step.refused [of f g t _ U] assms(1) Opening in blast)
next
  case (Writing t ps)
  show ?thesis
  proof (cases ps)
    case (Cons q qs)
    obtain m e where "io_Write (ws_Write (turn_env t)) (v4_cur (f_s f)) q = (m, e)" by fastforce
    then show ?thesis using fine_step.wrote [of f g t q qs m U] fine_step.write_fails [of f g t q qs m _ U] assms(1) Writing Cons by (cases e) blast+
  qed (use fine_step.written [of f g t U] assms(1) Writing in blast)
next
  case (Closing t err)
  then show ?thesis using fine_step.close [of f g t err U] assms(1) by blast
next
  case (Unlocking err)
  then show ?thesis using fine_step.unlock [of f g err U] assms(1) by blast
qed (use assms(2) in simp_all)

lemma hold_left_step:
  assumes "fine_step U g f f'" and "holding (f_pc f g)"
  shows "hold_left (f_pc f' g) < hold_left (f_pc f g)"
  using assms
proof (induction rule: fine_step.induct)
  case (opened f g t c)
  then show ?case using length_pieces [of c] by simp
next
  case (unlock f g err)
  then show ?case by (cases err) simp_all
qed simp_all

lemma other_pc: "fine_step U h f f' \<Longrightarrow> h \<noteq> g \<Longrightarrow> f_pc f' g = f_pc f g"
  by (induction rule: fine_step.induct) simp_all

text \<open>
  C16. At most one goroutine is between taking and releasing the writer's mutex, and it always gets out: while it holds the mutex it can take
  a step of its own whatever the connections answer, each of its steps brings it nearer to releasing the mutex, and no step of the other
  goroutine sets it back. So no goroutine waits for the mutex forever, on any error path.
\<close>

theorem writer_lock_released:
  assumes "fine_reach U u r f" and "v4_mu (f_s f)"
  shows "\<exists>g. holding (f_pc f g) \<and> (\<forall>h. h \<noteq> g \<longrightarrow> \<not> holding (f_pc f h)) \<and> (\<exists>f'. fine_step U g f f') \<and>
    (\<forall>f'. fine_step U g f f' \<longrightarrow> hold_left (f_pc f' g) < hold_left (f_pc f g)) \<and>
    (\<forall>h f'. h \<noteq> g \<longrightarrow> fine_step U h f f' \<longrightarrow> f_pc f' g = f_pc f g)"
proof -
  note L = lock_ok_reach [OF assms(1)]
  with assms(2) obtain g where g: "holding (f_pc f g)" by (auto simp: lock_ok_def)
  show ?thesis
    using g lock_okD(2) [OF L g] holder_can_step [OF refl g] hold_left_step [OF _ g] other_pc by (intro exI [of _ g]) blast
qed

theorem writer_lock_released_witness:
  "\<exists>g. holding (f_pc (demo_ack (be16 7) (Writing demo_turn [be64 1]) True []) g) \<and>
    (\<exists>f'. fine_step rfc4122 g (demo_ack (be16 7) (Writing demo_turn [be64 1]) True []) f')"
proof -
  let ?f = "demo_ack (be16 7) (Writing demo_turn [be64 1]) True []"
  have "v4_mu (f_s ?f)" by (simp add: demo_ack_def)
  from writer_lock_released [OF demo_ack_reach(2) [of rfc4122] this] show ?thesis by blast
qed

end
