(* ===== verification/Writer_Race.thy ===== *)
theory Writer_Race
  imports Session_V1
begin

text \<open>
  Who writes to the WebSocket in a corp-relay session (\<^verbatim>\<open>src/session/corprelay/corprelay.go\<close>), call by call. There is no lock around its writer:
  the loop \<^verbatim>\<open>runSSH\<close> writes the data messages, and once a loop has failed \<^verbatim>\<open>Run\<close> itself writes the error acknowledgement, while the other loop
  is still running. The WebSocket library asks that only one goroutine at a time uses its writing side. Until \<^verbatim>\<open>Run\<close> has taken an error there
  is only one; after that two can have a message open at once. What comes of that is up to the library, so the model lets neither write
  on from such a state. The counter, which both loops and \<^verbatim>\<open>Run\<close> use, has no lock either: \<^verbatim>\<open>Run\<close> marks it with the error bits in one step and reads
  it for the acknowledgement in another.
\<close>

section \<open>The goroutines\<close>

text \<open>
  \<^verbatim>\<open>runSSH\<close>: reading, at \<^verbatim>\<open>NextWriter\<close>, with the acknowledgement or the data still to write, at the deferred \<^verbatim>\<open>w.Close()\<close>, or handing its
  error to \<^verbatim>\<open>Run\<close>. The bytes are those written to the open message so far.
\<close>

datatype ssh_pc =
    Ssh_reading
  | Ssh_opening io_env bytes
  | Ssh_acking io_env bytes
  | Ssh_copying io_env bytes bytes
  | Ssh_closing bytes "go_error option"
  | Ssh_handing go_error
  | Ssh_handed

datatype ws_pc = Ws_running | Ws_handing go_error | Ws_handed

datatype main_pc =
    Main_waiting
  | Main_opening go_error
  | Main_acking go_error io_env
  | Main_marked go_error io_env
  | Main_closing go_error bytes
  | Main_returned go_error

record race =
  r_s :: v1
  r_ssh :: ssh_pc
  r_wsp :: ws_pc
  r_main :: main_pc

definition race_init :: "uuid \<Rightarrow> race" where
  "race_init u = \<lparr>r_s = v1_New u, r_ssh = Ssh_reading, r_wsp = Ws_running, r_main = Main_waiting\<rparr>"

fun ssh_writing :: "ssh_pc \<Rightarrow> bool" where
  "ssh_writing (Ssh_acking E d) = True"
| "ssh_writing (Ssh_copying E m d) = True"
| "ssh_writing (Ssh_closing m err) = True"
| "ssh_writing _ = False"

fun main_writing :: "main_pc \<Rightarrow> bool" where
  "main_writing (Main_acking e E) = True"
| "main_writing (Main_marked e E) = True"
| "main_writing (Main_closing e m) = True"
| "main_writing _ = False"

definition two_writers :: "race \<Rightarrow> bool" where
  "two_writers f \<longleftrightarrow> ssh_writing (r_ssh f) \<and> main_writing (r_main f)"

fun ssh_after :: "go_error option \<Rightarrow> ssh_pc" where
  "ssh_after None = Ssh_reading"
| "ssh_after (Some e) = Ssh_handing e"

fun ws_after :: "go_error option \<Rightarrow> ws_pc" where
  "ws_after None = Ws_running"
| "ws_after (Some e) = Ws_handing e"

inductive race_step :: "race \<Rightarrow> race \<Rightarrow> bool" where
  ssh_read: "\<lbrakk> r_ssh f = Ssh_reading; fst (bufio_Read R bufio_NewReader (unat ChunkSize)) = (d, None) \<rbrakk> \<Longrightarrow>
    race_step f (f\<lparr>r_ssh := Ssh_opening E d\<rparr>)"
| ssh_read_fails: "\<lbrakk> r_ssh f = Ssh_reading; fst (bufio_Read R bufio_NewReader (unat ChunkSize)) = (d, Some e) \<rbrakk> \<Longrightarrow>
    race_step f (f\<lparr>r_ssh := Ssh_handing e\<rparr>)"
| ssh_refused: "\<lbrakk> r_ssh f = Ssh_opening E d; ws_NextWriter E BinaryMessage = Some e \<rbrakk> \<Longrightarrow>
    race_step f (f\<lparr>r_ssh := Ssh_handing (Wrap ''NextWriter() error: '' e [])\<rparr>)"
| ssh_opened: "\<lbrakk> r_ssh f = Ssh_opening E d; ws_NextWriter E BinaryMessage = None \<rbrakk> \<Longrightarrow> race_step f (f\<lparr>r_ssh := Ssh_acking E d\<rparr>)"
| ssh_acks: "\<lbrakk> r_ssh f = Ssh_acking E d; \<not> two_writers f; writeAck (ws_Write E) [] (v1_c (r_s f)) = (m, None) \<rbrakk> \<Longrightarrow>
    race_step f (f\<lparr>r_ssh := Ssh_copying E m d\<rparr>)"
| ssh_ack_fails: "\<lbrakk> r_ssh f = Ssh_acking E d; \<not> two_writers f; writeAck (ws_Write E) [] (v1_c (r_s f)) = (m, Some e) \<rbrakk> \<Longrightarrow>
    race_step f (f\<lparr>r_ssh := Ssh_closing m (Some (Wrap (''writeAck('' @ itoa (unat (v1_c (r_s f))) @ '') error: '') e []))\<rparr>)"
| ssh_copies: "\<lbrakk> r_ssh f = Ssh_copying E m d; \<not> two_writers f; v1_copySSH E m d = (m', err) \<rbrakk> \<Longrightarrow> race_step f (f\<lparr>r_ssh := Ssh_closing m' err\<rparr>)"
| ssh_closes: "\<lbrakk> r_ssh f = Ssh_closing m err; \<not> two_writers f \<rbrakk> \<Longrightarrow>
    race_step f (f\<lparr>r_s := (r_s f)\<lparr>v1_ws := v1_ws (r_s f) @ [m]\<rparr>, r_ssh := ssh_after err\<rparr>)"
| ws_turn: "\<lbrakk> r_wsp f = Ws_running; v1_runWS_iter E nr (r_s f) = Ret (s', err) \<rbrakk> \<Longrightarrow> race_step f (f\<lparr>r_s := s', r_wsp := ws_after err\<rparr>)"
| main_takes_ssh: "\<lbrakk> r_main f = Main_waiting; r_ssh f = Ssh_handing e \<rbrakk> \<Longrightarrow> race_step f (f\<lparr>r_ssh := Ssh_handed, r_main := Main_opening e\<rparr>)"
| main_takes_ws: "\<lbrakk> r_main f = Main_waiting; r_wsp f = Ws_handing e \<rbrakk> \<Longrightarrow> race_step f (f\<lparr>r_wsp := Ws_handed, r_main := Main_opening e\<rparr>)"
| main_refused: "\<lbrakk> r_main f = Main_opening e; ws_NextWriter (E :: io_env) BinaryMessage = Some e' \<rbrakk> \<Longrightarrow> race_step f (f\<lparr>r_main := Main_returned e\<rparr>)"
| main_opened: "\<lbrakk> r_main f = Main_opening e; ws_NextWriter E BinaryMessage = None \<rbrakk> \<Longrightarrow> race_step f (f\<lparr>r_main := Main_acking e E\<rparr>)"
| main_marks: "\<lbrakk> r_main f = Main_acking e E \<rbrakk> \<Longrightarrow>
    race_step f (f\<lparr>r_s := (r_s f)\<lparr>v1_c := v1_c (r_s f) OR AckErrMask\<rparr>, r_main := Main_marked e E\<rparr>)"
| main_acks: "\<lbrakk> r_main f = Main_marked e E; \<not> two_writers f; writeAck (ws_Write E) [] (v1_c (r_s f)) = (m, err) \<rbrakk> \<Longrightarrow>
    race_step f (f\<lparr>r_main := Main_closing e m\<rparr>)"
| main_closes: "\<lbrakk> r_main f = Main_closing e m; \<not> two_writers f \<rbrakk> \<Longrightarrow>
    race_step f (f\<lparr>r_s := (r_s f)\<lparr>v1_ws := v1_ws (r_s f) @ [m]\<rparr>, r_main := Main_returned e\<rparr>)"

inductive race_reach :: "uuid \<Rightarrow> race \<Rightarrow> bool" for u where
  start: "race_reach u (race_init u)"
| step: "race_reach u f \<Longrightarrow> race_step f f' \<Longrightarrow> race_reach u f'"

section \<open>Two writers\<close>

text \<open>
  What the two loops have handed over, compared with \<^verbatim>\<open>Run\<close>: an error of the SSH loop reaches \<^verbatim>\<open>Run\<close> only after its writer is closed, so two
  writers mean that it was the WebSocket loop that failed.
\<close>

definition race_inv :: "race \<Rightarrow> bool" where
  "race_inv f \<longleftrightarrow>
     (r_main f = Main_waiting \<longleftrightarrow> r_ssh f \<noteq> Ssh_handed \<and> r_wsp f \<noteq> Ws_handed) \<and> \<not> (r_ssh f = Ssh_handed \<and> r_wsp f = Ws_handed)"

lemma after_not_handed [simp]: "ssh_after err \<noteq> Ssh_handed" "ws_after err \<noteq> Ws_handed"
  by (cases err; simp)+

lemma race_inv_step: "race_step f f' \<Longrightarrow> race_inv f \<Longrightarrow> race_inv f'"
  by (induction rule: race_step.induct) (auto simp: race_inv_def)

lemma race_inv_init: "race_inv (race_init u)"
  by (simp add: race_inv_def race_init_def)

lemma race_inv_reach: "race_reach u f \<Longrightarrow> race_inv f"
  by (induction rule: race_reach.induct) (auto intro: race_inv_step race_inv_init)

lemma two_writers_need_ws_failure: "race_reach u f \<Longrightarrow> two_writers f \<Longrightarrow> r_wsp f = Ws_handed"
  using race_inv_reach [of u f] by (cases "r_ssh f"; cases "r_main f") (auto simp: race_inv_def two_writers_def)

text \<open>
  C19. A corp-relay session can have two goroutines write to its WebSocket at once, over connections that work: \<^verbatim>\<open>runSSH\<close> has read data and opened
  a message, the WebSocket loop fails (here on a message without an acknowledgement), and \<^verbatim>\<open>Run\<close> opens a message of its own for the error
  acknowledgement before \<^verbatim>\<open>runSSH\<close> has closed the first. It is always the failure of the WebSocket loop that leads there: while that
  loop runs, and when it is the SSH loop that failed, there is one writer at most.
\<close>

theorem v1_writers_overlap:
  "(\<exists>f e. race_reach u f \<and> two_writers f \<and> r_ssh f = Ssh_acking io_ok [7] \<and> r_main f = Main_acking e io_ok) \<and>
   (\<forall>f. r_wsp f \<noteq> Ws_handed \<and> race_reach u f \<longrightarrow> \<not> two_writers f)"
proof
  let ?e = "Wrap ''readAck() error: '' (Wrap ''ReadFull() error: '' EOF []) []"
  let ?f = "\<lambda>p w m. \<lparr>r_s = v1_New u, r_ssh = p, r_wsp = w, r_main = m\<rparr>"
  have read: "fst (bufio_Read (ready [7]) bufio_NewReader (unat ChunkSize)) = ([7], None)"
    by (simp add: bufio_Read_direct ChunkSize_def ready_def)
  have ws: "v1_runWS_iter io_ok (Inr (BinaryMessage, message [])) (v1_New u) = Ret (v1_New u, Some ?e)"
    by (simp add: v1_runWS_iter_def v1_parseBinary_def v1_readAck_def io_ReadFull_def message_def AckByteSize_def)
  have "race_reach u (?f Ssh_reading Ws_running Main_waiting)" using race_reach.start [of u] by (simp add: race_init_def)
  from race_reach.step [OF this race_step.ssh_read [OF _ read, where E = io_ok]]
  have "race_reach u (?f (Ssh_opening io_ok [7]) Ws_running Main_waiting)" by simp
  from race_reach.step [OF this race_step.ssh_opened]
  have "race_reach u (?f (Ssh_acking io_ok [7]) Ws_running Main_waiting)" by simp
  from race_reach.step [OF this race_step.ws_turn [where E = io_ok and nr = "Inr (BinaryMessage, message [])" and s' = "v1_New u" and err = "Some ?e"]] ws
  have "race_reach u (?f (Ssh_acking io_ok [7]) (Ws_handing ?e) Main_waiting)" by simp
  from race_reach.step [OF this race_step.main_takes_ws]
  have "race_reach u (?f (Ssh_acking io_ok [7]) Ws_handed (Main_opening ?e))" by simp
  from race_reach.step [OF this race_step.main_opened [where E = io_ok]]
  have r: "race_reach u (?f (Ssh_acking io_ok [7]) Ws_handed (Main_acking ?e io_ok))" by simp
  show "\<exists>f e. race_reach u f \<and> two_writers f \<and> r_ssh f = Ssh_acking io_ok [7] \<and> r_main f = Main_acking e io_ok"
    by (rule exI [of _ "?f (Ssh_acking io_ok [7]) Ws_handed (Main_acking ?e io_ok)"], rule exI [of _ ?e]) (simp add: r two_writers_def)
  show "\<forall>f. r_wsp f \<noteq> Ws_handed \<and> race_reach u f \<longrightarrow> \<not> two_writers f" using two_writers_need_ws_failure by blast
qed

theorem v1_writers_overlap_witness:
  "(\<exists>f e. race_reach 5 f \<and> two_writers f \<and> r_main f = Main_acking e io_ok) \<and> \<not> two_writers (race_init 5)"
  using v1_writers_overlap [of 5] race_reach.start [of 5] by (fastforce simp: race_init_def)

section \<open>Error bits that are lost\<close>

definition marked_inv :: "race \<Rightarrow> bool" where
  "marked_inv f \<longleftrightarrow> (\<forall>e E. r_wsp f = Ws_handed \<and> r_main f = Main_marked e E \<longrightarrow> v1_c (r_s f) > ChunkSize)"

lemma marked_inv_step: "race_step f f' \<Longrightarrow> marked_inv f \<Longrightarrow> marked_inv f'"
  by (induction rule: race_step.induct) (auto simp: marked_inv_def error_ack_invalid)

lemma marked_inv_reach: "race_reach u f \<Longrightarrow> marked_inv f"
proof (induction rule: race_reach.induct)
  case start
  then show ?case by (simp add: marked_inv_def race_init_def)
next
  case (step f f')
  then show ?case using marked_inv_step by blast
qed

text \<open>
  C20. The last acknowledgement of a corp-relay session may come without its error bits, and the peer then takes it for an ordinary message and does
  not learn of the failure: the SSH loop fails, \<^verbatim>\<open>Run\<close> sets the bits, and before it reads the counter again to write it, the WebSocket loop, which
  still runs, counts the bytes of one more message and masks the bits away. When it was the WebSocket loop that failed, the
  bits stay.
\<close>

theorem v1_error_bits_lost:
  "(\<exists>f. race_reach u f \<and> r_main f = Main_returned EOF \<and> v1_ws (r_s f) = [be32 1] \<and>
      (\<forall>p. v1_runWS_iter io_ok (Inr (BinaryMessage, message (be32 1))) p = Ret (v1_deliver p [], None))) \<and>
   (\<forall>f e E. race_reach u f \<and> r_wsp f = Ws_handed \<and> r_main f = Main_marked e E \<longrightarrow> v1_c (r_s f) > ChunkSize)"
proof
  let ?s = "\<lambda>c x w. (v1_New u)\<lparr>v1_c := c, v1_ssh := x, v1_ws := w\<rparr>"
  let ?f = "\<lambda>s p m. \<lparr>r_s = s, r_ssh = p, r_wsp = Ws_running, r_main = m\<rparr>"
  let ?R = "\<lambda>n. ([], Some EOF)"
  have read: "\<exists>d. fst (bufio_Read ?R bufio_NewReader (unat ChunkSize)) = (d, Some EOF)"
    by (simp add: bufio_Read_direct ChunkSize_def)
  then obtain d where d: "fst (bufio_Read ?R bufio_NewReader (unat ChunkSize)) = (d, Some EOF)" by blast
  have "race_reach u (?f (v1_New u) Ssh_reading Main_waiting)" using race_reach.start [of u] by (simp add: race_init_def)
  from race_reach.step [OF this race_step.ssh_read_fails [OF _ d]]
  have "race_reach u (?f (v1_New u) (Ssh_handing EOF) Main_waiting)" by simp
  from race_reach.step [OF this race_step.main_takes_ssh]
  have "race_reach u (?f (v1_New u) Ssh_handed (Main_opening EOF))" by simp
  from race_reach.step [OF this race_step.main_opened [where E = io_ok]]
  have "race_reach u (?f (v1_New u) Ssh_handed (Main_acking EOF io_ok))" by simp
  from race_reach.step [OF this race_step.main_marks]
  have "race_reach u (?f (?s AckErrMask [] []) Ssh_handed (Main_marked EOF io_ok))" by (simp add: v1_New_def)
  moreover have "v1_runWS_iter io_ok (Inr (BinaryMessage, message (be32 0 @ [7]))) (?s AckErrMask [] []) = Ret (?s 1 [7] [], None)"
    by (simp add: v1_runWS_iter_def v1_parseBinary_be32 copyWS_ok incCounter_def AckErrMask_def ChunkSize_def v1_New_def)
  ultimately have "race_reach u (?f (?s 1 [7] []) Ssh_handed (Main_marked EOF io_ok))"
    using race_reach.step [OF _ race_step.ws_turn [where E = io_ok and nr = "Inr (BinaryMessage, message (be32 0 @ [7]))" and s' = "?s 1 [7] []" and err = None]]
    by fastforce
  from race_reach.step [OF this race_step.main_acks [where m = "be32 1" and err = None]]
  have "race_reach u (?f (?s 1 [7] []) Ssh_handed (Main_closing EOF (be32 1)))" by (simp add: two_writers_def writeAck_def)
  from race_reach.step [OF this race_step.main_closes]
  have r: "race_reach u (?f (?s 1 [7] [be32 1]) Ssh_handed (Main_returned EOF))" by (simp add: two_writers_def v1_New_def)
  have p: "v1_runWS_iter io_ok (Inr (BinaryMessage, message (be32 1))) p = Ret (v1_deliver p [], None)" for p
    using v1_parseBinary_be32 [of io_ok 1 "[]" p] by (simp add: v1_runWS_iter_def ChunkSize_def v1_deliver_eq copyWS_ok)
  show "\<exists>f. race_reach u f \<and> r_main f = Main_returned EOF \<and> v1_ws (r_s f) = [be32 1] \<and>
      (\<forall>p. v1_runWS_iter io_ok (Inr (BinaryMessage, message (be32 1))) p = Ret (v1_deliver p [], None))"
    by (rule exI [of _ "?f (?s 1 [7] [be32 1]) Ssh_handed (Main_returned EOF)"]) (simp add: r p)
  show "\<forall>f e E. race_reach u f \<and> r_wsp f = Ws_handed \<and> r_main f = Main_marked e E \<longrightarrow> v1_c (r_s f) > ChunkSize"
    using marked_inv_reach [of u] by (auto simp: marked_inv_def)
qed

theorem v1_error_bits_lost_witness:
  "\<exists>f. race_reach 5 f \<and> r_main f = Main_returned EOF \<and> v1_ws (r_s f) = [be32 1]"
  using v1_error_bits_lost [of 5] by blast

end
