(* ===== verification/Manager.thy ===== *)
theory Manager
  imports Session_V1 Session_V4 "HOL-Library.AList"
begin

text \<open>
  The session manager of the relay (\<^verbatim>\<open>src/relay/session/manager/manager.go\<close>). The Go map of sessions is an association
  list with distinct keys, so that its size is computable; \<open>mgr_view\<close> is the map it stands for. The mutex makes every
  operation atomic. \<open>Manager_New\<close> also records the deadline it arms and the goroutine that waits for the session's end
  (\<open>mgr_watch\<close>, one entry per started session); what those goroutines do is the subject of the theory \<open>Lifecycle\<close>.

  The locale \<open>session_registry\<close> states what the HTTP handlers rely on; it is interpreted on the manager at the end.
\<close>

section \<open>State and operations\<close>

text \<open>A value of the interface \<^verbatim>\<open>session.Session\<close>: one of the two implementations.\<close>

datatype session = Sess_V1 v1 | Sess_V4 v4

fun session_SID :: "session \<Rightarrow> uuid" where
  "session_SID (Sess_V1 s) = v1_sid s"
| "session_SID (Sess_V4 s) = v4_sid s"

fun session_Version :: "session \<Rightarrow> ProtocolVersion" where
  "session_Version (Sess_V1 s) = v1_Version"
| "session_Version (Sess_V4 s) = v4_Version"

record manager =
  mgr_maxAge :: int
  mgr_maxSessions :: int
  mgr_sessions :: "(uuid \<times> session) list"
  mgr_watch :: "(uuid \<times> int) list"

definition manager_New :: "int \<Rightarrow> int \<Rightarrow> manager" where
  "manager_New maxSessions maxAge =
     \<lparr>mgr_maxAge = maxAge, mgr_maxSessions = maxSessions, mgr_sessions = [], mgr_watch = []\<rparr>"

text \<open>
  The switch on the protocol version: the session made for it, or none. \<open>fresh\<close> is what \<^verbatim>\<open>uuid.New\<close> returns if a session
  is made.
\<close>

definition version_session :: "ProtocolVersion \<Rightarrow> uuid \<Rightarrow> session option" where
  "version_session v fresh =
     (case v of CorpRelay \<Rightarrow> Some (Sess_V1 (v1_New fresh)) | CorpRelayV4 \<Rightarrow> Some (Sess_V4 (v4_New fresh Server)) | _ \<Rightarrow> None)"

definition Manager_New :: "uuid \<Rightarrow> ProtocolVersion \<Rightarrow> manager \<Rightarrow> manager \<times> (go_error + session)" where
  "Manager_New fresh v m =
     (if mgr_maxSessions m > 0 \<and> int (length (mgr_sessions m)) \<ge> mgr_maxSessions m
      then (m, Inl ErrSessionLimit)
      else (case version_session v fresh of
              None \<Rightarrow> (m, Inl ErrBadProtocolVersion)
            | Some s \<Rightarrow>
                (m\<lparr>mgr_watch := (session_SID s, mgr_maxAge m) # mgr_watch m,
                   mgr_sessions := AList.update (session_SID s) s (mgr_sessions m)\<rparr>, Inr s)))"

definition Manager_Get :: "uuid \<Rightarrow> manager \<Rightarrow> go_error + session" where
  "Manager_Get sid m = (case map_of (mgr_sessions m) sid of None \<Rightarrow> Inl ErrNoSuchSID | Some s \<Rightarrow> Inr s)"

definition Manager_Delete :: "uuid \<Rightarrow> manager \<Rightarrow> manager \<times> go_error option" where
  "Manager_Delete sid m =
     (case map_of (mgr_sessions m) sid of
        None \<Rightarrow> (m, Some ErrNoSuchSID)
      | Some _ \<Rightarrow> (m\<lparr>mgr_sessions := AList.delete sid (mgr_sessions m)\<rparr>, None))"

section \<open>The registry interface\<close>

locale session_registry =
  fixes view :: "'m \<Rightarrow> uuid \<Rightarrow> 's option"
    and invar :: "'m \<Rightarrow> bool"
    and new :: "uuid \<Rightarrow> ProtocolVersion \<Rightarrow> 'm \<Rightarrow> 'm \<times> (go_error + 's)"
    and get :: "uuid \<Rightarrow> 'm \<Rightarrow> go_error + 's"
    and del :: "uuid \<Rightarrow> 'm \<Rightarrow> 'm \<times> go_error option"
    and sid :: "'s \<Rightarrow> uuid"
  assumes new_ok: "invar m \<Longrightarrow> new f v m = (m', Inr s) \<Longrightarrow> invar m' \<and> view m' = (view m)(f \<mapsto> s) \<and> sid s = f"
    and new_err: "new f v m = (m', Inl e) \<Longrightarrow> m' = m"
    and get_view: "get k m = (case view m k of None \<Rightarrow> Inl ErrNoSuchSID | Some s \<Rightarrow> Inr s)"
    and del_view: "invar m \<Longrightarrow> del k m = (m', err) \<Longrightarrow>
      invar m' \<and> view m' = (view m)(k := None) \<and> err = (if view m k = None then Some ErrNoSuchSID else None)"
begin

lemma new_invar: "invar m \<Longrightarrow> new f v m = (m', r) \<Longrightarrow> invar m'"
  using new_ok new_err by (cases r) blast+

lemma get_after_new: "invar m \<Longrightarrow> new f v m = (m', Inr s) \<Longrightarrow> get k m' = (if k = f then Inr s else get k m)"
  by (auto simp: get_view dest: new_ok)

lemma get_after_del: "invar m \<Longrightarrow> del k m = (m', err) \<Longrightarrow> get j m' = (if j = k then Inl ErrNoSuchSID else get j m)"
  by (auto simp: get_view dest: del_view)

lemma del_error: "invar m \<Longrightarrow> del k m = (m', err) \<Longrightarrow> err = None \<longleftrightarrow> (\<exists>s. get k m = Inr s)"
  using del_view [of m k m' err] by (auto simp: get_view split: option.splits if_splits)

text \<open>Registering a fresh session and deleting it leaves the registry as it was.\<close>

lemma new_del: "invar m \<Longrightarrow> view m f = None \<Longrightarrow> new f v m = (m', Inr s) \<Longrightarrow> del (sid s) m' = (m'', err) \<Longrightarrow>
  view m'' = view m \<and> err = None"
proof -
  assume a: "invar m" "view m f = None" "new f v m = (m', Inr s)" "del (sid s) m' = (m'', err)"
  from new_ok [OF a(1,3)] have n: "invar m'" "view m' = (view m)(f \<mapsto> s)" "sid s = f" by auto
  from del_view [OF n(1) a(4)] n a(2) show ?thesis by auto
qed

end

section \<open>The manager is a registry\<close>

definition mgr_view :: "manager \<Rightarrow> uuid \<Rightarrow> session option" where
  "mgr_view m = map_of (mgr_sessions m)"

definition mgr_ok :: "manager \<Rightarrow> bool" where
  "mgr_ok m \<longleftrightarrow> distinct (map fst (mgr_sessions m)) \<and> (\<forall>(k, s) \<in> set (mgr_sessions m). session_SID s = k) \<and>
     (mgr_maxSessions m > 0 \<longrightarrow> int (length (mgr_sessions m)) \<le> mgr_maxSessions m)"

lemma version_session_SID: "version_session v f = Some s \<Longrightarrow> session_SID s = f"
  by (auto simp: version_session_def v1_New_def v4_New_def split: ProtocolVersion.splits)

lemma length_update_le: "length (AList.update k v xs) \<le> Suc (length xs)"
  by (induction xs) auto

lemma set_update_subset: "set (AList.update k v xs) \<subseteq> insert (k, v) (set xs)"
  by (induction xs) auto

lemma set_delete_subset: "set (AList.delete k xs) \<subseteq> set xs"
  by (auto simp: AList.delete_eq)

lemma Manager_New_cases:
  assumes "Manager_New f v m = (m', r)"
  obtains (limit) "mgr_maxSessions m > 0" "int (length (mgr_sessions m)) \<ge> mgr_maxSessions m" "m' = m" "r = Inl ErrSessionLimit"
  | (version) "\<not> (mgr_maxSessions m > 0 \<and> int (length (mgr_sessions m)) \<ge> mgr_maxSessions m)"
      "version_session v f = None" "m' = m" "r = Inl ErrBadProtocolVersion"
  | (new) s where "\<not> (mgr_maxSessions m > 0 \<and> int (length (mgr_sessions m)) \<ge> mgr_maxSessions m)"
      "version_session v f = Some s" "r = Inr s"
      "m' = m\<lparr>mgr_watch := (f, mgr_maxAge m) # mgr_watch m, mgr_sessions := AList.update f s (mgr_sessions m)\<rparr>"
proof (cases "mgr_maxSessions m > 0 \<and> int (length (mgr_sessions m)) \<ge> mgr_maxSessions m")
  case True
  with assms have "m' = m" "r = Inl ErrSessionLimit" by (simp_all add: Manager_New_def)
  with True limit show thesis by blast
next
  case False
  show thesis
  proof (cases "version_session v f")
    case None
    with assms False have "m' = m" "r = Inl ErrBadProtocolVersion" by (simp_all add: Manager_New_def)
    with version [OF False None] show thesis by simp
  next
    case (Some s)
    with assms False version_session_SID [OF Some] have
      "m' = m\<lparr>mgr_watch := (f, mgr_maxAge m) # mgr_watch m, mgr_sessions := AList.update f s (mgr_sessions m)\<rparr>" "r = Inr s"
      by (auto simp: Manager_New_def)
    with new [OF False Some] show thesis by simp
  qed
qed

lemma mgr_ok_New:
  assumes "mgr_ok m" and "Manager_New f v m = (m', r)"
  shows "mgr_ok m'"
  using assms(2)
proof (cases rule: Manager_New_cases)
  case (new s)
  have "int (length (AList.update f s (mgr_sessions m))) \<le> mgr_maxSessions m" if "mgr_maxSessions m > 0"
    using that new(1) length_update_le [of f s "mgr_sessions m"] by linarith
  moreover have "session_SID t = k" if "(k, t) \<in> set (AList.update f s (mgr_sessions m))" for k t
    using that assms(1) version_session_SID [OF new(2)] set_update_subset [of f s "mgr_sessions m"]
    by (auto simp: mgr_ok_def)
  ultimately show ?thesis using assms(1) new by (auto simp: mgr_ok_def distinct_update)
qed (use assms in auto)

lemma mgr_ok_Delete:
  assumes "mgr_ok m" and "Manager_Delete k m = (m', err)"
  shows "mgr_ok m'"
proof -
  have "mgr_ok (m\<lparr>mgr_sessions := AList.delete k (mgr_sessions m)\<rparr>)"
    using assms(1) length_delete_le [of k "mgr_sessions m"] set_delete_subset [of k "mgr_sessions m"]
    by (auto simp: mgr_ok_def distinct_delete)
  with assms show ?thesis by (auto simp: Manager_Delete_def split: option.splits)
qed

lemma Manager_New_view:
  assumes "Manager_New f v m = (m', Inr s)"
  shows "mgr_view m' = (mgr_view m)(f \<mapsto> s) \<and> session_SID s = f"
  using assms by (cases rule: Manager_New_cases) (auto simp: mgr_view_def update_conv' dest: version_session_SID)

interpretation mgr: session_registry mgr_view mgr_ok Manager_New Manager_Get Manager_Delete session_SID
proof
  fix m f v m' s
  assume "mgr_ok m" "Manager_New f v m = (m', Inr s)"
  then show "mgr_ok m' \<and> mgr_view m' = (mgr_view m)(f \<mapsto> s) \<and> session_SID s = f"
    using mgr_ok_New Manager_New_view by blast
next
  fix m f v m' e
  assume "Manager_New f v m = (m', Inl e)"
  then show "m' = m" by (cases rule: Manager_New_cases) auto
next
  fix m k
  show "Manager_Get k m = (case mgr_view m k of None \<Rightarrow> Inl ErrNoSuchSID | Some s \<Rightarrow> Inr s)"
    by (simp add: Manager_Get_def mgr_view_def)
next
  fix m k m' err
  assume a: "mgr_ok m" "Manager_Delete k m = (m', err)"
  then have "mgr_view m' = (mgr_view m)(k := None) \<and> err = (if mgr_view m k = None then Some ErrNoSuchSID else None)"
    by (auto simp: Manager_Delete_def mgr_view_def delete_conv' fun_upd_idem split: option.splits)
  with mgr_ok_Delete [OF a] show "mgr_ok m' \<and> mgr_view m' = (mgr_view m)(k := None) \<and>
      err = (if mgr_view m k = None then Some ErrNoSuchSID else None)" by blast
qed

section \<open>Sequences of operations\<close>

datatype mgr_op = New_op uuid ProtocolVersion | Get_op uuid | Delete_op uuid

fun mgr_step :: "manager \<Rightarrow> mgr_op \<Rightarrow> manager" where
  "mgr_step m (New_op f v) = fst (Manager_New f v m)"
| "mgr_step m (Get_op k) = m"
| "mgr_step m (Delete_op k) = fst (Manager_Delete k m)"

lemma mgr_step_ok: "mgr_ok m \<Longrightarrow> mgr_ok (mgr_step m op)"
  by (cases op) (auto intro: mgr_ok_New mgr_ok_Delete simp: prod_eq_iff)

lemma mgr_run_ok: "mgr_ok m \<Longrightarrow> mgr_ok (foldl mgr_step m ops)"
  by (induction ops arbitrary: m) (simp_all add: mgr_step_ok)

lemma mgr_ok_manager_New [simp]: "mgr_ok (manager_New n age)"
  by (simp add: mgr_ok_def manager_New_def)

lemma mgr_step_limits:
  "mgr_maxSessions (mgr_step m op) = mgr_maxSessions m \<and> mgr_maxAge (mgr_step m op) = mgr_maxAge m"
proof (cases op)
  case (New_op f v)
  obtain m' r where n: "Manager_New f v m = (m', r)" by fastforce
  then have "mgr_maxSessions m' = mgr_maxSessions m \<and> mgr_maxAge m' = mgr_maxAge m"
    by (cases rule: Manager_New_cases) auto
  with New_op n show ?thesis by simp
qed (auto simp: Manager_Delete_def split: option.splits)

lemma mgr_run_limits:
  "mgr_maxSessions (foldl mgr_step m ops) = mgr_maxSessions m \<and> mgr_maxAge (foldl mgr_step m ops) = mgr_maxAge m"
  by (induction ops arbitrary: m) (simp_all add: mgr_step_limits)

text \<open>
  The session limit holds: after any sequence of operations on a new manager with a positive limit, at most that
  many sessions are registered, each under its own identifier and no identifier twice.
\<close>

lemma session_limit_holds:
  assumes "0 < n" and "m = foldl mgr_step (manager_New n age) ops"
  shows "int (length (mgr_sessions m)) \<le> n \<and> distinct (map fst (mgr_sessions m)) \<and>
    list_all (\<lambda>(k, s). session_SID s = k) (mgr_sessions m)"
  using mgr_run_ok [of "manager_New n age" ops] mgr_run_limits [of "manager_New n age" ops] assms
  by (auto simp: mgr_ok_def manager_New_def list_all_iff)

text \<open>
  The abstract registry: a finite map and a limit. A session is registered unless the map is full or the version is
  unknown; deleting removes the key.
\<close>

fun registry_step :: "int \<Rightarrow> (uuid \<rightharpoonup> session) \<Rightarrow> mgr_op \<Rightarrow> (uuid \<rightharpoonup> session)" where
  "registry_step n r (New_op f v) =
     (if 0 < n \<and> n \<le> int (card (dom r)) then r
      else case version_session v f of None \<Rightarrow> r | Some s \<Rightarrow> r(f \<mapsto> s))"
| "registry_step n r (Get_op k) = r"
| "registry_step n r (Delete_op k) = r(k := None)"

lemma card_view: "mgr_ok m \<Longrightarrow> card (dom (mgr_view m)) = length (mgr_sessions m)"
  by (simp add: mgr_ok_def mgr_view_def dom_map_of_conv_image_fst card_image distinct_map distinct_card)

lemma mgr_view_update:
  "mgr_view (m\<lparr>mgr_watch := w, mgr_sessions := AList.update f s (mgr_sessions m)\<rparr>) = (mgr_view m)(f \<mapsto> s)"
  by (simp add: mgr_view_def update_conv')

lemma manager_New_simps [simp]: "mgr_view (manager_New n age) = Map.empty" "mgr_maxSessions (manager_New n age) = n"
  by (simp_all add: mgr_view_def manager_New_def)

lemma mgr_step_refines:
  assumes "mgr_ok m"
  shows "mgr_view (mgr_step m op) = registry_step (mgr_maxSessions m) (mgr_view m) op"
proof (cases op)
  case (New_op f v)
  obtain m' r where n: "Manager_New f v m = (m', r)" by fastforce
  then have "mgr_view m' = registry_step (mgr_maxSessions m) (mgr_view m) op"
    by (cases rule: Manager_New_cases)
      (auto simp: New_op card_view [OF assms] mgr_view_update)
  with New_op n show ?thesis by simp
next
  case (Delete_op k)
  then show ?thesis
    using mgr.del_view [OF assms, of k "fst (Manager_Delete k m)" "snd (Manager_Delete k m)"] by simp
qed simp

text \<open>
  C4. The manager refines the abstract registry: after any sequence of operations its association list stands for the
  map the abstract registry holds after the same sequence, and \<open>Get\<close> answers from that map.
\<close>

theorem manager_refines_registry:
  "mgr_view (foldl mgr_step (manager_New n age) ops) = foldl (registry_step n) Map.empty ops \<and>
   Manager_Get k (foldl mgr_step (manager_New n age) ops) =
     (case foldl (registry_step n) Map.empty ops k of None \<Rightarrow> Inl ErrNoSuchSID | Some s \<Rightarrow> Inr s)"
proof -
  have "mgr_view (foldl mgr_step m ops) = foldl (registry_step (mgr_maxSessions m)) (mgr_view m) ops" if "mgr_ok m" for m
    using that by (induction ops arbitrary: m) (simp_all add: mgr_step_refines mgr_step_ok mgr_step_limits)
  from this [of "manager_New n age"] have "mgr_view (foldl mgr_step (manager_New n age) ops) = foldl (registry_step n) Map.empty ops"
    by simp
  then show ?thesis by (simp add: mgr.get_view)
qed

end
