(* ===== verification/Lifecycle.thy ===== *)
theory Lifecycle
  imports Manager
begin

text \<open>
  The goroutines of one session of the relay and the two channels between them
  (\<^verbatim>\<open>src/session/session.go\<close> \<^verbatim>\<open>SetDeadline\<close>, \<^verbatim>\<open>src/relay/session/manager/manager.go\<close> \<^verbatim>\<open>Manager.New\<close>, and \<^verbatim>\<open>Run\<close>/\<^verbatim>\<open>Close\<close> of
  \<^verbatim>\<open>src/session/corprelay/corprelay.go\<close> and \<^verbatim>\<open>src/session/corprelayv4/corprelayv4.go\<close>). Both channels are unbuffered, so a
  send and a receive happen together, in one step. Five goroutines take part:

    \<^item> the two loops of \<^verbatim>\<open>Run\<close>, each of which ends by handing its error to \<^verbatim>\<open>errc\<close>;
    \<^item> the request handler that called \<^verbatim>\<open>Run\<close>: it takes one error, closes the session (which closes the SSH connection and
      sends on \<^verbatim>\<open>done\<close>), and then, depending on the protocol, deletes the session from the manager;
    \<^item> the deadline, which closes the session when its age is reached, or ends when it receives from \<^verbatim>\<open>done\<close>;
    \<^item> the manager's watcher, which receives from \<^verbatim>\<open>done\<close> and deletes the session.

  What the loops do until they fail is the subject of the session theories; here a running loop may fail at any time
  with any error. The age counts in the unit of the deadline and stands still once the deadline has been reached. \<^verbatim>\<open>Run\<close> is
  called at most once, and the manager is changed by this session only; several requests for one session are the subject of \<open>Connect_Race\<close>.
\<close>

section \<open>State\<close>

datatype loop_pc = Loop_off | Looping | Handing go_error | Handed go_error

datatype run_pc = Run_off | Run_waiting | Run_failed go_error | Run_closing go_error | Run_returned go_error | Handler_done go_error

datatype timer_pc = Timer_waiting | Timer_closing | Timer_closed | Timer_notified

datatype watch_pc = Watch_waiting | Watch_deleting | Watch_done

record life =
  l_session :: session
  l_max :: int
  l_age :: int
  l_run :: run_pc
  l_wsp :: loop_pc
  l_sshp :: loop_pc
  l_timer :: timer_pc
  l_watch :: watch_pc
  l_open :: bool
  l_mgr :: manager

text \<open>The state right after \<^verbatim>\<open>Manager.New\<close> has returned a session: the deadline and the watcher have been started.\<close>

definition life_start :: "uuid \<Rightarrow> ProtocolVersion \<Rightarrow> manager \<Rightarrow> life option" where
  "life_start fresh v m =
     (case Manager_New fresh v m of
        (m', Inr s) \<Rightarrow> Some \<lparr>l_session = s, l_max = mgr_maxAge m, l_age = 0, l_run = Run_off, l_wsp = Loop_off, l_sshp = Loop_off,
          l_timer = Timer_waiting, l_watch = Watch_waiting, l_open = True, l_mgr = m'\<rparr>
      | (m', Inl e) \<Rightarrow> None)"

definition life_sid :: "life \<Rightarrow> uuid" where
  "life_sid l = session_SID (l_session l)"

text \<open>
  What the handler does with the manager once \<^verbatim>\<open>Run\<close> has returned: \<^verbatim>\<open>connectHandle\<close> deletes the session in any case,
  \<^verbatim>\<open>connectHandleV4\<close> only when the error is \<^verbatim>\<open>io.EOF\<close>.
\<close>

definition handler_delete :: "go_error \<Rightarrow> life \<Rightarrow> manager" where
  "handler_delete e l =
     (case l_session l of
        Sess_V1 _ \<Rightarrow> fst (Manager_Delete (life_sid l) (l_mgr l))
      | Sess_V4 _ \<Rightarrow> if errors_Is e EOF then fst (Manager_Delete (life_sid l) (l_mgr l)) else l_mgr l)"

section \<open>Steps\<close>

inductive life_step :: "life \<Rightarrow> life \<Rightarrow> bool" where
  tick: "l_age l < l_max l \<Longrightarrow> life_step l (l\<lparr>l_age := l_age l + 1\<rparr>)"
| run: "l_run l = Run_off \<Longrightarrow> life_step l (l\<lparr>l_run := Run_waiting, l_wsp := Looping, l_sshp := Looping\<rparr>)"
| ws_fails: "l_wsp l = Looping \<Longrightarrow> life_step l (l\<lparr>l_wsp := Handing e\<rparr>)"
| ssh_fails: "l_sshp l = Looping \<Longrightarrow> life_step l (l\<lparr>l_sshp := Handing e\<rparr>)"
| ws_hands: "l_run l = Run_waiting \<Longrightarrow> l_wsp l = Handing e \<Longrightarrow> life_step l (l\<lparr>l_run := Run_failed e, l_wsp := Handed e\<rparr>)"
| ssh_hands: "l_run l = Run_waiting \<Longrightarrow> l_sshp l = Handing e \<Longrightarrow> life_step l (l\<lparr>l_run := Run_failed e, l_sshp := Handed e\<rparr>)"
| run_closes: "l_run l = Run_failed e \<Longrightarrow> life_step l (l\<lparr>l_run := Run_closing e, l_open := False\<rparr>)"
| expires: "l_timer l = Timer_waiting \<Longrightarrow> l_max l \<le> l_age l \<Longrightarrow> life_step l (l\<lparr>l_timer := Timer_closing, l_open := False\<rparr>)"
| run_to_timer: "l_run l = Run_closing e \<Longrightarrow> l_timer l = Timer_waiting \<Longrightarrow> life_step l (l\<lparr>l_run := Run_returned e, l_timer := Timer_notified\<rparr>)"
| run_to_watch: "l_run l = Run_closing e \<Longrightarrow> l_watch l = Watch_waiting \<Longrightarrow> life_step l (l\<lparr>l_run := Run_returned e, l_watch := Watch_deleting\<rparr>)"
| timer_to_watch: "l_timer l = Timer_closing \<Longrightarrow> l_watch l = Watch_waiting \<Longrightarrow> life_step l (l\<lparr>l_timer := Timer_closed, l_watch := Watch_deleting\<rparr>)"
| watch_deletes: "l_watch l = Watch_deleting \<Longrightarrow>
    life_step l (l\<lparr>l_watch := Watch_done, l_mgr := fst (Manager_Delete (life_sid l) (l_mgr l))\<rparr>)"
| handler: "l_run l = Run_returned e \<Longrightarrow> life_step l (l\<lparr>l_run := Handler_done e, l_mgr := handler_delete e l\<rparr>)"

definition stuck :: "life \<Rightarrow> bool" where
  "stuck l \<longleftrightarrow> (\<forall>l'. \<not> life_step l l')"

inductive life_reach :: "life \<Rightarrow> life \<Rightarrow> bool" for l0 where
  start: "life_reach l0 l0"
| step: "life_reach l0 l \<Longrightarrow> life_step l l' \<Longrightarrow> life_reach l0 l'"

lemma life_reach_trans: "life_reach l1 l2 \<Longrightarrow> life_reach l0 l1 \<Longrightarrow> life_reach l0 l2"
  by (induction rule: life_reach.induct) (auto intro: life_reach.intros)

lemma stuckD:
  assumes "stuck l"
  shows "l_max l \<le> l_age l" "l_run l \<noteq> Run_off" "l_wsp l \<noteq> Looping" "l_sshp l \<noteq> Looping"
    "l_run l = Run_waiting \<Longrightarrow> l_wsp l \<noteq> Handing e" "l_run l = Run_waiting \<Longrightarrow> l_sshp l \<noteq> Handing e"
    "l_run l \<noteq> Run_failed e" "l_timer l \<noteq> Timer_waiting" "l_watch l \<noteq> Watch_deleting" "l_run l \<noteq> Run_returned e"
    "l_run l = Run_closing e \<Longrightarrow> l_watch l \<noteq> Watch_waiting" "l_timer l = Timer_closing \<Longrightarrow> l_watch l \<noteq> Watch_waiting"
proof -
  have no: "\<And>l'. \<not> life_step l l'" using assms by (simp add: stuck_def)
  show max: "l_max l \<le> l_age l" using no tick by (metis not_less)
  show "l_timer l \<noteq> Timer_waiting" using no expires max by blast
  show "l_run l \<noteq> Run_off" using no run by blast
  show "l_wsp l \<noteq> Looping" using no ws_fails by blast
  show "l_sshp l \<noteq> Looping" using no ssh_fails by blast
  show "l_run l = Run_waiting \<Longrightarrow> l_wsp l \<noteq> Handing e" using no ws_hands by blast
  show "l_run l = Run_waiting \<Longrightarrow> l_sshp l \<noteq> Handing e" using no ssh_hands by blast
  show "l_run l \<noteq> Run_failed e" using no run_closes by blast
  show "l_watch l \<noteq> Watch_deleting" using no watch_deletes by blast
  show "l_run l \<noteq> Run_returned e" using no handler by blast
  show "l_run l = Run_closing e \<Longrightarrow> l_watch l \<noteq> Watch_waiting" using no run_to_watch by blast
  show "l_timer l = Timer_closing \<Longrightarrow> l_watch l \<noteq> Watch_waiting" using no timer_to_watch by blast
qed

section \<open>The invariant\<close>

definition run_sent :: "run_pc \<Rightarrow> bool" where
  "run_sent r \<longleftrightarrow> (case r of Run_returned _ \<Rightarrow> True | Handler_done _ \<Rightarrow> True | _ \<Rightarrow> False)"

text \<open>The error that \<^verbatim>\<open>Run\<close> has taken from a loop, if it has taken one.\<close>

fun run_error :: "run_pc \<Rightarrow> go_error option" where
  "run_error Run_off = None"
| "run_error Run_waiting = None"
| "run_error (Run_failed e) = Some e"
| "run_error (Run_closing e) = Some e"
| "run_error (Run_returned e) = Some e"
| "run_error (Handler_done e) = Some e"

fun handed :: "loop_pc \<Rightarrow> go_error option" where
  "handed (Handed e) = Some e"
| "handed _ = None"

text \<open>Sends and receives on \<^verbatim>\<open>done\<close> that have completed: each send has met one receive.\<close>

definition done_sends :: "life \<Rightarrow> nat" where
  "done_sends l = of_bool (run_sent (l_run l)) + of_bool (l_timer l = Timer_closed)"

definition done_receives :: "life \<Rightarrow> nat" where
  "done_receives l = of_bool (l_timer l = Timer_notified) + of_bool (l_watch l \<noteq> Watch_waiting)"

definition errc_inv :: "life \<Rightarrow> bool" where
  "errc_inv l \<longleftrightarrow>
     (case run_error (l_run l) of
        None \<Rightarrow> handed (l_wsp l) = None \<and> handed (l_sshp l) = None
      | Some e \<Rightarrow> (handed (l_wsp l), handed (l_sshp l)) \<in> {(Some e, None), (None, Some e)}) \<and>
     (l_run l = Run_off \<longleftrightarrow> l_wsp l = Loop_off) \<and> (l_run l = Run_off \<longleftrightarrow> l_sshp l = Loop_off)"

definition open_inv :: "life \<Rightarrow> bool" where
  "open_inv l \<longleftrightarrow>
     (l_open l \<longleftrightarrow> (run_error (l_run l) = None \<or> (\<exists>e. l_run l = Run_failed e)) \<and> l_timer l \<in> {Timer_waiting, Timer_notified}) \<and>
     (l_timer l \<in> {Timer_closing, Timer_closed} \<longrightarrow> l_max l \<le> l_age l) \<and>
     (l_timer l = Timer_notified \<longrightarrow> run_sent (l_run l))"

fun handler_removed :: "session \<Rightarrow> run_pc \<Rightarrow> bool" where
  "handler_removed (Sess_V1 _) (Handler_done e) = True"
| "handler_removed (Sess_V4 _) (Handler_done e) = errors_Is e EOF"
| "handler_removed _ _ = False"

definition removed :: "life \<Rightarrow> bool" where
  "removed l \<longleftrightarrow> l_watch l = Watch_done \<or> handler_removed (l_session l) (l_run l)"

definition registry_inv :: "life \<Rightarrow> bool" where
  "registry_inv l \<longleftrightarrow> mgr_ok (l_mgr l) \<and> mgr_view (l_mgr l) (life_sid l) = (if removed l then None else Some (l_session l))"

definition life_inv :: "life \<Rightarrow> bool" where
  "life_inv l \<longleftrightarrow> done_sends l = done_receives l \<and> errc_inv l \<and> open_inv l \<and> registry_inv l"

lemmas pc_splits = loop_pc.splits run_pc.splits timer_pc.splits watch_pc.splits

lemma life_inv_start:
  assumes "life_start f v m = Some l" and "mgr_ok m"
  shows "life_inv l"
proof -
  obtain m' s where n: "Manager_New f v m = (m', Inr s)"
    and l: "l = \<lparr>l_session = s, l_max = mgr_maxAge m, l_age = 0, l_run = Run_off, l_wsp = Loop_off, l_sshp = Loop_off,
      l_timer = Timer_waiting, l_watch = Watch_waiting, l_open = True, l_mgr = m'\<rparr>"
    using assms(1) by (auto simp: life_start_def split: prod.splits sum.splits)
  from mgr.new_ok [OF assms(2) n] show ?thesis
    by (simp add: l life_inv_def done_sends_def done_receives_def run_sent_def errc_inv_def open_inv_def registry_inv_def
        removed_def life_sid_def)
qed

lemma life_sid_upd [simp]:
  "life_sid (l\<lparr>l_age := a\<rparr>) = life_sid l" "life_sid (l\<lparr>l_run := r\<rparr>) = life_sid l" "life_sid (l\<lparr>l_wsp := w\<rparr>) = life_sid l"
  "life_sid (l\<lparr>l_sshp := w\<rparr>) = life_sid l" "life_sid (l\<lparr>l_timer := t\<rparr>) = life_sid l" "life_sid (l\<lparr>l_watch := x\<rparr>) = life_sid l"
  "life_sid (l\<lparr>l_open := b\<rparr>) = life_sid l" "life_sid (l\<lparr>l_mgr := m\<rparr>) = life_sid l"
  by (simp_all add: life_sid_def)

lemma done_step: "life_step l l' \<Longrightarrow> done_sends l = done_receives l \<Longrightarrow> done_sends l' = done_receives l'"
  by (induction rule: life_step.induct) (simp_all add: done_sends_def done_receives_def run_sent_def)

lemma errc_step: "life_step l l' \<Longrightarrow> errc_inv l \<Longrightarrow> errc_inv l'"
  by (induction rule: life_step.induct) (auto simp: errc_inv_def split: option.splits)

lemma open_step: "life_step l l' \<Longrightarrow> open_inv l \<Longrightarrow> open_inv l'"
  by (induction rule: life_step.induct) (auto simp: open_inv_def run_sent_def)

lemma registry_step_delete:
  "registry_inv l \<Longrightarrow> m' = fst (Manager_Delete (life_sid l) (l_mgr l)) \<Longrightarrow> mgr_ok m' \<and> mgr_view m' (life_sid l) = None"
  using mgr.del_view [of "l_mgr l" "life_sid l"] by (cases "Manager_Delete (life_sid l) (l_mgr l)") (auto simp: registry_inv_def)

lemma registry_life_step: "life_step l l' \<Longrightarrow> registry_inv l \<Longrightarrow> registry_inv l'"
proof (induction rule: life_step.induct)
  case (watch_deletes l)
  then show ?case using registry_step_delete [OF watch_deletes(2) refl] by (simp add: registry_inv_def removed_def)
next
  case (handler l e)
  then show ?case using registry_step_delete [OF handler(2) refl]
    by (auto simp: registry_inv_def removed_def handler_delete_def split: session.splits)
qed (simp_all add: registry_inv_def removed_def)

lemma life_inv_reach: "life_reach l0 l \<Longrightarrow> life_inv l0 \<Longrightarrow> life_inv l"
  by (induction rule: life_reach.induct)
    (auto simp: life_inv_def intro: done_step errc_step open_step registry_life_step)

lemma life_facts:
  assumes "life_start f v m = Some l0" and "mgr_ok m" and "life_reach l0 l"
  shows "done_sends l = done_receives l" "errc_inv l" "open_inv l" "registry_inv l"
  using life_inv_reach [OF assms(3) life_inv_start [OF assms(1,2)]] by (simp_all add: life_inv_def)

section \<open>Every session comes to an end\<close>

text \<open>The number of steps that a session can still take: each goroutine only moves forward.\<close>

fun run_left :: "run_pc \<Rightarrow> nat" where
  "run_left Run_off = 10"
| "run_left Run_waiting = 5"
| "run_left (Run_failed e) = 4"
| "run_left (Run_closing e) = 3"
| "run_left (Run_returned e) = 2"
| "run_left (Handler_done e) = 1"

fun loop_left :: "loop_pc \<Rightarrow> nat" where
  "loop_left Loop_off = 0"
| "loop_left Looping = 2"
| "loop_left (Handing e) = 1"
| "loop_left (Handed e) = 0"

fun timer_left :: "timer_pc \<Rightarrow> nat" where
  "timer_left Timer_waiting = 2"
| "timer_left Timer_closing = 1"
| "timer_left _ = 0"

fun watch_left :: "watch_pc \<Rightarrow> nat" where
  "watch_left Watch_waiting = 2"
| "watch_left Watch_deleting = 1"
| "watch_left Watch_done = 0"

definition life_left :: "life \<Rightarrow> nat" where
  "life_left l = nat (l_max l - l_age l) + run_left (l_run l) + loop_left (l_wsp l) + loop_left (l_sshp l) +
     timer_left (l_timer l) + watch_left (l_watch l)"

lemma life_left_step: "life_step l l' \<Longrightarrow> life_left l' < life_left l"
  by (induction rule: life_step.induct) (simp_all add: life_left_def)

lemma life_left_steps: "(life_step ^^ n) l l' \<Longrightarrow> n + life_left l' \<le> life_left l"
proof (induction n arbitrary: l')
  case (Suc n)
  then obtain k where "(life_step ^^ n) l k" "life_step k l'" by auto
  with Suc.IH [of k] life_left_step [of k l'] show ?case by simp
qed simp


text \<open>
  \<^verbatim>\<open>Run\<close> reports the error that ended the session: when it has returned \<open>e\<close>, \<open>e\<close> is the error of exactly one of the two
  loops, which has ended, the other loop's error (if any) was not taken, and the SSH connection is closed.
\<close>

lemma Run_returns_first_error:
  assumes "life_start f v m = Some l0" and "mgr_ok m" and "life_reach l0 l" and "l_run l \<in> {Run_returned e, Handler_done e}"
  shows "\<not> l_open l \<and> (handed (l_wsp l), handed (l_sshp l)) \<in> {(Some e, None), (None, Some e)}"
proof -
  have "run_error (l_run l) = Some e" and "\<And>e'. l_run l \<noteq> Run_failed e'" using assms(4) by auto
  with life_facts(2,3) [OF assms(1-3)] show ?thesis by (simp add: errc_inv_def open_inv_def)
qed

text \<open>
  The relay closes the SSH connection of a session before one of its loops has failed only when the session's age
  has reached the configured maximum.
\<close>

lemma no_early_close:
  assumes "life_start f v m = Some l0" and "mgr_ok m" and "life_reach l0 l" and "\<not> l_open l" and "run_error (l_run l) = None"
  shows "l_max l \<le> l_age l"
  using life_facts(3) [OF assms(1-3)] assms(4,5) by (cases "l_timer l") (simp_all add: open_inv_def)

text \<open>Where the three goroutines that share \<^verbatim>\<open>done\<close> can be when nothing moves any more.\<close>

lemma stuck_phases:
  assumes "life_start f v m = Some l0" and "mgr_ok m" and "life_reach l0 l" and "stuck l"
  shows "\<exists>e. (l_run l, l_timer l, l_watch l) \<in>
      {(Run_closing e, Timer_closed, Watch_done), (Handler_done e, Timer_closing, Watch_done),
       (Handler_done e, Timer_notified, Watch_waiting)}"
proof -
  note errc = life_facts(2) [OF assms(1-3)] and op = life_facts(3) [OF assms(1-3)] and chan = life_facts(1) [OF assms(1-3)]
  note st = stuckD [OF assms(4)]
  obtain e where run: "l_run l = Run_closing e \<or> l_run l = Handler_done e"
    using st(2,3,4,5,6,7,10) errc by (cases "l_run l"; cases "l_wsp l"; cases "l_sshp l") (simp_all add: errc_inv_def)
  then show ?thesis
    using st(8,9,11,12) chan op
    by (cases "l_timer l"; cases "l_watch l") (auto simp: done_sends_def done_receives_def run_sent_def open_inv_def)
qed

text \<open>
  C5. How a session ends: when no goroutine can move any more, the SSH connection is closed, and yet two goroutines are
  left blocked forever. One loop is stuck handing its error to the unbuffered \<^verbatim>\<open>errc\<close>, from which \<^verbatim>\<open>Run\<close> receives only
  once; and of the request handler, the deadline and the watcher exactly one is stuck on \<^verbatim>\<open>done\<close>, since the three pair
  off as senders and receivers.
\<close>

theorem session_end_states:
  assumes "life_start f v m = Some l0" and "mgr_ok m" and "life_reach l0 l" and "stuck l"
  shows "\<not> l_open l \<and> (\<exists>e. (l_wsp l = Handing e) \<noteq> (l_sshp l = Handing e)) \<and>
    (\<exists>e. (l_run l, l_timer l, l_watch l) \<in>
      {(Run_closing e, Timer_closed, Watch_done), (Handler_done e, Timer_closing, Watch_done),
       (Handler_done e, Timer_notified, Watch_waiting)})"
proof -
  note errc = life_facts(2) [OF assms(1-3)] and op = life_facts(3) [OF assms(1-3)]
  note st = stuckD [OF assms(4)] and ph = stuck_phases [OF assms]
  obtain e where run: "l_run l = Run_closing e \<or> l_run l = Handler_done e" using ph by auto
  have "\<exists>e. (l_wsp l = Handing e) \<noteq> (l_sshp l = Handing e)"
    using run st(3,4) errc by (cases "l_wsp l"; cases "l_sshp l") (auto simp: errc_inv_def)
  moreover have "\<not> l_open l" using run op by (auto simp: open_inv_def)
  ultimately show ?thesis using ph by blast
qed

section \<open>Registration\<close>

lemma life_get: "registry_inv l \<Longrightarrow> Manager_Get (life_sid l) (l_mgr l) = (if removed l then Inl ErrNoSuchSID else Inr (l_session l))"
  by (simp add: registry_inv_def mgr.get_view)

text \<open>
  A corp-relay session that has been used gives its slot back: when its goroutines have come to rest, the manager no
  longer knows its session ID.
\<close>

lemma v1_session_released:
  assumes "life_start f v m = Some l0" and "mgr_ok m" and "life_reach l0 l" and "stuck l" and "l_session l = Sess_V1 s"
  shows "Manager_Get (life_sid l) (l_mgr l) = Inl ErrNoSuchSID"
proof -
  have "removed l" using stuck_phases [OF assms(1-4)] assms(5) by (auto simp: removed_def)
  with life_get [OF life_facts(4) [OF assms(1-3)]] show ?thesis by simp
qed

text \<open>
  A session whose \<^verbatim>\<open>Run\<close> is never called (no /connect request follows the /proxy request, or the upgrade to a WebSocket
  fails) is cleaned up at its deadline: when only a call of \<^verbatim>\<open>Run\<close> could move it, its SSH connection is closed, the deadline
  and the watcher have ended, and the manager no longer knows it.
\<close>

lemma abandoned_session_released:
  assumes "life_start f v m = Some l0" and "mgr_ok m" and "life_reach l0 l" and "l_run l = Run_off"
    and "\<And>l'. life_step l l' \<Longrightarrow> l_run l' \<noteq> Run_off"
  shows "\<not> l_open l \<and> l_timer l = Timer_closed \<and> l_watch l = Watch_done \<and> Manager_Get (life_sid l) (l_mgr l) = Inl ErrNoSuchSID"
proof -
  note op = life_facts(3) [OF assms(1-3)] and chan = life_facts(1) [OF assms(1-3)]
  have "l_max l \<le> l_age l" using assms(4) assms(5) [OF tick] by force
  then have t: "l_timer l \<noteq> Timer_waiting" using assms(4) assms(5) [OF expires] by force
  moreover have w: "l_watch l \<noteq> Watch_deleting" using assms(4) assms(5) [OF watch_deletes] by force
  moreover have "\<not> (l_timer l = Timer_closing \<and> l_watch l = Watch_waiting)" using assms(4) assms(5) [OF timer_to_watch] by force
  ultimately have "l_timer l = Timer_closed \<and> l_watch l = Watch_done"
    using op chan assms(4)
    by (cases "l_timer l"; cases "l_watch l") (auto simp: open_inv_def done_sends_def done_receives_def run_sent_def)
  with life_get [OF life_facts(4) [OF assms(1-3)]] op show ?thesis by (simp add: open_inv_def removed_def)
qed

text \<open>
  An expired session keeps its request handler: once the deadline has closed the session and its token on \<^verbatim>\<open>done\<close> has
  gone to the watcher, no receiver is left, so \<^verbatim>\<open>Run\<close> never returns, in no continuation.
\<close>

lemma expired_Run_never_returns:
  assumes "life_start f v m = Some l0" and "mgr_ok m" and "life_reach l0 l" and "l_timer l = Timer_closed" and "life_reach l l'"
  shows "\<not> run_sent (l_run l')"
proof -
  have "l_timer l' = Timer_closed" using assms(5,4)
    by (induction rule: life_reach.induct) (auto elim!: life_step.cases)
  with life_facts(1) [OF assms(1,2) life_reach_trans [OF assms(5,3)]] show ?thesis
    by (cases "l_watch l' = Watch_waiting") (auto simp: done_sends_def done_receives_def)
qed

section \<open>Two runs\<close>

text \<open>
  In the first run the SSH loop fails with \<open>e\<close>, the WebSocket loop fails too, \<^verbatim>\<open>Run\<close> closes the session, and its token on
  \<^verbatim>\<open>done\<close> is received by the deadline rather than by the watcher. In the second nobody calls \<^verbatim>\<open>Run\<close>, and the deadline passes.
\<close>

definition unnoticed_end :: "go_error \<Rightarrow> life \<Rightarrow> life" where
  "unnoticed_end e l = l\<lparr>l_age := max (l_age l) (l_max l), l_run := Handler_done e, l_wsp := Handing e, l_sshp := Handed e,
     l_timer := Timer_notified, l_open := False, l_mgr := handler_delete e l\<rparr>"

definition expired_end :: "life \<Rightarrow> life" where
  "expired_end l = l\<lparr>l_age := max (l_age l) (l_max l), l_timer := Timer_closed, l_open := False, l_watch := Watch_done,
     l_mgr := fst (Manager_Delete (life_sid l) (l_mgr l))\<rparr>"

lemma ticks_reach: "life_reach l (l\<lparr>l_age := max (l_age l) (l_max l)\<rparr>)"
proof (induction "nat (l_max l - l_age l)" arbitrary: l)
  case 0
  then show ?case by (simp add: max_def life_reach.start)
next
  case (Suc n)
  then have "l_age l < l_max l" by simp
  then have t: "life_step l (l\<lparr>l_age := l_age l + 1\<rparr>)" by (rule tick)
  have "max (l_age l + 1) (l_max l) = max (l_age l) (l_max l)" "n = nat (l_max l - (l_age l + 1))" using Suc(2) by simp_all
  then have "life_reach (l\<lparr>l_age := l_age l + 1\<rparr>) (l\<lparr>l_age := max (l_age l) (l_max l)\<rparr>)"
    using Suc(1) [of "l\<lparr>l_age := l_age l + 1\<rparr>"] by simp
  from life_reach_trans [OF this life_reach.step [OF life_reach.start t]] show ?case .
qed

lemma handler_delete_upd:
  "l_session l' = l_session l \<Longrightarrow> l_mgr l' = l_mgr l \<Longrightarrow> handler_delete e l' = handler_delete e l"
  by (simp add: handler_delete_def life_sid_def split: session.split)

lemma unnoticed_end_reach:
  assumes "l_run l = Run_off" "l_timer l = Timer_waiting" "l_watch l = Watch_waiting"
  shows "life_reach l (unnoticed_end e l)"
proof -
  let ?a = "l\<lparr>l_age := max (l_age l) (l_max l)\<rparr>"
  have 1: "life_reach l (?a\<lparr>l_run := Run_waiting, l_wsp := Looping, l_sshp := Looping\<rparr>)" (is "life_reach _ ?b")
    by (rule life_reach.step [OF ticks_reach], rule run) (simp add: assms)
  have 2: "life_reach l (?b\<lparr>l_wsp := Handing e\<rparr>)" (is "life_reach _ ?c")
    by (rule life_reach.step [OF 1], rule ws_fails) simp
  have 3: "life_reach l (?c\<lparr>l_sshp := Handing e\<rparr>)" (is "life_reach _ ?d")
    by (rule life_reach.step [OF 2], rule ssh_fails) simp
  have 4: "life_reach l (?d\<lparr>l_run := Run_failed e, l_sshp := Handed e\<rparr>)" (is "life_reach _ ?f")
    by (rule life_reach.step [OF 3], rule ssh_hands) simp_all
  have 5: "life_reach l (?f\<lparr>l_run := Run_closing e, l_open := False\<rparr>)" (is "life_reach _ ?g")
    by (rule life_reach.step [OF 4], rule run_closes) simp
  have 6: "life_reach l (?g\<lparr>l_run := Run_returned e, l_timer := Timer_notified\<rparr>)" (is "life_reach _ ?h")
    by (rule life_reach.step [OF 5], rule run_to_timer) (simp_all add: assms)
  have "life_reach l (?h\<lparr>l_run := Handler_done e, l_mgr := handler_delete e ?h\<rparr>)"
    by (rule life_reach.step [OF 6], rule handler) simp
  moreover have "?h\<lparr>l_run := Handler_done e, l_mgr := handler_delete e ?h\<rparr> = unnoticed_end e l"
    by (rule life.equality) (simp_all add: unnoticed_end_def, rule handler_delete_upd, simp_all)
  ultimately show ?thesis by simp
qed

lemma unnoticed_end_stuck: "l_watch l = Watch_waiting \<Longrightarrow> stuck (unnoticed_end e l)"
  by (auto simp: stuck_def unnoticed_end_def elim: life_step.cases)

lemma expired_end_reach:
  assumes "l_timer l = Timer_waiting" "l_watch l = Watch_waiting"
  shows "life_reach l (expired_end l)"
proof -
  let ?a = "l\<lparr>l_age := max (l_age l) (l_max l)\<rparr>"
  have 1: "life_reach l (?a\<lparr>l_timer := Timer_closing, l_open := False\<rparr>)" (is "life_reach _ ?b")
    by (rule life_reach.step [OF ticks_reach], rule expires) (simp_all add: assms)
  have 2: "life_reach l (?b\<lparr>l_timer := Timer_closed, l_watch := Watch_deleting\<rparr>)" (is "life_reach _ ?c")
    by (rule life_reach.step [OF 1], rule timer_to_watch) (simp_all add: assms)
  have "life_reach l (?c\<lparr>l_watch := Watch_done, l_mgr := fst (Manager_Delete (life_sid ?c) (l_mgr ?c))\<rparr>)"
    by (rule life_reach.step [OF 2], rule watch_deletes) simp
  moreover have "?c\<lparr>l_watch := Watch_done, l_mgr := fst (Manager_Delete (life_sid ?c) (l_mgr ?c))\<rparr> = expired_end l"
    by (rule life.equality) (simp_all add: expired_end_def)
  ultimately show ?thesis by simp
qed

lemma life_start_fields:
  assumes "life_start f v m = Some l"
  shows "l_run l = Run_off" "l_timer l = Timer_waiting" "l_watch l = Watch_waiting"
    "\<exists>m'. Manager_New f v m = (m', Inr (l_session l)) \<and> l_mgr l = m'"
  using assms by (auto simp: life_start_def split: prod.splits sum.splits)

text \<open>
  A corp-relay-v4 session may keep its slot forever: for every error other than \<^verbatim>\<open>io.EOF\<close> (an aborted WebSocket, a reset
  connection) there is a run that ends with \<^verbatim>\<open>Run\<close> and the handler finished and nothing left to move, and in which the
  manager still counts the session. The token that \<^verbatim>\<open>Close\<close> sends on \<^verbatim>\<open>done\<close> went to the deadline, and the watcher waits for
  a second one that nobody sends.
\<close>

lemma v4_session_may_leak:
  assumes "life_start f CorpRelayV4 m = Some l0" and "mgr_ok m" and "\<not> errors_Is e EOF"
  shows "\<exists>l. life_reach l0 l \<and> stuck l \<and> l_run l = Handler_done e \<and> \<not> l_open l \<and>
    Manager_Get (life_sid l) (l_mgr l) = Inr (l_session l)"
proof -
  note f = life_start_fields [OF assms(1)]
  have v4: "Sess_V4 (v4_New f Server) = l_session l0"
    using f(4) by (auto simp: Manager_New_def version_session_def split: if_splits)
  have r: "life_reach l0 (unnoticed_end e l0)" by (rule unnoticed_end_reach) (use f in simp_all)
  have "\<not> removed (unnoticed_end e l0)" using assms(3) f by (simp add: removed_def unnoticed_end_def v4 [symmetric])
  with life_get [OF life_facts(4) [OF assms(1,2) r]]
  have "Manager_Get (life_sid (unnoticed_end e l0)) (l_mgr (unnoticed_end e l0)) = Inr (l_session (unnoticed_end e l0))" by simp
  with r unnoticed_end_stuck [OF f(3)] show ?thesis by (intro exI [of _ "unnoticed_end e l0"]) (simp add: unnoticed_end_def)
qed

text \<open>The runs above on concrete sessions: a manager with a limit of one session and a maximum age of 60.\<close>

definition demo :: "ProtocolVersion \<Rightarrow> life" where
  "demo v = the (life_start 5 v (manager_New 1 60))"

lemma demo_start:
  "life_start 5 CorpRelay (manager_New 1 60) = Some (demo CorpRelay)" "life_start 5 CorpRelayV4 (manager_New 1 60) = Some (demo CorpRelayV4)"
  by (simp_all add: demo_def life_start_def Manager_New_def manager_New_def version_session_def)

lemma demo_ok: "mgr_ok (manager_New 1 60)"
  by (simp add: mgr_ok_def manager_New_def)

lemma demo_fields: "l_run (demo CorpRelay) = Run_off" "l_timer (demo CorpRelay) = Timer_waiting" "l_watch (demo CorpRelay) = Watch_waiting"
  "l_max (demo CorpRelay) = 60" "l_age (demo CorpRelay) = 0" "l_session (demo CorpRelay) = Sess_V1 (v1_New 5)"
  by (simp_all add: demo_def life_start_def Manager_New_def manager_New_def version_session_def)

lemma demo_unnoticed: "life_reach (demo CorpRelay) (unnoticed_end ErrUnexpectedEOF (demo CorpRelay))"
  by (rule unnoticed_end_reach) (simp_all add: demo_fields)


theorem session_end_states_witness:
  "\<not> l_open (unnoticed_end ErrUnexpectedEOF (demo CorpRelay)) \<and>
   (\<exists>e. (l_wsp (unnoticed_end ErrUnexpectedEOF (demo CorpRelay)) = Handing e) \<noteq> (l_sshp (unnoticed_end ErrUnexpectedEOF (demo CorpRelay)) = Handing e)) \<and>
   (\<exists>e. (l_run (unnoticed_end ErrUnexpectedEOF (demo CorpRelay)), l_timer (unnoticed_end ErrUnexpectedEOF (demo CorpRelay)),
      l_watch (unnoticed_end ErrUnexpectedEOF (demo CorpRelay))) \<in>
      {(Run_closing e, Timer_closed, Watch_done), (Handler_done e, Timer_closing, Watch_done),
       (Handler_done e, Timer_notified, Watch_waiting)})"
  by (rule session_end_states [OF demo_start(1) demo_ok demo_unnoticed unnoticed_end_stuck]) (rule demo_fields)

end
