(* ===== verification/Connect_Race.thy ===== *)
theory Connect_Race
  imports Lifecycle
begin

text \<open>
  Any number of /connect requests for one corp-relay session (\<^verbatim>\<open>connectHandle\<close> of \<^verbatim>\<open>src/relay/runner/corprelay.go\<close> and \<^verbatim>\<open>Run\<close> and \<^verbatim>\<open>Close\<close> of
  \<^verbatim>\<open>src/session/corprelay/corprelay.go\<close>). Nothing keeps a client from sending the same session ID twice before the first handler has deleted
  it. The handlers are numbered; each holds the session's mutex from the start of \<^verbatim>\<open>Run\<close> until the error has been reported, and closes
  the session after it has released the mutex. Every \<^verbatim>\<open>Run\<close> starts two loops of its own, but the WebSocket is a field of the session, which the
  next \<^verbatim>\<open>Run\<close> overwrites, and which a loop reads again at each of its turns. The deadline and the watcher are those of the theory
  \<open>Lifecycle\<close>; here the deadline may be reached at any time.
\<close>

section \<open>State and steps\<close>

text \<open>
  A handler: not yet there; with the session from \<^verbatim>\<open>Get\<close>; at \<^verbatim>\<open>s.mu.Lock()\<close>; waiting for an error; reporting it; at \<^verbatim>\<open>s.ssh.Close()\<close>, with the mutex
  released; at the send on \<^verbatim>\<open>done\<close>; back from \<^verbatim>\<open>Run\<close>, or without having called it, at the deferred \<^verbatim>\<open>Delete\<close>; finished, with the error of
  \<^verbatim>\<open>Run\<close> if it was called.
\<close>

datatype conn_pc =
    C_off
  | C_got
  | C_locking
  | C_running
  | C_failed go_error
  | C_closing go_error
  | C_sending go_error
  | C_deleting "go_error option"
  | C_done "go_error option"

record connects =
  k_session :: session
  k_h :: "nat \<Rightarrow> conn_pc"
  k_wsp :: "nat \<Rightarrow> loop_pc"
  k_sshp :: "nat \<Rightarrow> loop_pc"
  k_reads :: "nat \<Rightarrow> nat"
  k_ws :: nat
  k_mu :: bool
  k_open :: bool
  k_timer :: timer_pc
  k_watch :: watch_pc
  k_mgr :: manager

definition k_sid :: "connects \<Rightarrow> uuid" where
  "k_sid f = session_SID (k_session f)"

definition connects_start :: "uuid \<Rightarrow> manager \<Rightarrow> connects option" where
  "connects_start fresh m =
     (case Manager_New fresh CorpRelay m of
        (m', Inr s) \<Rightarrow> Some \<lparr>k_session = s, k_h = (\<lambda>_. C_off), k_wsp = (\<lambda>_. Loop_off), k_sshp = (\<lambda>_. Loop_off), k_reads = id, k_ws = 0, k_mu = False,
          k_open = True, k_timer = Timer_waiting, k_watch = Watch_waiting, k_mgr = m'\<rparr>
      | (m', Inl e) \<Rightarrow> None)"

abbreviation handler_at :: "connects \<Rightarrow> nat \<Rightarrow> conn_pc \<Rightarrow> connects" where
  "handler_at f n p \<equiv> f\<lparr>k_h := (k_h f)(n := p)\<rparr>"

definition k_delete :: "connects \<Rightarrow> manager" where
  "k_delete f = fst (Manager_Delete (k_sid f) (k_mgr f))"

text \<open>\<open>k_reads f n\<close> is the connection that the WebSocket loop of handler \<open>n\<close> took from the field at its current turn.\<close>

inductive connect_step :: "connects \<Rightarrow> connects \<Rightarrow> bool" where
  get: "k_h f n = C_off \<Longrightarrow> Manager_Get (k_sid f) (k_mgr f) = Inr s \<Longrightarrow> connect_step f (handler_at f n C_got)"
| unknown: "k_h f n = C_off \<Longrightarrow> Manager_Get (k_sid f) (k_mgr f) = Inl e \<Longrightarrow> connect_step f (handler_at f n (C_done None))"
| rejected: "k_h f n = C_got \<Longrightarrow> connect_step f (handler_at f n (C_deleting None))"
| upgraded: "k_h f n = C_got \<Longrightarrow> connect_step f (handler_at f n C_locking)"
| lock: "k_h f n = C_locking \<Longrightarrow> \<not> k_mu f \<Longrightarrow> connect_step f (handler_at f n C_running
    \<lparr>k_mu := True, k_ws := n, k_wsp := (k_wsp f)(n := Looping), k_sshp := (k_sshp f)(n := Looping), k_reads := (k_reads f)(n := n)\<rparr>)"
| ws_turn: "k_wsp f n = Looping \<Longrightarrow> connect_step f (f\<lparr>k_reads := (k_reads f)(n := k_ws f)\<rparr>)"
| ws_fails: "k_wsp f n = Looping \<Longrightarrow> connect_step f (f\<lparr>k_wsp := (k_wsp f)(n := Handing e)\<rparr>)"
| ssh_fails: "k_sshp f n = Looping \<Longrightarrow> connect_step f (f\<lparr>k_sshp := (k_sshp f)(n := Handing e)\<rparr>)"
| ws_hands: "k_h f n = C_running \<Longrightarrow> k_wsp f n = Handing e \<Longrightarrow> connect_step f (handler_at f n (C_failed e)\<lparr>k_wsp := (k_wsp f)(n := Handed e)\<rparr>)"
| ssh_hands: "k_h f n = C_running \<Longrightarrow> k_sshp f n = Handing e \<Longrightarrow> connect_step f (handler_at f n (C_failed e)\<lparr>k_sshp := (k_sshp f)(n := Handed e)\<rparr>)"
| unlock: "k_h f n = C_failed e \<Longrightarrow> connect_step f (handler_at f n (C_closing e)\<lparr>k_mu := False\<rparr>)"
| closes: "k_h f n = C_closing e \<Longrightarrow> connect_step f (handler_at f n (C_sending e)\<lparr>k_open := False\<rparr>)"
| send_timer: "k_h f n = C_sending e \<Longrightarrow> k_timer f = Timer_waiting \<Longrightarrow> connect_step f (handler_at f n (C_deleting (Some e))\<lparr>k_timer := Timer_notified\<rparr>)"
| send_watch: "k_h f n = C_sending e \<Longrightarrow> k_watch f = Watch_waiting \<Longrightarrow> connect_step f (handler_at f n (C_deleting (Some e))\<lparr>k_watch := Watch_deleting\<rparr>)"
| deletes: "k_h f n = C_deleting r \<Longrightarrow> connect_step f (handler_at f n (C_done r)\<lparr>k_mgr := k_delete f\<rparr>)"
| expires: "k_timer f = Timer_waiting \<Longrightarrow> connect_step f (f\<lparr>k_timer := Timer_closing, k_open := False\<rparr>)"
| timer_watch: "k_timer f = Timer_closing \<Longrightarrow> k_watch f = Watch_waiting \<Longrightarrow> connect_step f (f\<lparr>k_timer := Timer_closed, k_watch := Watch_deleting\<rparr>)"
| watch_deletes: "k_watch f = Watch_deleting \<Longrightarrow> connect_step f (f\<lparr>k_watch := Watch_done, k_mgr := k_delete f\<rparr>)"

inductive connect_reach :: "connects \<Rightarrow> connects \<Rightarrow> bool" for f0 where
  start: "connect_reach f0 f0"
| step: "connect_reach f0 f \<Longrightarrow> connect_step f f' \<Longrightarrow> connect_reach f0 f'"

lemma connect_reach_trans: "connect_reach f1 f2 \<Longrightarrow> connect_reach f0 f1 \<Longrightarrow> connect_reach f0 f2"
  by (induction rule: connect_reach.induct) (auto intro: connect_reach.intros)

section \<open>The invariant\<close>

fun in_run :: "conn_pc \<Rightarrow> bool" where
  "in_run C_running = True"
| "in_run (C_failed e) = True"
| "in_run _ = False"

fun has_sent :: "conn_pc \<Rightarrow> bool" where
  "has_sent (C_deleting (Some e)) = True"
| "has_sent (C_done (Some e)) = True"
| "has_sent _ = False"

lemma has_sent_iff: "has_sent p \<longleftrightarrow> (\<exists>e. p = C_deleting (Some e) \<or> p = C_done (Some e))"
  by (cases p rule: has_sent.cases) auto

fun closed :: "conn_pc \<Rightarrow> bool" where
  "closed (C_sending e) = True"
| "closed p = has_sent p"

lemma has_sent_closed: "has_sent p \<Longrightarrow> closed p"
  by (cases p) simp_all

fun finished :: "conn_pc \<Rightarrow> bool" where
  "finished (C_done r) = True"
| "finished _ = False"

definition k_removed :: "connects \<Rightarrow> bool" where
  "k_removed f \<longleftrightarrow> k_watch f = Watch_done \<or> {n. finished (k_h f n)} \<noteq> {}"

definition mutex_inv :: "connects \<Rightarrow> bool" where
  "mutex_inv f \<longleftrightarrow> (if k_mu f then \<exists>n. {m. in_run (k_h f m)} = {n} else {m. in_run (k_h f m)} = {})"

definition loops_inv :: "connects \<Rightarrow> bool" where
  "loops_inv f \<longleftrightarrow> (\<forall>n. k_h f n = C_running \<longrightarrow> k_wsp f n \<noteq> Loop_off \<and> handed (k_wsp f n) = None)"

definition send_inv :: "connects \<Rightarrow> bool" where
  "send_inv f \<longleftrightarrow> finite {n. has_sent (k_h f n)} \<and>
     card {n. has_sent (k_h f n)} + of_bool (k_timer f = Timer_closed) = of_bool (k_timer f = Timer_notified) + of_bool (k_watch f \<noteq> Watch_waiting)"

definition closed_inv :: "connects \<Rightarrow> bool" where
  "closed_inv f \<longleftrightarrow> (k_open f \<longleftrightarrow> {n. closed (k_h f n)} = {} \<and> k_timer f \<notin> {Timer_closing, Timer_closed}) \<and>
     (k_timer f = Timer_notified \<longrightarrow> {n. has_sent (k_h f n)} \<noteq> {})"

definition known_inv :: "connects \<Rightarrow> bool" where
  "known_inv f \<longleftrightarrow> mgr_ok (k_mgr f) \<and> mgr_view (k_mgr f) (k_sid f) = (if k_removed f then None else Some (k_session f))"

definition connects_inv :: "connects \<Rightarrow> bool" where
  "connects_inv f \<longleftrightarrow> mutex_inv f \<and> loops_inv f \<and> send_inv f \<and> closed_inv f \<and> known_inv f"

lemma connects_inv_start:
  assumes "connects_start u m = Some f" and "mgr_ok m"
  shows "connects_inv f"
proof -
  obtain m' s where n: "Manager_New u CorpRelay m = (m', Inr s)"
    and f: "f = \<lparr>k_session = s, k_h = (\<lambda>_. C_off), k_wsp = (\<lambda>_. Loop_off), k_sshp = (\<lambda>_. Loop_off), k_reads = id, k_ws = 0, k_mu = False,
          k_open = True, k_timer = Timer_waiting, k_watch = Watch_waiting, k_mgr = m'\<rparr>"
    using assms(1) by (auto simp: connects_start_def split: prod.splits sum.splits)
  from mgr.new_ok [OF assms(2) n] show ?thesis
    by (simp add: f connects_inv_def mutex_inv_def loops_inv_def send_inv_def closed_inv_def known_inv_def k_removed_def k_sid_def)
qed

text \<open>What a move of one handler does to the set of the handlers in some phase.\<close>

lemma phase_update: "{m. P ((h(n := p)) m)} = (if P p then insert n {m. P (h m)} else {m. P (h m)} - {n})"
  by auto

lemma phase_same: "P (h n) = P p \<Longrightarrow> {m. P ((h(n := p)) m)} = {m. P (h m)}"
  by auto

lemma only_holder: "mutex_inv f \<Longrightarrow> in_run (k_h f n) \<Longrightarrow> k_mu f \<and> {m. in_run (k_h f m)} = {n}"
proof -
  assume f: "mutex_inv f" "in_run (k_h f n)"
  then have "n \<in> {m. in_run (k_h f m)}" by simp
  with f(1) show ?thesis unfolding mutex_inv_def by (metis empty_iff singletonD)
qed

lemma mutex_step: "connect_step f f' \<Longrightarrow> mutex_inv f \<Longrightarrow> mutex_inv f'"
proof (induction rule: connect_step.induct)
  case (ws_hands f n e)
  with only_holder [of f n] show ?case by (simp add: mutex_inv_def phase_update del: fun_upd_apply)
next
  case (ssh_hands f n e)
  with only_holder [of f n] show ?case by (simp add: mutex_inv_def phase_update del: fun_upd_apply)
next
  case (unlock f n e)
  with only_holder [of f n] show ?case by (simp add: mutex_inv_def phase_update del: fun_upd_apply)
qed (simp_all add: mutex_inv_def phase_update del: fun_upd_apply)

lemma loops_step: "connect_step f f' \<Longrightarrow> loops_inv f \<Longrightarrow> loops_inv f'"
  by (induction rule: connect_step.induct) (auto simp: loops_inv_def)

lemma send_step: "connect_step f f' \<Longrightarrow> send_inv f \<Longrightarrow> send_inv f'"
proof (induction rule: connect_step.induct)
  case (deletes f n r)
  then have "has_sent (k_h f n) = has_sent (C_done r)" by (cases r) simp_all
  with deletes phase_same [of has_sent "k_h f" n "C_done r"] show ?case by (simp add: send_inv_def del: fun_upd_apply)
qed (simp_all add: send_inv_def phase_update del: fun_upd_apply)

lemma closed_step: "connect_step f f' \<Longrightarrow> closed_inv f \<Longrightarrow> closed_inv f'"
proof (induction rule: connect_step.induct)
  case (deletes f n r)
  then have "has_sent (k_h f n) = has_sent (C_done r)" "closed (k_h f n) = closed (C_done r)" by (cases r; simp)+
  with deletes phase_same [of has_sent "k_h f" n "C_done r"] phase_same [of closed "k_h f" n "C_done r"] show ?case
    by (simp add: closed_inv_def del: fun_upd_apply)
next
  case (send_timer f n e)
  then have "\<exists>m. closed (k_h f m)" by (metis closed.simps(1))
  with send_timer show ?case by (auto simp: closed_inv_def phase_update simp del: fun_upd_apply)
next
  case (send_watch f n e)
  then have "\<exists>m. closed (k_h f m)" by (metis closed.simps(1))
  with send_watch show ?case by (auto simp: closed_inv_def phase_update simp del: fun_upd_apply)
qed (simp_all add: closed_inv_def phase_update del: fun_upd_apply)

lemma known_delete:
  "known_inv f \<Longrightarrow> mgr_ok (k_delete f) \<and> mgr_view (k_delete f) (k_sid f) = None"
  using mgr.del_view [of "k_mgr f" "k_sid f" "k_delete f"] by (cases "Manager_Delete (k_sid f) (k_mgr f)") (auto simp: known_inv_def k_delete_def)

lemma k_sid_upd [simp]:
  "k_sid (f\<lparr>k_h := h\<rparr>) = k_sid f" "k_sid (f\<lparr>k_wsp := w\<rparr>) = k_sid f" "k_sid (f\<lparr>k_sshp := w\<rparr>) = k_sid f" "k_sid (f\<lparr>k_reads := r\<rparr>) = k_sid f"
  "k_sid (f\<lparr>k_ws := i\<rparr>) = k_sid f" "k_sid (f\<lparr>k_mu := b\<rparr>) = k_sid f" "k_sid (f\<lparr>k_open := b\<rparr>) = k_sid f" "k_sid (f\<lparr>k_timer := t\<rparr>) = k_sid f"
  "k_sid (f\<lparr>k_watch := x\<rparr>) = k_sid f" "k_sid (f\<lparr>k_mgr := m\<rparr>) = k_sid f"
  by (simp_all add: k_sid_def)

lemma known_step: "connect_step f f' \<Longrightarrow> known_inv f \<Longrightarrow> known_inv f'"
proof (induction rule: connect_step.induct)
  case (unknown f n e)
  then have "k_removed f" by (auto simp: known_inv_def mgr.get_view split: if_splits)
  with unknown show ?case by (auto simp: known_inv_def k_removed_def phase_update simp del: fun_upd_apply)
next
  case (deletes f n r)
  with known_delete [OF deletes(2)] show ?case by (simp add: known_inv_def k_removed_def phase_update del: fun_upd_apply)
next
  case (watch_deletes f)
  with known_delete [OF watch_deletes(2)] show ?case by (simp add: known_inv_def k_removed_def)
qed (simp_all add: known_inv_def k_removed_def phase_update del: fun_upd_apply)

lemma connects_inv_step: "connect_step f f' \<Longrightarrow> connects_inv f \<Longrightarrow> connects_inv f'"
  unfolding connects_inv_def using mutex_step loops_step send_step closed_step known_step by blast

lemma connects_inv_reach: "connect_reach f0 f \<Longrightarrow> connects_inv f0 \<Longrightarrow> connects_inv f"
  by (induction rule: connect_reach.induct) (auto intro: connects_inv_step)

section \<open>Runs do not overlap, their loops do\<close>

lemma connects_start_fields:
  assumes "connects_start u m = Some f" and "mgr_ok m"
  shows "k_h f = (\<lambda>_. C_off)" "k_wsp f = (\<lambda>_. Loop_off)" "\<not> k_mu f" "k_open f" "k_timer f = Timer_waiting" "k_watch f = Watch_waiting"
    "Manager_Get (k_sid f) (k_mgr f) = Inr (k_session f)"
proof -
  show h: "k_h f = (\<lambda>_. C_off)" "k_wsp f = (\<lambda>_. Loop_off)" "\<not> k_mu f" "k_open f" "k_timer f = Timer_waiting" "k_watch f = Watch_waiting"
    using assms(1) by (auto simp: connects_start_def split: prod.splits sum.splits)
  have "known_inv f" using connects_inv_start [OF assms] by (simp add: connects_inv_def)
  then show "Manager_Get (k_sid f) (k_mgr f) = Inr (k_session f)" using h by (simp add: known_inv_def k_removed_def mgr.get_view)
qed

text \<open>A request that comes while the session is registered gets as far as the mutex.\<close>

lemma connects_arrive:
  assumes "connect_reach f0 f" and "k_h f n = C_off" and "Manager_Get (k_sid f) (k_mgr f) = Inr s"
  shows "connect_reach f0 (handler_at f n C_locking)"
proof -
  have "connect_reach f0 (handler_at f n C_got)" by (rule connect_reach.step [OF assms(1) connect_step.get [of f n, OF assms(2,3)]])
  from connect_reach.step [OF this connect_step.upgraded [of _ n]] show ?thesis by simp
qed

lemma loops_may_cross:
  assumes "connects_start u m = Some f0" and "mgr_ok m"
  shows "\<exists>f. connect_reach f0 f \<and> k_open f \<and> k_h f 1 = C_running \<and> k_wsp f 0 = Looping \<and> k_wsp f 1 = Looping \<and> k_reads f 0 = 1 \<and> k_reads f 1 = 1"
proof -
  note f0 = connects_start_fields [OF assms]
  have "connect_reach f0 (handler_at f0 0 C_locking)" (is "connect_reach _ ?a")
    by (rule connects_arrive [OF connect_reach.start _ f0(7)]) (simp add: f0)
  then have "connect_reach f0 (handler_at ?a 1 C_locking)" (is "connect_reach _ ?b") by (rule connects_arrive) (simp_all add: f0)
  from connect_reach.step [OF this connect_step.lock [of _ 0]]
  obtain f1 where "connect_reach f0 f1" "k_h f1 0 = C_running" "k_h f1 1 = C_locking" "k_wsp f1 0 = Looping" "k_sshp f1 0 = Looping" "k_open f1"
    by (simp add: f0)
  note f1 = this
  from connect_reach.step [OF f1(1) connect_step.ssh_fails [OF f1(5), of EOF]] f1
  obtain f2 where "connect_reach f0 f2" "k_h f2 0 = C_running" "k_h f2 1 = C_locking" "k_wsp f2 0 = Looping" "k_sshp f2 0 = Handing EOF" "k_open f2"
    by simp
  note f2 = this
  from connect_reach.step [OF f2(1) connect_step.ssh_hands [OF f2(2,5)]] f2
  obtain f3 where "connect_reach f0 f3" "k_h f3 0 = C_failed EOF" "k_h f3 1 = C_locking" "k_wsp f3 0 = Looping" "k_open f3" by simp
  note f3 = this
  from connect_reach.step [OF f3(1) connect_step.unlock [OF f3(2)]] f3
  obtain f4 where "connect_reach f0 f4" "k_h f4 1 = C_locking" "k_wsp f4 0 = Looping" "k_open f4" "\<not> k_mu f4" by simp
  note f4 = this
  from connect_reach.step [OF f4(1) connect_step.lock [OF f4(2,5)]] f4
  obtain f5 where "connect_reach f0 f5" "k_h f5 1 = C_running" "k_wsp f5 0 = Looping" "k_wsp f5 1 = Looping" "k_ws f5 = 1" "k_reads f5 1 = 1" "k_open f5" by simp
  note f5 = this
  from connect_reach.step [OF f5(1) connect_step.ws_turn [OF f5(3)]] f5
  show ?thesis by (intro exI [of _ "f5\<lparr>k_reads := (k_reads f5)(0 := k_ws f5)\<rparr>"]) simp
qed

text \<open>
  C18. The mutex of a corp-relay session keeps its \<^verbatim>\<open>Run\<close>s apart, but not their loops. However many /connect requests name one session, at most one
  handler is between taking the mutex and reporting its error. Yet a loop that an earlier \<^verbatim>\<open>Run\<close> has left behind reads the connection from the
  session at its next turn, and so can come to read the WebSocket of a later request, at the same time as that request's own
  loop and with the SSH connection still open.
\<close>

theorem runs_exclude_but_loops_cross:
  assumes "connects_start u m = Some f0" and "mgr_ok m"
  shows "(\<forall>f. connect_reach f0 f \<longrightarrow> (\<forall>i j. in_run (k_h f i) \<and> in_run (k_h f j) \<longrightarrow> i = j) \<and> (k_mu f \<longleftrightarrow> (\<exists>i. in_run (k_h f i)))) \<and>
    (\<exists>f. connect_reach f0 f \<and> k_open f \<and> k_h f 1 = C_running \<and> k_wsp f 0 = Looping \<and> k_wsp f 1 = Looping \<and> k_reads f 0 = 1 \<and> k_reads f 1 = 1)"
proof (intro conjI allI impI)
  fix f assume "connect_reach f0 f"
  then have f: "mutex_inv f" using connects_inv_reach connects_inv_start [OF assms] by (simp add: connects_inv_def)
  { fix i j assume "in_run (k_h f i) \<and> in_run (k_h f j)"
    with only_holder [OF f, of i] only_holder [OF f, of j] show "i = j" by (metis singleton_inject) }
  show "k_mu f \<longleftrightarrow> (\<exists>i. in_run (k_h f i))" using f by (auto simp: mutex_inv_def split: if_splits)
next
  show "\<exists>f. connect_reach f0 f \<and> k_open f \<and> k_h f 1 = C_running \<and> k_wsp f 0 = Looping \<and> k_wsp f 1 = Looping \<and> k_reads f 0 = 1 \<and> k_reads f 1 = 1"
    using loops_may_cross [OF assms] .
qed

text \<open>
  C30. The deferred \<^verbatim>\<open>Delete\<close> of a /connect request that is rejected (for its cookie, or because it is no WebSocket request) hits a session that another
  request is running: the manager then no longer knows a session whose SSH connection is open, so it does not count against the limit.
\<close>

theorem rejected_request_frees_slot:
  assumes "connects_start u m = Some f0" and "mgr_ok m"
  shows "\<exists>f. connect_reach f0 f \<and> k_open f \<and> k_h f 0 = C_running \<and> k_h f 1 = C_done None \<and> Manager_Get (k_sid f) (k_mgr f) = Inl ErrNoSuchSID"
proof -
  note f0 = connects_start_fields [OF assms]
  have 1: "connect_reach f0 (handler_at f0 0 C_locking)" (is "connect_reach _ ?a")
    by (rule connects_arrive [OF connect_reach.start _ f0(7)]) (simp add: f0)
  have 2: "connect_reach f0 (handler_at ?a 1 C_got)" (is "connect_reach _ ?b")
    by (rule connect_reach.step [OF 1], rule connect_step.get) (simp_all add: f0)
  have 3: "connect_reach f0 (handler_at ?b 0 C_running
    \<lparr>k_mu := True, k_ws := 0, k_wsp := (k_wsp ?b)(0 := Looping), k_sshp := (k_sshp ?b)(0 := Looping), k_reads := (k_reads ?b)(0 := 0)\<rparr>)"
    (is "connect_reach _ ?c") by (rule connect_reach.step [OF 2], rule connect_step.lock) (simp_all add: f0)
  have 4: "connect_reach f0 (handler_at ?c 1 (C_deleting None))" (is "connect_reach _ ?d")
    by (rule connect_reach.step [OF 3], rule connect_step.rejected) simp
  have 5: "connect_reach f0 (handler_at ?d 1 (C_done None)\<lparr>k_mgr := k_delete ?d\<rparr>)" (is "connect_reach _ ?e")
    by (rule connect_reach.step [OF 4], rule connect_step.deletes) simp
  then have "known_inv ?e" using connects_inv_reach connects_inv_start [OF assms] by (simp only: connects_inv_def)
  moreover have h: "k_open ?e" "k_h ?e 0 = C_running" "k_h ?e 1 = C_done None" by (simp_all add: f0)
  then have "finished (k_h ?e 1)" by simp
  then have "k_removed ?e" unfolding k_removed_def by blast
  ultimately have "Manager_Get (k_sid ?e) (k_mgr ?e) = Inl ErrNoSuchSID" unfolding known_inv_def mgr.get_view by simp
  with 5 h show ?thesis by blast
qed

section \<open>What is left at the end\<close>

text \<open>No step is left but that a new request arrives.\<close>

definition quiet :: "connects \<Rightarrow> bool" where
  "quiet f \<longleftrightarrow> (\<forall>f'. connect_step f f' \<longrightarrow> (\<exists>n. k_h f n = C_off \<and> k_h f' n \<noteq> C_off))"

lemma quietD:
  assumes "quiet f"
  shows "k_h f n \<noteq> C_got" "k_h f n = C_locking \<Longrightarrow> k_mu f" "k_wsp f n \<noteq> Looping" "k_h f n = C_running \<Longrightarrow> k_wsp f n \<noteq> Handing e"
    "k_h f n \<noteq> C_failed e" "k_h f n \<noteq> C_closing e" "k_h f n \<noteq> C_deleting r" "k_h f n = C_sending e \<Longrightarrow> k_watch f \<noteq> Watch_waiting"
    "k_timer f \<noteq> Timer_waiting" "k_timer f = Timer_closing \<Longrightarrow> k_watch f \<noteq> Watch_waiting" "k_watch f \<noteq> Watch_deleting"
proof -
  have no: "connect_step f f' \<Longrightarrow> \<exists>m. k_h f m = C_off \<and> k_h f' m \<noteq> C_off" for f'
    using assms unfolding quiet_def by blast
  show "k_h f n \<noteq> C_got" using no [OF connect_step.rejected [of f n]] by (auto split: if_splits)
  show "k_h f n = C_locking \<Longrightarrow> k_mu f" using no [OF connect_step.lock [of f n]] by (cases "k_mu f") (auto split: if_splits)
  show "k_wsp f n \<noteq> Looping" using no [OF connect_step.ws_fails [of f n EOF]] by (auto split: if_splits)
  show "k_h f n = C_running \<Longrightarrow> k_wsp f n \<noteq> Handing e" using no [OF connect_step.ws_hands [of f n e]] by (auto split: if_splits)
  show "k_h f n \<noteq> C_failed e" using no [OF connect_step.unlock [of f n e]] by (auto split: if_splits)
  show "k_h f n \<noteq> C_closing e" using no [OF connect_step.closes [of f n e]] by (auto split: if_splits)
  show "k_h f n \<noteq> C_deleting r" using no [OF connect_step.deletes [of f n r]] by (auto split: if_splits)
  show "k_h f n = C_sending e \<Longrightarrow> k_watch f \<noteq> Watch_waiting" using no [OF connect_step.send_watch [of f n e]] by (auto split: if_splits)
  show "k_timer f \<noteq> Timer_waiting" using no [OF connect_step.expires [of f]] by (auto split: if_splits)
  show "k_timer f = Timer_closing \<Longrightarrow> k_watch f \<noteq> Watch_waiting" using no [OF connect_step.timer_watch [of f]] by (auto split: if_splits)
  show "k_watch f \<noteq> Watch_deleting" using no [OF connect_step.watch_deletes [of f]] by (auto split: if_splits)
qed

lemma quiet_handlers:
  assumes "connects_inv f" and "quiet f"
  shows "k_h f n = C_off \<or> (\<exists>r. k_h f n = C_done r) \<or> (\<exists>e. k_h f n = C_sending e)"
proof -
  note q = quietD [OF assms(2)]
  have inv: "mutex_inv f" "loops_inv f" using assms(1) by (simp_all add: connects_inv_def)
  have "\<not> in_run (k_h f m)" for m
  proof (cases "k_h f m")
    case C_running
    with inv(2) have "k_wsp f m \<noteq> Loop_off" "handed (k_wsp f m) = None" by (simp_all add: loops_inv_def)
    moreover have "k_wsp f m \<noteq> Handing e" for e using q(4) C_running .
    ultimately show ?thesis using q(3) [of m] by (cases "k_wsp f m") auto
  qed (use q(5) [of m] in auto)
  with inv(1) have "\<not> k_mu f" by (auto simp: mutex_inv_def split: if_splits)
  with q(1,2,5,6,7) [of n] \<open>\<not> in_run (k_h f n)\<close> show ?thesis by (cases "k_h f n") auto
qed

lemma sending_stays:
  assumes "connect_reach f f'" and "k_h f n = C_sending e" and "k_timer f \<noteq> Timer_waiting" and "k_watch f \<noteq> Watch_waiting"
  shows "k_h f' n = C_sending e \<and> k_timer f' \<noteq> Timer_waiting \<and> k_watch f' \<noteq> Watch_waiting"
  using assms
proof (induction rule: connect_reach.induct)
  case (step g g')
  then have "k_h g n = C_sending e" "k_timer g \<noteq> Timer_waiting" "k_watch g \<noteq> Watch_waiting" by simp_all
  with step(2) show ?case by (induction rule: connect_step.induct) auto
qed simp

lemma quiet_removed:
  assumes "connects_inv f" and "quiet f"
  shows "k_removed f"
proof -
  note q = quietD [OF assms(2)]
  have inv: "send_inv f" "closed_inv f" using assms(1) by (simp_all add: connects_inv_def)
  show ?thesis
  proof (cases "k_timer f")
    case Timer_notified
    with inv(2) obtain n where "has_sent (k_h f n)" by (auto simp: closed_inv_def)
    with quiet_handlers [OF assms, of n] have "finished (k_h f n)" by auto
    then show ?thesis by (auto simp: k_removed_def)
  next
    case Timer_closed
    with inv(1) have "k_watch f \<noteq> Watch_waiting" by (auto simp: send_inv_def split: if_splits)
    with q(11) show ?thesis by (cases "k_watch f") (auto simp: k_removed_def)
  next
    case Timer_closing
    with q(10,11) show ?thesis by (cases "k_watch f") (auto simp: k_removed_def)
  qed (use q(9) in simp)
qed

text \<open>
  C17. However many /connect requests run one session, at most two of their handlers return from \<^verbatim>\<open>Run\<close>: when nothing is left to do but to wait
  for new requests, the SSH connection is closed, the session is not registered any more (so new requests are answered with 400), and every
  other handler that has run it is blocked in \<^verbatim>\<open>Close\<close> and remains so, whatever happens later.
\<close>

theorem extra_connects_never_return:
  assumes "connects_start u m = Some f0" and "mgr_ok m" and "connect_reach f0 f" and "quiet f"
  shows "\<not> k_open f \<and> Manager_Get (k_sid f) (k_mgr f) = Inl ErrNoSuchSID \<and>
    finite {n. \<exists>e. k_h f n = C_done (Some e)} \<and> card {n. \<exists>e. k_h f n = C_done (Some e)} \<le> 2 \<and>
    (\<forall>n. k_h f n = C_off \<or> (\<exists>r. k_h f n = C_done r) \<or>
       (\<exists>e. k_h f n = C_sending e \<and> (\<forall>f'. connect_reach f f' \<longrightarrow> k_h f' n = C_sending e)))"
proof -
  have inv: "connects_inv f" using connects_inv_reach [OF assms(3) connects_inv_start [OF assms(1,2)]] .
  then have c: "send_inv f" "closed_inv f" "known_inv f" by (simp_all add: connects_inv_def)
  note q = quietD [OF assms(4)] and h = quiet_handlers [OF inv assms(4)] and r = quiet_removed [OF inv assms(4)]
  have "has_sent (k_h f n) \<longleftrightarrow> (\<exists>e. k_h f n = C_done (Some e))" for n using h [of n] by (auto simp: has_sent_iff)
  then have s: "{n. has_sent (k_h f n)} = {n. \<exists>e. k_h f n = C_done (Some e)}" by simp
  have "\<not> k_open f"
    using c(2) q(9) has_sent_closed by (cases "k_timer f") (auto simp: closed_inv_def)
  moreover have "Manager_Get (k_sid f) (k_mgr f) = Inl ErrNoSuchSID" using c(3) r by (simp add: known_inv_def mgr.get_view)
  moreover have "finite {n. \<exists>e. k_h f n = C_done (Some e)} \<and> card {n. \<exists>e. k_h f n = C_done (Some e)} \<le> 2"
    using c(1) unfolding send_inv_def s by (auto simp: of_bool_def split: if_splits)
  moreover have "k_h f n = C_sending e \<longrightarrow> (\<forall>f'. connect_reach f f' \<longrightarrow> k_h f' n = C_sending e)" for n e
    using sending_stays [of f _ n e] q(8) [of n e] q(9) by blast
  ultimately show ?thesis using h by blast
qed

section \<open>Three requests for one session\<close>

text \<open>A handler at the mutex goes all the way to the send on \<^verbatim>\<open>done\<close>, both of its loops failing.\<close>

lemma run_through:
  assumes "connect_reach f0 f" and "k_h f n = C_locking" and "\<not> k_mu f"
  shows "\<exists>f'. connect_reach f0 f' \<and> k_h f' = (k_h f)(n := C_sending EOF) \<and> k_wsp f' = (k_wsp f)(n := Handed EOF) \<and>
    k_sshp f' = (k_sshp f)(n := Handing EOF) \<and> \<not> k_mu f' \<and> k_timer f' = k_timer f \<and> k_watch f' = k_watch f"
proof -
  have 1: "connect_reach f0 (handler_at f n C_running
    \<lparr>k_mu := True, k_ws := n, k_wsp := (k_wsp f)(n := Looping), k_sshp := (k_sshp f)(n := Looping), k_reads := (k_reads f)(n := n)\<rparr>)"
    (is "connect_reach _ ?a") by (rule connect_reach.step [OF assms(1) connect_step.lock [OF assms(2,3)]])
  have 2: "connect_reach f0 (?a\<lparr>k_wsp := (k_wsp ?a)(n := Handing EOF)\<rparr>)" (is "connect_reach _ ?b")
    by (rule connect_reach.step [OF 1], rule connect_step.ws_fails) simp
  have 3: "connect_reach f0 (?b\<lparr>k_sshp := (k_sshp ?b)(n := Handing EOF)\<rparr>)" (is "connect_reach _ ?c")
    by (rule connect_reach.step [OF 2], rule connect_step.ssh_fails) simp
  have 4: "connect_reach f0 (handler_at ?c n (C_failed EOF)\<lparr>k_wsp := (k_wsp ?c)(n := Handed EOF)\<rparr>)" (is "connect_reach _ ?d")
    by (rule connect_reach.step [OF 3], rule connect_step.ws_hands) simp_all
  have 5: "connect_reach f0 (handler_at ?d n (C_closing EOF)\<lparr>k_mu := False\<rparr>)" (is "connect_reach _ ?e")
    by (rule connect_reach.step [OF 4], rule connect_step.unlock) simp
  have 6: "connect_reach f0 (handler_at ?e n (C_sending EOF)\<lparr>k_open := False\<rparr>)" (is "connect_reach _ ?g")
    by (rule connect_reach.step [OF 5], rule connect_step.closes) simp
  then show ?thesis by (intro exI [of _ ?g]) simp
qed

lemma runs_through:
  assumes "connect_reach f0 f" and "k_h f = (\<lambda>_. C_off)(0 := C_locking, 1 := C_locking, 2 := C_locking)" and "\<not> k_mu f"
  shows "\<exists>f'. connect_reach f0 f' \<and> k_h f' = (\<lambda>_. C_off)(0 := C_sending EOF, 1 := C_sending EOF, 2 := C_sending EOF) \<and>
    k_wsp f' = (k_wsp f)(0 := Handed EOF, 1 := Handed EOF, 2 := Handed EOF) \<and>
    k_sshp f' = (k_sshp f)(0 := Handing EOF, 1 := Handing EOF, 2 := Handing EOF) \<and> \<not> k_mu f' \<and> k_timer f' = k_timer f \<and> k_watch f' = k_watch f"
proof -
  from run_through [OF assms(1), of 0] assms(2,3) obtain a where a: "connect_reach f0 a"
    "k_h a = (\<lambda>_. C_off)(0 := C_sending EOF, 1 := C_locking, 2 := C_locking)" "k_wsp a = (k_wsp f)(0 := Handed EOF)"
    "k_sshp a = (k_sshp f)(0 := Handing EOF)" "\<not> k_mu a" "k_timer a = k_timer f" "k_watch a = k_watch f"
    by (auto simp: fun_upd_twist)
  from run_through [OF a(1), of 1] a obtain b where b: "connect_reach f0 b"
    "k_h b = (\<lambda>_. C_off)(0 := C_sending EOF, 1 := C_sending EOF, 2 := C_locking)" "k_wsp b = (k_wsp f)(0 := Handed EOF, 1 := Handed EOF)"
    "k_sshp b = (k_sshp f)(0 := Handing EOF, 1 := Handing EOF)" "\<not> k_mu b" "k_timer b = k_timer f" "k_watch b = k_watch f"
    by (auto simp: fun_upd_twist)
  from run_through [OF b(1), of 2] b show ?thesis by (auto simp: fun_upd_twist)
qed

definition demo_connects :: connects where
  "demo_connects = the (connects_start 5 (manager_New 1 60))"

lemma demo_connects_start: "connects_start 5 (manager_New 1 60) = Some demo_connects"
  by (simp add: demo_connects_def connects_start_def Manager_New_def manager_New_def version_session_def)

text \<open>The first to finish meets the deadline, the second the watcher, and the third nobody.\<close>

lemma demo_three:
  "\<exists>f. connect_reach demo_connects f \<and> quiet f \<and> k_h f = (\<lambda>_. C_off)(0 := C_done (Some EOF), 1 := C_done (Some EOF), 2 := C_sending EOF)"
proof -
  note d = connects_start_fields [OF demo_connects_start demo_ok]
  have l: "k_sshp demo_connects = (\<lambda>_. Loop_off)" by (simp add: demo_connects_def connects_start_def Manager_New_def manager_New_def version_session_def)
  have "connect_reach demo_connects (handler_at demo_connects 0 C_locking)"
    by (rule connects_arrive [OF connect_reach.start _ d(7)]) (simp add: d)
  then have "connect_reach demo_connects (handler_at (handler_at demo_connects 0 C_locking) 1 C_locking)"
    by (rule connects_arrive) (simp_all add: d)
  then have "connect_reach demo_connects (handler_at (handler_at (handler_at demo_connects 0 C_locking) 1 C_locking) 2 C_locking)"
    by (rule connects_arrive) (simp_all add: d)
  from runs_through [OF this] d l obtain f where f: "connect_reach demo_connects f"
    "k_h f = (\<lambda>_. C_off)(0 := C_sending EOF, 1 := C_sending EOF, 2 := C_sending EOF)"
    "k_wsp f = (\<lambda>_. Loop_off)(0 := Handed EOF, 1 := Handed EOF, 2 := Handed EOF)"
    "k_sshp f = (\<lambda>_. Loop_off)(0 := Handing EOF, 1 := Handing EOF, 2 := Handing EOF)" "\<not> k_mu f" "k_timer f = Timer_waiting" "k_watch f = Watch_waiting"
    by auto
  have 1: "connect_reach demo_connects (handler_at f 0 (C_deleting (Some EOF))\<lparr>k_timer := Timer_notified\<rparr>)" (is "connect_reach _ ?a")
    by (rule connect_reach.step [OF f(1)], rule connect_step.send_timer) (simp_all add: f)
  have 2: "connect_reach demo_connects (handler_at ?a 1 (C_deleting (Some EOF))\<lparr>k_watch := Watch_deleting\<rparr>)" (is "connect_reach _ ?b")
    by (rule connect_reach.step [OF 1], rule connect_step.send_watch) (simp_all add: f)
  have 3: "connect_reach demo_connects (?b\<lparr>k_watch := Watch_done, k_mgr := k_delete ?b\<rparr>)" (is "connect_reach _ ?c")
    by (rule connect_reach.step [OF 2], rule connect_step.watch_deletes) simp
  have 4: "connect_reach demo_connects (handler_at ?c 0 (C_done (Some EOF))\<lparr>k_mgr := k_delete ?c\<rparr>)" (is "connect_reach _ ?d")
    by (rule connect_reach.step [OF 3], rule connect_step.deletes) (simp add: f)
  have 5: "connect_reach demo_connects (handler_at ?d 1 (C_done (Some EOF))\<lparr>k_mgr := k_delete ?d\<rparr>)" (is "connect_reach _ ?e")
    by (rule connect_reach.step [OF 4], rule connect_step.deletes) (simp add: f)
  have h: "k_h ?e = (\<lambda>_. C_off)(0 := C_done (Some EOF), 1 := C_done (Some EOF), 2 := C_sending EOF)"
    "k_wsp ?e = (\<lambda>_. Loop_off)(0 := Handed EOF, 1 := Handed EOF, 2 := Handed EOF)"
    "k_sshp ?e = (\<lambda>_. Loop_off)(0 := Handing EOF, 1 := Handing EOF, 2 := Handing EOF)" "k_timer ?e = Timer_notified" "k_watch ?e = Watch_done"
    by (auto simp: f)
  have "quiet e" if "k_h e = k_h ?e" "k_wsp e = k_wsp ?e" "k_sshp e = k_sshp ?e" "k_timer e = Timer_notified" "k_watch e = Watch_done" for e
    unfolding quiet_def
  proof (intro allI impI)
    fix e' assume s: "connect_step e e'"
    from s that(1-3) [unfolded h] that(4,5) show "\<exists>n. k_h e n = C_off \<and> k_h e' n \<noteq> C_off"
      by cases (auto split: if_splits)
  qed
  then have "quiet ?e" using h(4,5) by blast
  with 5 h(1) show ?thesis by blast
qed

theorem runs_exclude_but_loops_cross_witness:
  "\<exists>f. connect_reach demo_connects f \<and> k_h f 1 = C_running \<and> k_reads f 0 = 1 \<and> k_reads f 1 = 1"
  using runs_exclude_but_loops_cross [OF demo_connects_start demo_ok] by blast

theorem rejected_request_frees_slot_witness:
  "\<exists>f. connect_reach demo_connects f \<and> k_open f \<and> k_h f 0 = C_running \<and> Manager_Get (k_sid f) (k_mgr f) = Inl ErrNoSuchSID"
  using rejected_request_frees_slot [OF demo_connects_start demo_ok] by blast

theorem extra_connects_never_return_witness:
  "\<exists>f. connect_reach demo_connects f \<and> k_h f 2 = C_sending EOF \<and> \<not> k_open f \<and> card {n. \<exists>e. k_h f n = C_done (Some e)} \<le> 2"
proof -
  obtain f where f: "connect_reach demo_connects f" "quiet f"
    "k_h f = (\<lambda>_. C_off)(0 := C_done (Some EOF), 1 := C_done (Some EOF), 2 := C_sending EOF)" using demo_three by blast
  from extra_connects_never_return [OF demo_connects_start demo_ok f(1,2)] f show ?thesis by (intro exI [of _ f]) simp
qed

end
