(* ===== verification/Net_Url.thy ===== *)
theory Net_Url
  imports Relay_Prelude "HOL-Library.List_Lexorder" "HOL-Library.Char_ord"
begin

text \<open>
  What the program uses of Go's \<^verbatim>\<open>net/url\<close>, \<^verbatim>\<open>strconv\<close> and \<^verbatim>\<open>net\<close>: query strings (escaping, \<^verbatim>\<open>Values\<close>, \<^verbatim>\<open>Encode\<close>, \<^verbatim>\<open>ParseQuery\<close>),
  \<^verbatim>\<open>ParseUint\<close>, and host and port. The main result is that a query encoded by one side is read back by the other.
\<close>

section \<open>Query escaping\<close>

definition is_digit :: "char \<Rightarrow> bool" where
  "is_digit c \<longleftrightarrow> 48 \<le> (of_char c :: nat) \<and> (of_char c :: nat) \<le> 57"

definition unreserved :: "char \<Rightarrow> bool" where
  "unreserved c \<longleftrightarrow> is_digit c \<or> 65 \<le> (of_char c :: nat) \<and> (of_char c :: nat) \<le> 90 \<or>
     97 \<le> (of_char c :: nat) \<and> (of_char c :: nat) \<le> 122 \<or> c \<in> set ''-_.~''"

definition upper_hex :: "nat \<Rightarrow> char" where
  "upper_hex d = (if d < 10 then char_of (48 + d) else char_of (55 + d))"

definition unhex :: "char \<Rightarrow> nat option" where
  "unhex c =
     (let n = of_char c in
      if 48 \<le> n \<and> n \<le> 57 then Some (n - 48) else if 97 \<le> n \<and> n \<le> 102 then Some (n - 87)
      else if 65 \<le> n \<and> n \<le> 70 then Some (n - 55) else None)"

definition escape_char :: "char \<Rightarrow> string" where
  "escape_char c = (if c = CHR '' '' then ''+'' else if unreserved c then [c]
     else [CHR ''%'', upper_hex (of_char c div 16), upper_hex (of_char c mod 16)])"

definition QueryEscape :: "string \<Rightarrow> string" where
  "QueryEscape s = concat (map escape_char s)"

text \<open>\<^verbatim>\<open>QueryUnescape\<close>; \<open>None\<close> is its error.\<close>

fun unescape_step :: "string \<Rightarrow> (char \<times> string) option" where
  "unescape_step [] = None"
| "unescape_step (c # s) =
     (if c = CHR ''%'' then
        (case s of a # b # r \<Rightarrow>
           (case (unhex a, unhex b) of (Some x, Some y) \<Rightarrow> Some (char_of (16 * x + y), r) | _ \<Rightarrow> None)
         | _ \<Rightarrow> None)
      else if c = CHR ''+'' then Some (CHR '' '', s) else Some (c, s))"

lemma unescape_step_length: "unescape_step s = Some (c, r) \<Longrightarrow> length r < length s"
  by (cases s) (auto split: if_splits list.splits option.splits)

function QueryUnescape :: "string \<Rightarrow> string option" where
  "QueryUnescape s =
     (if s = [] then Some []
      else case unescape_step s of
        None \<Rightarrow> None
      | Some (c, r) \<Rightarrow> (case QueryUnescape r of None \<Rightarrow> None | Some t \<Rightarrow> Some (c # t)))"
  by pat_completeness auto

termination
  by (relation "measure length") (auto dest: unescape_step_length)

declare QueryUnescape.simps [simp del]

lemma unhex_upper_hex [simp]: "d < 16 \<Longrightarrow> unhex (upper_hex d) = Some d"
  by (auto simp: unhex_def upper_hex_def Let_def)

lemma char_less: "(of_char c :: nat) < 256"
proof -
  have "(of_char c :: nat) = of_char (char_of (of_char c :: nat) :: char)" by simp
  also have "\<dots> = of_char c mod 256" by (simp only: of_char_of)
  finally show ?thesis by (metis mod_less_divisor zero_less_numeral)
qed

lemma unescape_escape_char: "unescape_step (escape_char c @ r) = Some (c, r)"
proof -
  have "(of_char c :: nat) div 16 < 16" using char_less [of c] by (simp add: div_less_iff_less_mult)
  moreover have "\<not> unreserved (CHR ''%'')" "\<not> unreserved (CHR ''+'')"
    by (simp_all add: unreserved_def is_digit_def)
  ultimately show ?thesis by (auto simp: escape_char_def)
qed

lemma QueryUnescape_escape [simp]: "QueryUnescape (QueryEscape s) = Some s"
proof (induction s)
  case Nil
  show ?case by (simp add: QueryEscape_def QueryUnescape.simps)
next
  case (Cons c s)
  have "escape_char c \<noteq> []" by (simp add: escape_char_def)
  with Cons unescape_escape_char [of c "QueryEscape s"] show ?case
    by (subst QueryUnescape.simps) (simp add: QueryEscape_def)
qed

lemma unreserved_ne: "\<not> unreserved (CHR ''%'')" "\<not> unreserved (CHR ''+'')" "\<not> unreserved (CHR ''&'')" "\<not> unreserved (CHR '';'')" "\<not> unreserved (CHR ''='')"
  by (simp_all add: unreserved_def is_digit_def)

text \<open>A string of unreserved characters needs no escaping.\<close>

lemma QueryUnescape_plain: "list_all unreserved s \<Longrightarrow> QueryUnescape s = Some s"
proof (induction s)
  case (Cons c s)
  then have "c \<noteq> CHR ''%''" "c \<noteq> CHR ''+''" using unreserved_ne by auto
  with Cons show ?case by (subst QueryUnescape.simps) simp
qed (simp add: QueryUnescape.simps)

text \<open>An escaped string has none of the characters that structure a query.\<close>

lemma upper_hex_ne: "d < 16 \<Longrightarrow> upper_hex d \<notin> {CHR ''&'', CHR ''='', CHR '';''}"
  using unhex_upper_hex [of d] by (auto simp: unhex_def simp del: unhex_upper_hex)

lemma escape_char_safe: "x \<in> set (escape_char c) \<Longrightarrow> x \<notin> {CHR ''&'', CHR ''='', CHR '';''}"
proof -
  assume x: "x \<in> set (escape_char c)"
  have "(of_char c :: nat) div 16 < 16" "(of_char c :: nat) mod 16 < 16" using char_less [of c] by (simp_all add: div_less_iff_less_mult)
  then have "upper_hex (of_char c div 16) \<notin> {CHR ''&'', CHR ''='', CHR '';''}" "upper_hex (of_char c mod 16) \<notin> {CHR ''&'', CHR ''='', CHR '';''}"
    using upper_hex_ne by blast+
  moreover have "\<not> unreserved (CHR ''&'')" "\<not> unreserved (CHR ''='')" "\<not> unreserved (CHR '';'')"
    by (simp_all add: unreserved_def is_digit_def)
  ultimately show ?thesis using x by (auto simp: escape_char_def split: if_splits)
qed

lemma QueryEscape_safe [simp]: "CHR ''&'' \<notin> set (QueryEscape s)" "CHR ''='' \<notin> set (QueryEscape s)" "CHR '';'' \<notin> set (QueryEscape s)"
  using escape_char_safe by (fastforce simp: QueryEscape_def)+

section \<open>Values\<close>

text \<open>
  \<^verbatim>\<open>url.Values\<close> as the list of its pairs; only the order among the values of one key matters.
\<close>

type_synonym url_values = "(string \<times> string) list"

definition Values_Get :: "string \<Rightarrow> url_values \<Rightarrow> string" where
  "Values_Get k vs = (case filter (\<lambda>p. fst p = k) vs of [] \<Rightarrow> [] | p # _ \<Rightarrow> snd p)"

definition Values_Set :: "string \<Rightarrow> string \<Rightarrow> url_values \<Rightarrow> url_values" where
  "Values_Set k v vs = filter (\<lambda>p. fst p \<noteq> k) vs @ [(k, v)]"

definition Values_Add :: "string \<Rightarrow> string \<Rightarrow> url_values \<Rightarrow> url_values" where
  "Values_Add k v vs = vs @ [(k, v)]"

definition encode_pair :: "string \<times> string \<Rightarrow> string" where
  "encode_pair p = QueryEscape (fst p) @ ''='' @ QueryEscape (snd p)"

fun join_amp :: "string list \<Rightarrow> string" where
  "join_amp [] = []"
| "join_amp [s] = s"
| "join_amp (s # t # ss) = s @ ''&'' @ join_amp (t # ss)"

definition Values_Encode :: "url_values \<Rightarrow> string" where
  "Values_Encode vs = join_amp (map encode_pair (sort_key fst vs))"

fun cut :: "char \<Rightarrow> string \<Rightarrow> string \<times> string" where
  "cut c [] = ([], [])"
| "cut c (x # s) = (if x = c then ([], s) else (x # fst (cut c s), snd (cut c s)))"

lemma cut_length: "length (snd (cut c s)) \<le> length s"
  by (induction s) auto

lemma cut_shorter: "s \<noteq> [] \<Longrightarrow> length (snd (cut c s)) < length s"
  using cut_length [of c "tl s"] by (cases s) auto

definition parse_pair :: "string \<Rightarrow> url_values" where
  "parse_pair kv =
     (if CHR '';'' \<in> set kv then [] else if kv = [] then []
      else let (k, v) = cut (CHR ''='') kv in
        (case (QueryUnescape k, QueryUnescape v) of (Some k', Some v') \<Rightarrow> [(k', v')] | _ \<Rightarrow> []))"

function ParseQuery :: "string \<Rightarrow> url_values" where
  "ParseQuery q = (if q = [] then [] else parse_pair (fst (cut (CHR ''&'') q)) @ ParseQuery (snd (cut (CHR ''&'') q)))"
  by pat_completeness auto

termination
  by (relation "measure length") (auto dest: cut_shorter)

declare ParseQuery.simps [simp del]

lemma ParseQuery_Nil [simp]: "ParseQuery [] = []"
  by (simp add: ParseQuery.simps)

lemma cut_found: "c \<notin> set s \<Longrightarrow> cut c (s @ c # t) = (s, t)"
  by (induction s) auto

lemma cut_none: "c \<notin> set s \<Longrightarrow> cut c s = (s, [])"
  by (induction s) auto

lemma parse_encode_pair [simp]: "parse_pair (encode_pair p) = [p]"
  by (simp add: parse_pair_def encode_pair_def cut_found)

lemma amp_encode_pair: "CHR ''&'' \<notin> set (encode_pair p)"
  by (simp add: encode_pair_def)

lemma ParseQuery_join: "ParseQuery (join_amp (map encode_pair ps)) = ps"
proof (induction "map encode_pair ps" arbitrary: ps rule: join_amp.induct)
  case (2 s)
  then obtain p where p: "ps = [p]" "s = encode_pair p" by (cases ps) auto
  have "encode_pair p \<noteq> []" by (simp add: encode_pair_def)
  then show ?case by (subst ParseQuery.simps) (simp add: p cut_none amp_encode_pair)
next
  case (3 s t ss)
  then obtain p q qs where p: "ps = p # q # qs" by (metis list.exhaust list.simps(8,9) list.distinct(1) list.inject)
  have "ParseQuery (join_amp (map encode_pair (q # qs))) = q # qs"
    by (rule 3(1)) (use 3(2) p in auto)
  then show ?case
    by (subst ParseQuery.simps) (simp add: p cut_found amp_encode_pair)
qed simp

lemma ParseQuery_single:
  assumes "list_all unreserved k" "list_all unreserved v"
  shows "ParseQuery (k @ ''='' @ v) = [(k, v)]"
proof -
  have ne: "x \<notin> set k \<and> x \<notin> set v" if "\<not> unreserved x" for x using assms that by (auto simp: list_all_iff)
  have "CHR ''&'' \<notin> set (k @ ''='' @ v)" "CHR '';'' \<notin> set (k @ ''='' @ v)" "CHR ''='' \<notin> set k"
    using ne [OF unreserved_ne(3)] ne [OF unreserved_ne(4)] ne [OF unreserved_ne(5)] by simp_all
  then show ?thesis
    by (subst ParseQuery.simps) (simp add: cut_none parse_pair_def cut_found QueryUnescape_plain assms)
qed

text \<open>A query that was encoded is read back, value by value.\<close>

lemma Values_Get_sort [simp]: "Values_Get k (sort_key fst vs) = Values_Get k vs"
  by (simp add: Values_Get_def sort_key_stable)

lemma ParseQuery_Encode [simp]: "Values_Get k (ParseQuery (Values_Encode vs)) = Values_Get k vs"
  by (simp add: Values_Encode_def ParseQuery_join)

lemma Values_Get_simps [simp]:
  "Values_Get k [] = []" "Values_Get k ((k', v) # vs) = (if k = k' then v else Values_Get k vs)"
  by (auto simp: Values_Get_def)

lemma Values_Get_Set [simp]: "Values_Get k (Values_Set k' v vs) = (if k = k' then v else Values_Get k vs)"
proof (cases "k = k'")
  case False
  then have "filter (\<lambda>p. fst p = k) (filter (\<lambda>p. fst p \<noteq> k') vs) = filter (\<lambda>p. fst p = k) vs"
    by (auto intro!: filter_cong simp: filter_filter)
  with False show ?thesis by (simp add: Values_Get_def Values_Set_def)
qed (simp add: Values_Get_def Values_Set_def filter_False)

lemma Values_Get_Add: "Values_Get k (Values_Add k' v vs) =
    (if filter (\<lambda>p. fst p = k) vs = [] \<and> k = k' then v else Values_Get k vs)"
  by (auto simp: Values_Get_def Values_Add_def split: list.splits)

section \<open>Unsigned numbers\<close>

text \<open>
  \<^verbatim>\<open>strconv.ParseUint(s, 10, 64)\<close>: the loop keeps the value so far at 64 bits, with the two overflow tests of the library;
  \<open>cutoff\<close> is \<open>(2^64 - 1) / 10 + 1\<close>. Of its errors only their being there matters to the callers.
\<close>

definition uint_cutoff :: "64 word" where "uint_cutoff = 1844674407370955162"

fun parse_digits :: "64 word \<Rightarrow> string \<Rightarrow> 64 word \<times> go_error option" where
  "parse_digits n [] = (n, None)"
| "parse_digits n (c # s) =
     (if \<not> is_digit c then (0, Some (NewError ''invalid syntax''))
      else if uint_cutoff \<le> n then (- 1, Some (NewError ''value out of range''))
      else let n' = n * 10; n1 = n' + (of_char c - 48) in
        if n1 < n' then (- 1, Some (NewError ''value out of range'')) else parse_digits n1 s)"

definition ParseUint :: "string \<Rightarrow> 64 word \<times> go_error option" where
  "ParseUint s = (if s = [] then (0, Some (NewError ''invalid syntax'')) else parse_digits 0 s)"

text \<open>The number that a string of digits denotes.\<close>

definition decimal :: "nat \<Rightarrow> string \<Rightarrow> nat" where
  "decimal = foldl (\<lambda>a c. 10 * a + (of_char c - 48))"

lemma decimal_simps [simp]: "decimal a [] = a" "decimal a (c # s) = decimal (10 * a + (of_char c - 48)) s"
  by (simp_all add: decimal_def)

lemma decimal_append: "decimal a (s @ t) = decimal (decimal a s) t"
  by (simp add: decimal_def)

lemma decimal_ge: "a \<le> decimal a s"
proof (induction s arbitrary: a)
  case (Cons c s)
  have "a \<le> 10 * a + (of_char c - 48)" by simp
  also have "\<dots> \<le> decimal a (c # s)" using Cons by simp
  finally show ?case .
qed simp

lemma digit_step:
  assumes "is_digit c" and "n < uint_cutoff"
  defines "d \<equiv> of_char c - 48"
  shows "unat (n * 10) = 10 * unat n"
    "n * 10 + (of_char c - 48) < n * 10 \<longleftrightarrow> 2 ^ 64 \<le> 10 * unat n + d"
    "10 * unat n + d < 2 ^ 64 \<Longrightarrow> unat (n * 10 + (of_char c - 48)) = 10 * unat n + d"
proof -
  have n: "unat n < 1844674407370955162" using assms(2) by (simp add: uint_cutoff_def word_less_nat_alt)
  then show u: "unat (n * 10) = 10 * unat n" by (simp add: unat_word_ariths)
  have d: "d \<le> 9" using assms(1) unfolding d_def is_digit_def by linarith
  have "(of_char c :: 64 word) = of_nat (of_char c)" by (simp only: of_nat_of_char)
  moreover have "(of_char c :: nat) = 48 + d" using assms(1) by (simp add: d_def is_digit_def)
  ultimately have w: "(of_char c :: 64 word) - 48 = of_nat d" by (simp only: of_nat_add of_nat_numeral) simp
  have ud: "unat (of_nat d :: 64 word) = d" using d by (simp add: unat_of_nat)
  have sum: "unat (n * 10 + of_nat d) = (10 * unat n + d) mod 2 ^ 64" by (simp add: unat_word_ariths ud mod_add_left_eq mult.commute)
  show "n * 10 + (of_char c - 48) < n * 10 \<longleftrightarrow> 2 ^ 64 \<le> 10 * unat n + d"
    unfolding w word_less_nat_alt sum u using n d by (auto simp: mod_if)
  show "10 * unat n + d < 2 ^ 64 \<Longrightarrow> unat (n * 10 + (of_char c - 48)) = 10 * unat n + d"
    unfolding w sum by simp
qed

lemma parse_digits_ok:
  "parse_digits n s = (w, None) \<longleftrightarrow> list_all is_digit s \<and> decimal (unat n) s < 2 ^ 64 \<and> w = of_nat (decimal (unat n) s)"
proof (induction s arbitrary: n)
  case Nil
  have "unat n < 2 ^ 64" using unsigned_less [of n, where 'a = nat] by simp
  then show ?case by auto
next
  case (Cons c s)
  let ?d = "of_char c - 48 :: nat"
  show ?case
  proof (cases "is_digit c \<and> n < uint_cutoff")
    case True
    then have c: "is_digit c" "n < uint_cutoff" and nc: "\<not> uint_cutoff \<le> n" by auto
    show ?thesis
    proof (cases "2 ^ 64 \<le> 10 * unat n + ?d")
      case True
      then have "2 ^ 64 \<le> decimal (unat n) (c # s)" using decimal_ge [of "10 * unat n + ?d" s] by simp
      then show ?thesis using digit_step(2) [OF c] True c nc by (simp add: Let_def)
    next
      case False
      then have "unat (n * 10 + (of_char c - 48)) = 10 * unat n + ?d" using digit_step(3) [OF c] by simp
      then show ?thesis using digit_step(2) [OF c] False c Cons.IH [of "n * 10 + (of_char c - 48)"] nc by (simp add: Let_def)
    qed
  next
    case False
    show ?thesis
    proof (cases "is_digit c")
      case True
      with False have "1844674407370955162 \<le> unat n" by (simp add: uint_cutoff_def word_less_nat_alt not_less)
      then have "2 ^ 64 \<le> decimal (unat n) (c # s)" using decimal_ge [of "10 * unat n + ?d" s] by simp
      with True False show ?thesis by (simp add: not_less)
    qed simp
  qed
qed

lemma ParseUint_ok:
  "ParseUint s = (w, None) \<longleftrightarrow> s \<noteq> [] \<and> list_all is_digit s \<and> decimal 0 s < 2 ^ 64 \<and> w = of_nat (decimal 0 s)"
  using parse_digits_ok [of 0 s w] by (simp add: ParseUint_def)

lemma digit_char_digit: "d < 10 \<Longrightarrow> is_digit (digit_char d) \<and> of_char (digit_char d) - 48 = d"
  by (simp add: is_digit_def digit_char_def)

lemma itoa_decimal: "list_all is_digit (itoa n) \<and> decimal 0 (itoa n) = n \<and> itoa n \<noteq> []"
proof (induction n rule: itoa.induct)
  case (1 n)
  show ?case
  proof (cases "n < 10")
    case True
    then show ?thesis by (subst (1 2 3) itoa.simps) (simp add: digit_char_digit)
  next
    case False
    with 1 have "list_all is_digit (itoa (n div 10)) \<and> decimal 0 (itoa (n div 10)) = n div 10" by blast
    with False show ?thesis by (subst (1 2 3) itoa.simps) (simp add: decimal_append digit_char_digit)
  qed
qed

lemma ParseUint_itoa [simp]: "n < 2 ^ 64 \<Longrightarrow> ParseUint (itoa n) = (of_nat n, None)"
  by (simp add: ParseUint_ok itoa_decimal)

section \<open>Hosts and ports\<close>

definition JoinHostPort :: "string \<Rightarrow> string \<Rightarrow> string" where
  "JoinHostPort host port = (if CHR '':'' \<in> set host then ''['' @ host @ '']:'' @ port else host @ '':'' @ port)"

text \<open>The part before and the part after the last occurrence of a character.\<close>

fun cut_last :: "char \<Rightarrow> string \<Rightarrow> (string \<times> string) option" where
  "cut_last c [] = None"
| "cut_last c (x # s) =
     (case cut_last c s of Some (a, b) \<Rightarrow> Some (x # a, b) | None \<Rightarrow> if x = c then Some ([], s) else None)"

lemma cut_last_found: "c \<notin> set t \<Longrightarrow> cut_last c (s @ c # t) = Some (s, t)"
proof (induction s)
  case Nil
  have "c \<notin> set t \<Longrightarrow> cut_last c t = None" by (induction t) auto
  with Nil show ?case by simp
qed simp

lemma cut_last_None: "cut_last c s = None \<longleftrightarrow> c \<notin> set s"
  by (induction s) (auto split: option.splits)

lemma cut_last_Some: "cut_last c s = Some (a, b) \<Longrightarrow> s = a @ c # b \<and> c \<notin> set b"
  by (induction s arbitrary: a) (auto split: option.splits if_splits simp: cut_last_None)

text \<open>\<^verbatim>\<open>net.SplitHostPort\<close>; its errors are values of \<^verbatim>\<open>net.AddrError\<close>, here their texts.\<close>

definition SplitHostPort :: "string \<Rightarrow> go_error + string \<times> string" where
  "SplitHostPort hp =
     (case cut_last (CHR '':'') hp of
        None \<Rightarrow> Inl (NewError ''missing port in address'')
      | Some (before, port) \<Rightarrow>
          if hp ! 0 = CHR ''['' then
            (if CHR '']'' \<notin> set hp then Inl (NewError ''missing ']' in address'')
             else let inner = fst (cut (CHR '']'') hp); rest = snd (cut (CHR '']'') hp) in
               if rest = [] then Inl (NewError ''missing port in address'')
               else if length inner + 1 \<noteq> length before then
                 Inl (NewError (if rest ! 0 = CHR '':'' then ''too many colons in address'' else ''missing port in address''))
               else if CHR ''['' \<in> set (drop 1 hp) then Inl (NewError ''unexpected '[' in address'')
               else if CHR '']'' \<in> set rest then Inl (NewError ''unexpected ']' in address'')
               else Inr (drop 1 inner, port))
          else if CHR '':'' \<in> set before then Inl (NewError ''too many colons in address'')
          else if CHR ''['' \<in> set hp then Inl (NewError ''unexpected '[' in address'')
          else if CHR '']'' \<in> set hp then Inl (NewError ''unexpected ']' in address'')
          else Inr (before, port))"

lemma SplitHostPort_Join:
  assumes "CHR ''['' \<notin> set h" "CHR '']'' \<notin> set h" "list_all is_digit p"
  shows "SplitHostPort (JoinHostPort h p) = Inr (h, p)"
proof -
  have p: "x \<notin> set p" if "x \<in> {CHR '':'', CHR ''['', CHR '']''}" for x
    using assms(3) that by (auto simp: list_all_iff is_digit_def)
  show ?thesis
  proof (cases "CHR '':'' \<in> set h")
    case True
    have "cut_last (CHR '':'') (CHR ''['' # h @ CHR '']'' # CHR '':'' # p) = Some (CHR ''['' # h @ [CHR '']''], p)"
      using cut_last_found [of "CHR '':''" p "CHR ''['' # h @ [CHR '']'']"] p by simp
    moreover have "cut (CHR '']'') (h @ CHR '']'' # CHR '':'' # p) = (h, CHR '':'' # p)" by (rule cut_found [OF assms(2)])
    ultimately show ?thesis using True assms(1) p by (simp add: JoinHostPort_def SplitHostPort_def Let_def)
  next
    case False
    have "cut_last (CHR '':'') (h @ CHR '':'' # p) = Some (h, p)" using p by (simp add: cut_last_found)
    moreover have "(h @ CHR '':'' # p) ! 0 \<noteq> CHR ''[''" using assms(1) by (cases h) auto
    ultimately show ?thesis using False assms(1,2) p by (simp add: JoinHostPort_def SplitHostPort_def)
  qed
qed

text \<open>\<^verbatim>\<open>URL.Hostname\<close> and \<^verbatim>\<open>URL.Port\<close> of a URL with the given \<^verbatim>\<open>Host\<close>.\<close>

definition strip_brackets :: "string \<Rightarrow> string" where
  "strip_brackets h = (if h \<noteq> [] \<and> hd h = CHR ''['' \<and> last h = CHR '']'' then butlast (tl h) else h)"

definition url_split :: "string \<Rightarrow> string \<times> string" where
  "url_split hp =
     (case cut_last (CHR '':'') hp of
        Some (h, p) \<Rightarrow> if list_all is_digit p then (strip_brackets h, p) else (strip_brackets hp, [])
      | None \<Rightarrow> (strip_brackets hp, []))"

lemma url_split_Join:
  assumes "CHR ''['' \<notin> set h" "list_all is_digit p"
  shows "url_split (JoinHostPort h p) = (h, p)"
proof -
  have p: "CHR '':'' \<notin> set p" using assms(2) by (auto simp: list_all_iff is_digit_def)
  have "h = [] \<or> hd h \<noteq> CHR ''[''" using assms(1) by (cases h) auto
  with assms(2) p cut_last_found [of "CHR '':''" p h] cut_last_found [of "CHR '':''" p "CHR ''['' # h @ [CHR '']'']"] show ?thesis
    by (auto simp: url_split_def JoinHostPort_def strip_brackets_def)
qed

end
