(* ===== verification/Url_Text.thy ===== *)
theory Url_Text
  imports Net_Url
begin

text \<open>
  The text form of URLs in Go's \<^verbatim>\<open>net/url\<close>: \<^verbatim>\<open>URL.String\<close>, by which the helper builds the addresses it dials, and \<^verbatim>\<open>url.Parse\<close>, by which
  the HTTP and WebSocket clients read them. The parser covers the form \<^verbatim>\<open>scheme://host/path?query#fragment\<close>, the only one that the program
  produces: relative and opaque URLs and user information are refused here. The main result is that a text made from a URL is read as that very
  URL or refused, whatever the host is, so a host cannot change what is requested.
\<close>

record url =
  u_Scheme :: string
  u_Host :: string
  u_Path :: string
  u_RawQuery :: string

section \<open>Escaping\<close>

definition percent :: "char \<Rightarrow> string" where
  "percent c = [CHR ''%'', upper_hex (of_char c div 16), upper_hex (of_char c mod 16)]"

definition escape_with :: "(char \<Rightarrow> bool) \<Rightarrow> string \<Rightarrow> string" where
  "escape_with plain s = concat (map (\<lambda>c. if plain c then [c] else percent c) s)"

text \<open>The bytes that \<^verbatim>\<open>shouldEscape\<close> leaves alone in a host and in a path; 34 and 39 are the two quotes.\<close>

definition host_plain :: "char \<Rightarrow> bool" where
  "host_plain c \<longleftrightarrow> unreserved c \<or> c \<in> set ''!$&()*+,;=:[]<>'' \<or> (of_char c :: nat) \<in> {34, 39}"

definition path_plain :: "char \<Rightarrow> bool" where
  "path_plain c \<longleftrightarrow> unreserved c \<or> c \<in> set ''$&+,/:;=@''"

text \<open>\<^verbatim>\<open>unescape\<close>: \<open>hex\<close> says which escaped bytes the mode allows, \<open>ok\<close> which bytes may stand for themselves.\<close>

fun unescape_with :: "(nat \<Rightarrow> bool) \<Rightarrow> (char \<Rightarrow> bool) \<Rightarrow> string \<Rightarrow> string option" where
  "unescape_with hex ok [] = Some []"
| "unescape_with hex ok (c # s) =
     (if c = CHR ''%'' then
        (case s of
           a # b # r \<Rightarrow>
             (case (unhex a, unhex b) of
                (Some x, Some y) \<Rightarrow>
                  if hex (16 * x + y) then map_option (Cons (char_of (16 * x + y))) (unescape_with hex ok r) else None
              | _ \<Rightarrow> None)
         | _ \<Rightarrow> None)
      else if ok c then map_option (Cons c) (unescape_with hex ok s) else None)"

definition unescape_host :: "string \<Rightarrow> string option" where
  "unescape_host = unescape_with (\<lambda>v. 128 \<le> v \<or> v = 37) (\<lambda>c. 128 \<le> (of_char c :: nat) \<or> host_plain c)"

definition unescape_zone :: "string \<Rightarrow> string option" where
  "unescape_zone = unescape_with (\<lambda>v. v = 37 \<or> v = 32 \<or> host_plain (char_of v)) (\<lambda>c. 128 \<le> (of_char c :: nat) \<or> host_plain c)"

definition unescape_any :: "string \<Rightarrow> string option" where
  "unescape_any = unescape_with (\<lambda>_. True) (\<lambda>_. True)"

section \<open>Making the text\<close>

definition url_String :: "url \<Rightarrow> string" where
  "url_String u =
     (let path = escape_with path_plain (u_Path u) in
      (if u_Scheme u \<noteq> [] then u_Scheme u @ '':'' else []) @
      (if (u_Scheme u \<noteq> [] \<or> u_Host u \<noteq> []) \<and> (u_Host u \<noteq> [] \<or> u_Path u \<noteq> []) then ''//'' else []) @
      escape_with host_plain (u_Host u) @
      (if path \<noteq> [] \<and> hd path \<noteq> CHR ''/'' \<and> u_Host u \<noteq> [] then ''/'' else []) @ path @
      (if u_RawQuery u \<noteq> [] then ''?'' @ u_RawQuery u else []))"

section \<open>Reading the text\<close>

definition is_letter :: "char \<Rightarrow> bool" where
  "is_letter c \<longleftrightarrow> 65 \<le> (of_char c :: nat) \<and> (of_char c :: nat) \<le> 90 \<or> 97 \<le> (of_char c :: nat) \<and> (of_char c :: nat) \<le> 122"

definition to_lower :: "char \<Rightarrow> char" where
  "to_lower c = (if 65 \<le> (of_char c :: nat) \<and> (of_char c :: nat) \<le> 90 then char_of ((of_char c :: nat) + 32) else c)"

text \<open>\<^verbatim>\<open>getScheme\<close>, of a text that starts with a scheme and a colon.\<close>

definition getScheme :: "string \<Rightarrow> (string \<times> string) option" where
  "getScheme s =
     (let scheme = fst (cut (CHR '':'') s) in
      if CHR '':'' \<in> set s \<and> scheme \<noteq> [] \<and> is_letter (hd scheme) \<and> list_all (\<lambda>c. is_letter c \<or> is_digit c \<or> c \<in> set ''+-.'') scheme
      then Some (map to_lower scheme, snd (cut (CHR '':'') s)) else None)"

definition validOptionalPort :: "string \<Rightarrow> bool" where
  "validOptionalPort p \<longleftrightarrow> p = [] \<or> hd p = CHR '':'' \<and> list_all is_digit (tl p)"

text \<open>Where the zone of an IPv6 address starts, if it has one.\<close>

fun split_zone :: "string \<Rightarrow> string \<times> string" where
  "split_zone [] = ([], [])"
| "split_zone (c # s) = (if take 3 (c # s) = ''%25'' then ([], c # s) else (c # fst (split_zone s), snd (split_zone s)))"

definition parseHost :: "string \<Rightarrow> string option" where
  "parseHost h =
     (if h \<noteq> [] \<and> hd h = CHR ''['' then
        (case cut_last (CHR '']'') h of
           None \<Rightarrow> None
         | Some (before, after) \<Rightarrow>
             if \<not> validOptionalPort after then None
             else if snd (split_zone before) = [] then unescape_host h
             else (case (unescape_host (fst (split_zone before)), unescape_zone (snd (split_zone before)), unescape_host (CHR '']'' # after)) of
                 (Some h1, Some h2, Some h3) \<Rightarrow> Some (h1 @ h2 @ h3)
               | _ \<Rightarrow> None))
      else
        (case cut_last (CHR '':'') h of
           None \<Rightarrow> unescape_host h
         | Some (_, port) \<Rightarrow> if list_all is_digit port then unescape_host h else None))"

definition bad_url :: "go_error + url" where
  "bad_url = Inl (NewError ''invalid URL'')"

definition url_Parse :: "string \<Rightarrow> go_error + url" where
  "url_Parse raw =
     (let (text, fragment) = cut (CHR ''#'') raw in
      if list_ex (\<lambda>c. (of_char c :: nat) < 32 \<or> (of_char c :: nat) = 127) text then bad_url
      else case getScheme text of
        None \<Rightarrow> bad_url
      | Some (scheme, rest) \<Rightarrow>
          let (rest, query) = cut (CHR ''?'') rest in
          if take 2 rest \<noteq> ''//'' then bad_url
          else
            let authority = fst (cut (CHR ''/'') (drop 2 rest)); path = drop (length authority + 2) rest in
            if CHR ''@'' \<in> set authority then bad_url
            else case (parseHost authority, unescape_any path, unescape_any fragment) of
              (Some h, Some p, Some _) \<Rightarrow> Inr \<lparr>u_Scheme = scheme, u_Host = h, u_Path = p, u_RawQuery = query\<rparr>
            | _ \<Rightarrow> bad_url)"

section \<open>What is read is what was written\<close>

lemma unescape_percent:
  "unescape_with hex ok (CHR ''%'' # s) = Some t \<longleftrightarrow>
     (\<exists>a b r x y t'. s = a # b # r \<and> unhex a = Some x \<and> unhex b = Some y \<and> hex (16 * x + y) \<and>
        unescape_with hex ok r = Some t' \<and> t = char_of (16 * x + y) # t')"
proof (cases s)
  case (Cons a s')
  then show ?thesis
    by (cases s'; cases "unhex a"; cases "unhex (hd s')") auto
qed simp

lemma unescape_other:
  "c \<noteq> CHR ''%'' \<Longrightarrow> unescape_with hex ok (c # s) = Some t \<longleftrightarrow> (\<exists>t'. ok c \<and> unescape_with hex ok s = Some t' \<and> t = c # t')"
  by auto

lemma unescape_weaken_append:
  assumes "unescape_with hex ok s = Some t" and "unescape_any s' = Some t'"
  shows "unescape_any (s @ s') = Some (t @ t')"
  using assms(1)
proof (induction "length s" arbitrary: s t rule: less_induct)
  case less
  show ?case
  proof (cases s)
    case Nil
    with less.prems assms(2) show ?thesis by simp
  next
    case (Cons c r)
    show ?thesis
    proof (cases "c = CHR ''%''")
      case True
      with less.prems Cons obtain a b r' x y u where
        r: "r = a # b # r'" "unhex a = Some x" "unhex b = Some y" and u: "unescape_with hex ok r' = Some u" and t: "t = char_of (16 * x + y) # u"
        unfolding Cons True unescape_percent by blast
      have "unescape_any (r' @ s') = Some (u @ t')" using less.hyps [OF _ u] Cons r by simp
      then show ?thesis unfolding unescape_any_def Cons True r t by (simp add: r)
    next
      case False
      with less.prems Cons obtain u where u: "unescape_with hex ok r = Some u" and t: "t = c # u"
        unfolding Cons unescape_other [OF False] by blast
      have "unescape_any (r @ s') = Some (u @ t')" using less.hyps [OF _ u] Cons by simp
      then show ?thesis unfolding unescape_any_def Cons t using False by simp
    qed
  qed
qed

lemma unescape_weaken: "unescape_with hex ok s = Some t \<Longrightarrow> unescape_any s = Some t"
  using unescape_weaken_append [of hex ok s t "[]" "[]"] by (simp add: unescape_any_def)

lemma percent_unhex: "unhex (upper_hex ((of_char c :: nat) div 16)) = Some (of_char c div 16)" "unhex (upper_hex ((of_char c :: nat) mod 16)) = Some (of_char c mod 16)"
  using char_less [of c] by (simp_all add: div_less_iff_less_mult)

lemma unescape_escape:
  assumes "\<not> plain (CHR ''%'')"
  shows "unescape_any (escape_with plain s) = Some s"
proof (induction s)
  case (Cons c s)
  have "16 * ((of_char c :: nat) div 16) + of_char c mod 16 = of_char c" by simp
  with Cons assms show ?case unfolding unescape_any_def by (auto simp: escape_with_def percent_def percent_unhex)
qed (simp add: escape_with_def unescape_any_def)

lemma split_zone_append: "fst (split_zone s) @ snd (split_zone s) = s"
  by (induction s) auto

text \<open>A host that is accepted is the one that was escaped, with an IPv6 zone or without.\<close>

lemma parseHost_unescapes: "parseHost h = Some t \<Longrightarrow> unescape_any h = Some t"
proof -
  assume p: "parseHost h = Some t"
  show ?thesis
  proof (cases "unescape_host h = Some t")
    case True
    then show ?thesis unfolding unescape_host_def by (rule unescape_weaken)
  next
    case False
    with p obtain before after h1 h2 h3 where
      c: "cut_last (CHR '']'') h = Some (before, after)" and
      h: "unescape_host (fst (split_zone before)) = Some h1" "unescape_zone (snd (split_zone before)) = Some h2"
        "unescape_host (CHR '']'' # after) = Some h3" and t: "t = h1 @ h2 @ h3"
      by (auto simp: parseHost_def split: if_splits option.splits prod.splits)
    have "h = fst (split_zone before) @ snd (split_zone before) @ CHR '']'' # after"
      using cut_last_Some [OF c] split_zone_append [of before] by (metis append.assoc)
    moreover have "unescape_any (snd (split_zone before) @ CHR '']'' # after) = Some (h2 @ h3)"
      by (rule unescape_weaken_append [OF h(2) [unfolded unescape_zone_def] unescape_weaken [OF h(3) [unfolded unescape_host_def]]])
    ultimately show ?thesis
      using unescape_weaken_append [OF h(1) [unfolded unescape_host_def]] by (simp add: t)
  qed
qed

lemma parseHost_escape: "parseHost (escape_with host_plain h) = Some t \<Longrightarrow> t = h"
proof -
  have "\<not> host_plain (CHR ''%'')" by (simp add: host_plain_def unreserved_ne)
  then show "parseHost (escape_with host_plain h) = Some t \<Longrightarrow> t = h"
    using parseHost_unescapes unescape_escape by fastforce
qed

lemma cut_append_none: "c \<notin> set s \<Longrightarrow> cut c (s @ t) = (s @ fst (cut c t), snd (cut c t))"
  by (induction s) auto

lemma escape_with_id: "list_all plain s \<Longrightarrow> escape_with plain s = s"
  by (induction s) (simp_all add: escape_with_def)

text \<open>The bytes of an escaped text are plain, percent signs or hexadecimal digits.\<close>

definition hex_digit :: "char \<Rightarrow> bool" where
  "hex_digit c \<longleftrightarrow> is_digit c \<or> 65 \<le> (of_char c :: nat) \<and> (of_char c :: nat) \<le> 70"

lemma upper_hex_digit: "d < 16 \<Longrightarrow> hex_digit (upper_hex d)"
  by (auto simp: hex_digit_def upper_hex_def is_digit_def)

lemma escape_with_chars: "c \<in> set (escape_with plain s) \<Longrightarrow> plain c \<or> c = CHR ''%'' \<or> hex_digit c"
proof -
  assume "c \<in> set (escape_with plain s)"
  then obtain x where "c \<in> set (if plain x then [x] else percent x)"
    unfolding escape_with_def set_concat set_map by blast
  moreover have "(of_char x :: nat) div 16 < 16" "(of_char x :: nat) mod 16 < 16" using char_less [of x] by (simp_all add: div_less_iff_less_mult)
  ultimately show ?thesis by (auto simp: percent_def upper_hex_digit split: if_splits)
qed

definition ctl :: "char \<Rightarrow> bool" where
  "ctl c \<longleftrightarrow> (of_char c :: nat) < 32 \<or> (of_char c :: nat) = 127"

lemma host_chars: "host_plain c \<or> c = CHR ''%'' \<or> hex_digit c \<Longrightarrow> c \<notin> set ''/?#@'' \<and> \<not> ctl c"
  by (auto simp: host_plain_def unreserved_def hex_digit_def is_digit_def ctl_def)

lemma path_chars: "path_plain c \<Longrightarrow> c \<notin> set ''?#'' \<and> \<not> ctl c"
  by (auto simp: path_plain_def unreserved_def is_digit_def ctl_def)

definition web_scheme :: "string \<Rightarrow> bool" where
  "web_scheme s \<longleftrightarrow> s \<in> {''http'', ''https'', ''ws'', ''wss''}"

lemma getScheme_web: "web_scheme s \<Longrightarrow> getScheme (s @ CHR '':'' # r) = Some (s, r)"
  by (auto simp: web_scheme_def getScheme_def is_letter_def is_digit_def to_lower_def)

text \<open>The URLs that the program makes: a plain path, and a query without a fragment sign or control bytes, as \<^verbatim>\<open>Values.Encode\<close> makes it.\<close>

definition made_url :: "url \<Rightarrow> bool" where
  "made_url u \<longleftrightarrow> web_scheme (u_Scheme u) \<and> u_Path u \<noteq> [] \<and> hd (u_Path u) = CHR ''/'' \<and> list_all path_plain (u_Path u) \<and>
     u_RawQuery u \<noteq> [] \<and> list_all (\<lambda>c. c \<noteq> CHR ''#'' \<and> \<not> ctl c) (u_RawQuery u)"

lemma url_String_made:
  "made_url u \<Longrightarrow> url_String u = u_Scheme u @ CHR '':'' # ''//'' @ escape_with host_plain (u_Host u) @ u_Path u @ ''?'' @ u_RawQuery u"
proof -
  assume m: "made_url u"
  have "u_Scheme u \<noteq> []" using m by (auto simp: made_url_def web_scheme_def)
  moreover have "escape_with path_plain (u_Path u) = u_Path u" by (rule escape_with_id) (use m in \<open>simp add: made_url_def\<close>)
  moreover have "u_Path u \<noteq> []" "hd (u_Path u) = CHR ''/''" "u_RawQuery u \<noteq> []" using m by (simp_all add: made_url_def)
  ultimately show ?thesis by (simp add: url_String_def Let_def)
qed

lemma url_Parse_made:
  assumes "made_url u"
  shows "url_Parse (url_String u) = (case parseHost (escape_with host_plain (u_Host u)) of None \<Rightarrow> bad_url | Some h \<Rightarrow> Inr (u\<lparr>u_Host := h\<rparr>))"
proof -
  let ?h = "escape_with host_plain (u_Host u)" and ?p = "u_Path u" and ?q = "u_RawQuery u"
  have m: "web_scheme (u_Scheme u)" "?p \<noteq> []" "hd ?p = CHR ''/''" "list_all path_plain ?p"
    "list_all (\<lambda>c. c \<noteq> CHR ''#'' \<and> \<not> ctl c) ?q" using assms by (simp_all add: made_url_def)
  have h: "c \<notin> set ?h" if "c \<in> set ''/?#@'' \<or> ctl c" for c
  proof
    assume "c \<in> set ?h"
    from host_chars [OF escape_with_chars [OF this]] that show False by (elim disjE) simp_all
  qed
  have p: "c \<notin> set ?p" if "c \<in> set ''?#'' \<or> ctl c" for c using that m(4) path_chars by (auto simp: list_all_iff)
  have q: "c \<notin> set ?q" if "c = CHR ''#'' \<or> ctl c" for c using that m(5) by (auto simp: list_all_iff)
  have sch: "c \<notin> set (u_Scheme u)" if "c = CHR ''#'' \<or> ctl c" for c using that m(1) by (auto simp: web_scheme_def ctl_def)
  have raw: "url_String u = u_Scheme u @ CHR '':'' # ''//'' @ ?h @ ?p @ ''?'' @ ?q" by (rule url_String_made [OF assms])
  have frag: "cut (CHR ''#'') (url_String u) = (url_String u, [])"
    unfolding raw using h p q sch by (intro cut_none) simp
  have noctl: "\<not> list_ex (\<lambda>c. (of_char c :: nat) < 32 \<or> (of_char c :: nat) = 127) (url_String u)"
  proof
    assume "list_ex (\<lambda>c. (of_char c :: nat) < 32 \<or> (of_char c :: nat) = 127) (url_String u)"
    then obtain c where c: "c \<in> set (url_String u)" "ctl c" by (auto simp: list_ex_iff ctl_def)
    have "\<not> ctl (CHR '':'')" "\<not> ctl (CHR ''/'')" "\<not> ctl (CHR ''?'')" by (simp_all add: ctl_def)
    moreover have "c \<notin> set (u_Scheme u)" "c \<notin> set ?h" "c \<notin> set ?p" "c \<notin> set ?q"
      using sch [of c] h [of c] p [of c] q [of c] c(2) by blast+
    ultimately show False using c unfolding raw by auto
  qed
  have query: "cut (CHR ''?'') (''//'' @ ?h @ ?p @ ''?'' @ ?q) = (''//'' @ ?h @ ?p, ?q)"
    using cut_found [of "CHR ''?''" "''//'' @ ?h @ ?p" ?q] h p by simp
  obtain p' where p': "?p = CHR ''/'' # p'" using m(2,3) by (cases ?p) auto
  have auth: "fst (cut (CHR ''/'') (?h @ ?p)) = ?h" using cut_found [of "CHR ''/''" ?h p'] h p' by simp
  have "escape_with path_plain ?p = ?p" using m(4) by (rule escape_with_id)
  moreover have "\<not> path_plain (CHR ''%'')" by (simp add: path_plain_def unreserved_ne)
  ultimately have path: "unescape_any ?p = Some ?p" using unescape_escape [of path_plain ?p] by simp
  have empty: "unescape_any [] = Some []" by (simp add: unescape_any_def)
  have at: "CHR ''@'' \<notin> set ?h" using h by simp
  show ?thesis
    unfolding url_Parse_def frag prod.case Let_def if_not_P [OF noctl]
    unfolding raw getScheme_web [OF m(1)] option.case prod.case query
    using auth path empty at
    by (simp add: Let_def split: option.split)
qed

text \<open>
  Whatever the host: the text of a URL that the program makes is read as that URL, or refused. For a host of unreserved bytes, with a port or
  without, it is read.
\<close>

lemma url_roundtrip: "made_url u \<Longrightarrow> url_Parse (url_String u) = Inr u' \<Longrightarrow> u' = u"
  using parseHost_escape by (auto simp: url_Parse_made bad_url_def split: option.splits)

definition simple_host :: "string \<Rightarrow> bool" where
  "simple_host h \<longleftrightarrow> list_all unreserved h \<or> (\<exists>a p. h = a @ CHR '':'' # p \<and> list_all unreserved a \<and> list_all is_digit p)"

lemma unescape_with_plain: "list_all (\<lambda>c. ok c \<and> c \<noteq> CHR ''%'') s \<Longrightarrow> unescape_with hex ok s = Some s"
  by (induction s) auto

lemma parseHost_simple: "simple_host h \<Longrightarrow> parseHost (escape_with host_plain h) = Some h"
proof -
  assume h: "simple_host h"
  have dig: "is_digit c \<Longrightarrow> unreserved c" for c by (simp add: unreserved_def)
  have all: "list_all (\<lambda>c. unreserved c \<or> c = CHR '':'') h" using h dig by (auto simp: simple_host_def list_all_iff)
  then have "list_all host_plain h" by (auto simp: list_all_iff host_plain_def)
  then have e: "escape_with host_plain h = h" by (rule escape_with_id)
  have ne: "c \<noteq> CHR ''%''" if "c \<in> set h" for c
    using all that unreserved_ne by (auto simp: list_all_iff)
  have un: "unescape_host h = Some h" unfolding unescape_host_def
    by (rule unescape_with_plain) (use all ne in \<open>auto simp: list_all_iff host_plain_def\<close>)
  have nb: "h = [] \<or> hd h \<noteq> CHR ''[''" using all by (cases h) (auto simp: unreserved_def is_digit_def)
  have colon: "\<not> unreserved (CHR '':'')" by (simp add: unreserved_def is_digit_def)
  from h consider "list_all unreserved h" | a p where "h = a @ CHR '':'' # p" "list_all unreserved a" "list_all is_digit p"
    unfolding simple_host_def by blast
  then show "parseHost (escape_with host_plain h) = Some h"
  proof cases
    case 1
    then have "cut_last (CHR '':'') h = None" using colon by (auto simp: cut_last_None list_all_iff)
    with un nb show ?thesis by (auto simp: e parseHost_def)
  next
    case 2
    then have "CHR '':'' \<notin> set p" by (auto simp: list_all_iff is_digit_def)
    from cut_last_found [OF this, of a] 2(1) have "cut_last (CHR '':'') h = Some (a, p)" by simp
    with un nb 2(3) show ?thesis by (auto simp: e parseHost_def)
  qed
qed

lemma url_read_simple: "made_url u \<Longrightarrow> simple_host (u_Host u) \<Longrightarrow> url_Parse (url_String u) = Inr u"
  using parseHost_simple by (simp add: url_Parse_made)

text \<open>An encoded query is fit for a URL.\<close>

lemma escape_char_query: "c \<in> set (escape_char x) \<Longrightarrow> c \<noteq> CHR ''#'' \<and> \<not> ctl c"
proof -
  assume "c \<in> set (escape_char x)"
  moreover have "(of_char x :: nat) div 16 < 16" "(of_char x :: nat) mod 16 < 16" using char_less [of x] by (simp_all add: div_less_iff_less_mult)
  ultimately have "unreserved c \<or> c = CHR ''+'' \<or> c = CHR ''%'' \<or> hex_digit c"
    by (auto simp: escape_char_def upper_hex_digit split: if_splits)
  then show ?thesis by (auto simp: unreserved_def hex_digit_def is_digit_def ctl_def)
qed

lemma join_amp_chars: "c \<in> set (join_amp ss) \<Longrightarrow> c = CHR ''&'' \<or> (\<exists>s \<in> set ss. c \<in> set s)"
  by (induction ss rule: join_amp.induct) auto

lemma Values_Encode_query: "list_all (\<lambda>c. c \<noteq> CHR ''#'' \<and> \<not> ctl c) (Values_Encode vs)"
  unfolding list_all_iff
proof
  fix c assume "c \<in> set (Values_Encode vs)"
  then have "c = CHR ''&'' \<or> c = CHR ''='' \<or> (\<exists>x. c \<in> set (escape_char x))"
    unfolding Values_Encode_def by (auto dest!: join_amp_chars simp: encode_pair_def QueryEscape_def)
  then show "c \<noteq> CHR ''#'' \<and> \<not> ctl c" using escape_char_query by (auto simp: ctl_def)
qed

lemma join_amp_nonempty: "ss \<noteq> [] \<Longrightarrow> list_all (\<lambda>s. s \<noteq> []) ss \<Longrightarrow> join_amp ss \<noteq> []"
  by (cases ss rule: join_amp.cases) auto

lemma Values_Encode_nonempty: "vs \<noteq> [] \<Longrightarrow> Values_Encode vs \<noteq> []"
proof -
  assume "vs \<noteq> []"
  then have "map encode_pair (sort_key fst vs) \<noteq> []" by (metis length_0_conv length_map length_sort)
  then show ?thesis unfolding Values_Encode_def by (rule join_amp_nonempty) (simp add: encode_pair_def list_all_iff)
qed

end
