(* ===== verification/Net_Cookie.thy ===== *)
theory Net_Cookie
  imports Net_Url
begin

text \<open>
  Cookies as texts, after Go's \<^verbatim>\<open>net/http\<close>: \<^verbatim>\<open>Cookie.String\<close> (a Set-Cookie line, and what the helper puts into its Cookie header),
  \<^verbatim>\<open>ParseSetCookie\<close> (by which the helper reads the lines of a response), \<^verbatim>\<open>readCookies\<close> (by which the relay reads the Cookie header of a
  request) and the text that \<^verbatim>\<open>Request.AddCookie\<close> makes. Of the attributes, \<^verbatim>\<open>Expires\<close>, which no part of the program sends, is left out.
  The main result is that whatever a value holds, the line made from it is read back as that cookie, with the bytes dropped that a cookie
  cannot carry: a value cannot add an attribute or another cookie.
\<close>

datatype SameSite = SameSiteUnset | SameSiteDefaultMode | SameSiteLaxMode | SameSiteStrictMode | SameSiteNoneMode

record http_cookie =
  ck_Name :: string
  ck_Value :: string
  ck_Quoted :: bool
  ck_Path :: string
  ck_Domain :: string
  ck_MaxAge :: int
  ck_Secure :: bool
  ck_HttpOnly :: bool
  ck_SameSite :: SameSite
  ck_Partitioned :: bool

section \<open>Bytes\<close>

definition is_alpha :: "char \<Rightarrow> bool" where
  "is_alpha c \<longleftrightarrow> 65 \<le> (of_char c :: nat) \<and> (of_char c :: nat) \<le> 90 \<or> 97 \<le> (of_char c :: nat) \<and> (of_char c :: nat) \<le> 122"

definition token_char :: "char \<Rightarrow> bool" where
  "token_char c \<longleftrightarrow> is_alpha c \<or> is_digit c \<or> c \<in> set ''!#$%&*+-.^_`|~'' \<or> (of_char c :: nat) = 39"

definition isToken :: "string \<Rightarrow> bool" where
  "isToken s \<longleftrightarrow> s \<noteq> [] \<and> list_all token_char s"

text \<open>34 and 92 are the double quote and the backslash.\<close>

definition validCookieValueByte :: "char \<Rightarrow> bool" where
  "validCookieValueByte c \<longleftrightarrow> 32 \<le> (of_char c :: nat) \<and> (of_char c :: nat) < 127 \<and> (of_char c :: nat) \<noteq> 34 \<and> c \<noteq> CHR '';'' \<and> (of_char c :: nat) \<noteq> 92"

definition validCookiePathByte :: "char \<Rightarrow> bool" where
  "validCookiePathByte c \<longleftrightarrow> 32 \<le> (of_char c :: nat) \<and> (of_char c :: nat) < 127 \<and> c \<noteq> CHR '';''"

definition quote :: char where "quote = CHR 0x22"

definition ascii_space :: "char \<Rightarrow> bool" where
  "ascii_space c \<longleftrightarrow> c = CHR '' '' \<or> (of_char c :: nat) \<in> {9, 10, 13}"

definition TrimString :: "string \<Rightarrow> string" where
  "TrimString s = rev (dropWhile ascii_space (rev (dropWhile ascii_space s)))"

definition ascii_lower :: "char \<Rightarrow> char" where
  "ascii_lower c = (if 65 \<le> (of_char c :: nat) \<and> (of_char c :: nat) \<le> 90 then char_of ((of_char c :: nat) + 32) else c)"

text \<open>\<^verbatim>\<open>ascii.ToLower\<close>, which refuses bytes that are not printable ASCII.\<close>

definition ascii_ToLower :: "string \<Rightarrow> string option" where
  "ascii_ToLower s = (if list_all (\<lambda>c. 32 \<le> (of_char c :: nat) \<and> (of_char c :: nat) \<le> 126) s then Some (map ascii_lower s) else None)"

section \<open>Making the text\<close>

definition sanitizeCookieValue :: "string \<Rightarrow> bool \<Rightarrow> string" where
  "sanitizeCookieValue v quoted =
     (let v = filter validCookieValueByte v in
      if v = [] then v
      else if CHR '' '' \<in> set v \<or> CHR '','' \<in> set v \<or> quoted then quote # v @ [quote] else v)"

text \<open>\<^verbatim>\<open>isCookieDomainName\<close>: its loop, with the byte before, whether a letter has been seen, and the length of the label.\<close>

fun domain_loop :: "char \<Rightarrow> bool \<Rightarrow> nat \<Rightarrow> string \<Rightarrow> bool" where
  "domain_loop prev seen partlen [] \<longleftrightarrow> prev \<noteq> CHR ''-'' \<and> partlen \<le> 63 \<and> seen"
| "domain_loop prev seen partlen (c # s) \<longleftrightarrow>
     (if is_alpha c then domain_loop c True (partlen + 1) s
      else if is_digit c then domain_loop c seen (partlen + 1) s
      else if c = CHR ''-'' then prev \<noteq> CHR ''.'' \<and> domain_loop c seen (partlen + 1) s
      else if c = CHR ''.'' then prev \<noteq> CHR ''.'' \<and> prev \<noteq> CHR ''-'' \<and> partlen \<le> 63 \<and> partlen \<noteq> 0 \<and> domain_loop c seen 0 s
      else False)"

definition drop_dot :: "string \<Rightarrow> string" where
  "drop_dot s = (if s \<noteq> [] \<and> hd s = CHR ''.'' then tl s else s)"

definition isCookieDomainName :: "string \<Rightarrow> bool" where
  "isCookieDomainName s \<longleftrightarrow> s \<noteq> [] \<and> length s \<le> 255 \<and> domain_loop (CHR ''.'') False 0 (drop_dot s)"

text \<open>A dotted IPv4 address, as \<^verbatim>\<open>net.ParseIP\<close> takes it: four decimal numbers up to 255 without leading zeros.\<close>

definition ipv4_part :: "string \<Rightarrow> bool" where
  "ipv4_part s \<longleftrightarrow> s \<noteq> [] \<and> length s \<le> 3 \<and> list_all is_digit s \<and> decimal 0 s \<le> 255 \<and> (hd s = CHR ''0'' \<longrightarrow> length s = 1)"

fun split_on :: "char \<Rightarrow> string \<Rightarrow> string list" where
  "split_on c [] = [[]]"
| "split_on c (x # s) = (if x = c then [] # split_on c s else (x # hd (split_on c s)) # tl (split_on c s))"

definition is_ipv4 :: "string \<Rightarrow> bool" where
  "is_ipv4 s \<longleftrightarrow> length (split_on (CHR ''.'') s) = 4 \<and> list_all ipv4_part (split_on (CHR ''.'') s)"

definition validCookieDomain :: "string \<Rightarrow> bool" where
  "validCookieDomain v \<longleftrightarrow> isCookieDomainName v \<or> is_ipv4 v"

text \<open>The attributes in the order in which they are written, each after a semicolon and a space.\<close>

definition max_age_attr :: "int \<Rightarrow> string list" where
  "max_age_attr n = (if 0 < n then [''Max-Age='' @ itoa (nat n)] else if n < 0 then [''Max-Age=0''] else [])"

fun same_site_attr :: "SameSite \<Rightarrow> string list" where
  "same_site_attr SameSiteNoneMode = [''SameSite=None'']"
| "same_site_attr SameSiteLaxMode = [''SameSite=Lax'']"
| "same_site_attr SameSiteStrictMode = [''SameSite=Strict'']"
| "same_site_attr _ = []"

definition cookie_attrs :: "http_cookie \<Rightarrow> string list" where
  "cookie_attrs c =
     (if ck_Path c \<noteq> [] then [''Path='' @ filter validCookiePathByte (ck_Path c)] else []) @
     (if ck_Domain c \<noteq> [] \<and> validCookieDomain (ck_Domain c) then [''Domain='' @ drop_dot (ck_Domain c)] else []) @
     max_age_attr (ck_MaxAge c) @ (if ck_HttpOnly c then [''HttpOnly''] else []) @ (if ck_Secure c then [''Secure''] else []) @
     same_site_attr (ck_SameSite c) @ (if ck_Partitioned c then [''Partitioned''] else [])"

fun join_attrs :: "string list \<Rightarrow> string" where
  "join_attrs [] = []"
| "join_attrs (a # as) = ''; '' @ a @ join_attrs as"

definition Cookie_String :: "http_cookie \<Rightarrow> string" where
  "Cookie_String c =
     (if \<not> isToken (ck_Name c) then []
      else ck_Name c @ ''='' @ sanitizeCookieValue (ck_Value c) (ck_Quoted c) @ join_attrs (cookie_attrs c))"

text \<open>\<^verbatim>\<open>sanitizeCookieName\<close>, and what \<^verbatim>\<open>AddCookie\<close> adds to the Cookie header of a request.\<close>

definition sanitizeCookieName :: "string \<Rightarrow> string" where
  "sanitizeCookieName n = map (\<lambda>c. if (of_char c :: nat) \<in> {10, 13} then CHR ''-'' else c) n"

definition request_cookie_text :: "http_cookie \<Rightarrow> string" where
  "request_cookie_text c = sanitizeCookieName (ck_Name c) @ ''='' @ sanitizeCookieValue (ck_Value c) (ck_Quoted c)"

section \<open>Reading the text\<close>

definition parseCookieValue :: "string \<Rightarrow> bool \<Rightarrow> (string \<times> bool) option" where
  "parseCookieValue raw allowDoubleQuote =
     (let quoted = (allowDoubleQuote \<and> 1 < length raw \<and> hd raw = quote \<and> last raw = quote);
          raw = (if quoted then butlast (tl raw) else raw) in
      if list_all validCookieValueByte raw then Some (raw, quoted) else None)"

text \<open>\<^verbatim>\<open>strconv.Atoi\<close> for the number of seconds; \<open>None\<close> is its error.\<close>

definition Atoi :: "string \<Rightarrow> int option" where
  "Atoi s =
     (let neg = (s \<noteq> [] \<and> hd s = CHR ''-''); d = (if s \<noteq> [] \<and> (hd s = CHR ''-'' \<or> hd s = CHR ''+'') then tl s else s); n = int (decimal 0 d) in
      if d = [] \<or> \<not> list_all is_digit d then None
      else if neg then (if n \<le> 2 ^ 63 then Some (- n) else None)
      else (if n < 2 ^ 63 then Some n else None))"

text \<open>One attribute of a Set-Cookie line.\<close>

definition read_same_site :: "string \<Rightarrow> SameSite" where
  "read_same_site v =
     (case ascii_ToLower v of
        None \<Rightarrow> SameSiteDefaultMode
      | Some l \<Rightarrow> if l = ''lax'' then SameSiteLaxMode else if l = ''strict'' then SameSiteStrictMode
          else if l = ''none'' then SameSiteNoneMode else SameSiteDefaultMode)"

definition read_max_age :: "string \<Rightarrow> http_cookie \<Rightarrow> http_cookie" where
  "read_max_age v c =
     (case Atoi v of
        None \<Rightarrow> c
      | Some secs \<Rightarrow> if secs \<noteq> 0 \<and> hd v = CHR ''0'' then c else c\<lparr>ck_MaxAge := (if secs \<le> 0 then -1 else secs)\<rparr>)"

definition set_attr :: "string \<Rightarrow> string \<Rightarrow> http_cookie \<Rightarrow> http_cookie" where
  "set_attr attr v c =
     (if attr = ''samesite'' then c\<lparr>ck_SameSite := read_same_site v\<rparr>
      else if attr = ''secure'' then c\<lparr>ck_Secure := True\<rparr>
      else if attr = ''httponly'' then c\<lparr>ck_HttpOnly := True\<rparr>
      else if attr = ''domain'' then c\<lparr>ck_Domain := v\<rparr>
      else if attr = ''max-age'' then read_max_age v c
      else if attr = ''path'' then c\<lparr>ck_Path := v\<rparr>
      else if attr = ''partitioned'' then c\<lparr>ck_Partitioned := True\<rparr>
      else c)"

definition read_attr :: "string \<Rightarrow> http_cookie \<Rightarrow> http_cookie" where
  "read_attr part c =
     (let part = TrimString part in
      if part = [] then c
      else case ascii_ToLower (fst (cut (CHR ''='') part)) of
        None \<Rightarrow> c
      | Some attr \<Rightarrow> (case parseCookieValue (snd (cut (CHR ''='') part)) False of None \<Rightarrow> c | Some (v, _) \<Rightarrow> set_attr attr v c))"

definition new_cookie :: "string \<Rightarrow> string \<Rightarrow> bool \<Rightarrow> http_cookie" where
  "new_cookie name v quoted = \<lparr>ck_Name = name, ck_Value = v, ck_Quoted = quoted, ck_Path = [], ck_Domain = [], ck_MaxAge = 0, ck_Secure = False,
     ck_HttpOnly = False, ck_SameSite = SameSiteUnset, ck_Partitioned = False\<rparr>"

text \<open>\<^verbatim>\<open>ParseSetCookie\<close>; \<open>None\<close> stands for its errors, on which a line is skipped.\<close>

definition ParseSetCookie :: "string \<Rightarrow> http_cookie option" where
  "ParseSetCookie line =
     (let parts = split_on (CHR '';'') (TrimString line); pair = TrimString (hd parts) in
      if CHR ''='' \<notin> set pair then None
      else
        let name = TrimString (fst (cut (CHR ''='') pair)) in
        if \<not> isToken name then None
        else case parseCookieValue (snd (cut (CHR ''='') pair)) True of
          None \<Rightarrow> None
        | Some (v, quoted) \<Rightarrow> Some (foldl (\<lambda>c part. read_attr part c) (new_cookie name v quoted) (tl parts)))"

text \<open>\<^verbatim>\<open>readCookies\<close>: the cookies of the lines of a Cookie header.\<close>

definition read_pair :: "string \<Rightarrow> http_cookie list" where
  "read_pair part =
     (let part = TrimString part; name = TrimString (fst (cut (CHR ''='') part)) in
      if part = [] \<or> \<not> isToken name then []
      else case parseCookieValue (snd (cut (CHR ''='') part)) True of None \<Rightarrow> [] | Some (v, quoted) \<Rightarrow> [new_cookie name v quoted])"

definition readCookies :: "string list \<Rightarrow> http_cookie list" where
  "readCookies lines = concat (map (\<lambda>line. concat (map read_pair (split_on (CHR '';'') (TrimString line)))) lines)"

section \<open>What is read is what was written\<close>

lemma split_on_none: "c \<notin> set s \<Longrightarrow> split_on c s = [s]"
  by (induction s) auto

lemma split_on_nonempty [simp]: "split_on c s \<noteq> []"
  by (cases s) auto

lemma split_on_append: "c \<notin> set s \<Longrightarrow> split_on c (s @ c # t) = s # split_on c t"
  by (induction s) auto

lemma TrimString_id: "s = [] \<or> \<not> ascii_space (hd s) \<and> \<not> ascii_space (last s) \<Longrightarrow> TrimString s = s"
proof -
  assume "s = [] \<or> \<not> ascii_space (hd s) \<and> \<not> ascii_space (last s)"
  then have "dropWhile ascii_space s = s" "dropWhile ascii_space (rev s) = rev s" by (auto simp: dropWhile_eq_self_iff hd_rev)
  then show ?thesis by (simp add: TrimString_def)
qed

lemma TrimString_space: "TrimString (CHR '' '' # s) = TrimString s"
  by (simp add: TrimString_def ascii_space_def)

lemma token_char_plain: "token_char c \<Longrightarrow> c \<noteq> CHR '';'' \<and> c \<noteq> CHR ''='' \<and> \<not> ascii_space c \<and> (of_char c :: nat) \<notin> {10, 13}"
  by (auto simp: token_char_def is_alpha_def is_digit_def ascii_space_def)

lemma token_facts:
  assumes "isToken n"
  shows "n \<noteq> []" "CHR '';'' \<notin> set n" "CHR ''='' \<notin> set n" "\<not> ascii_space (hd n)" "TrimString n = n" "sanitizeCookieName n = n"
proof -
  from assms have n: "n \<noteq> []" "\<And>c. c \<in> set n \<Longrightarrow> token_char c" by (auto simp: isToken_def list_all_iff)
  show "n \<noteq> []" by (rule n)
  show "CHR '';'' \<notin> set n" "CHR ''='' \<notin> set n" "\<not> ascii_space (hd n)" using n token_char_plain hd_in_set by blast+
  moreover have "\<not> ascii_space (last n)" using n token_char_plain last_in_set by blast
  ultimately show "TrimString n = n" by (simp add: TrimString_id)
  show "sanitizeCookieName n = n" unfolding sanitizeCookieName_def by (rule map_idI) (use n(2) token_char_plain in auto)
qed

text \<open>A value, as it is written, is read as its valid bytes; it is quoted again if it was written in quotes.\<close>

lemma valid_value_chars: "validCookieValueByte c \<Longrightarrow> c \<noteq> CHR '';'' \<and> c \<noteq> quote \<and> (ascii_space c \<longleftrightarrow> c = CHR '' '')"
  by (auto simp: validCookieValueByte_def quote_def ascii_space_def)

definition needs_quotes :: "string \<Rightarrow> bool" where
  "needs_quotes v \<longleftrightarrow> CHR '' '' \<in> set v \<or> CHR '','' \<in> set v"

lemma sanitize_cases:
  fixes v q
  defines "w \<equiv> filter validCookieValueByte v"
  obtains (empty) "w = []" "sanitizeCookieValue v q = []"
  | (quoted) "w \<noteq> []" "needs_quotes w \<or> q" "sanitizeCookieValue v q = quote # w @ [quote]"
  | (plain) "w \<noteq> []" "\<not> needs_quotes w" "\<not> q" "sanitizeCookieValue v q = w"
  by (cases "w = []"; cases "needs_quotes w \<or> q") (auto simp: sanitizeCookieValue_def needs_quotes_def Let_def w_def)

lemma parse_sanitized:
  "parseCookieValue (sanitizeCookieValue v q) True =
     Some (filter validCookieValueByte v, filter validCookieValueByte v \<noteq> [] \<and> (needs_quotes (filter validCookieValueByte v) \<or> q))"
proof -
  let ?w = "filter validCookieValueByte v"
  have w: "list_all validCookieValueByte ?w" by (simp add: list_all_iff)
  show ?thesis
  proof (cases rule: sanitize_cases [of v q])
    case empty
    then show ?thesis by (simp add: parseCookieValue_def)
  next
    case quoted
    then show ?thesis using w by (simp add: parseCookieValue_def butlast_append)
  next
    case plain
    then have "hd ?w \<in> set ?w" by (intro hd_in_set)
    with w have "hd ?w \<noteq> quote" using valid_value_chars by (auto simp: list_all_iff)
    with plain w show ?thesis by (simp add: parseCookieValue_def)
  qed
qed

lemma sanitized_facts:
  "CHR '';'' \<notin> set (sanitizeCookieValue v q)"
  "sanitizeCookieValue v q = [] \<or> \<not> ascii_space (hd (sanitizeCookieValue v q)) \<and> \<not> ascii_space (last (sanitizeCookieValue v q))"
proof -
  let ?w = "filter validCookieValueByte v"
  have w: "c \<in> set ?w \<Longrightarrow> validCookieValueByte c" for c by simp
  have q: "quote \<noteq> CHR '';''" "\<not> ascii_space quote" by (simp_all add: quote_def ascii_space_def)
  have sc: "CHR '';'' \<notin> set ?w" using w valid_value_chars by blast
  show "CHR '';'' \<notin> set (sanitizeCookieValue v q)"
    by (cases rule: sanitize_cases [of v q]) (use sc q in auto)
  show "sanitizeCookieValue v q = [] \<or> \<not> ascii_space (hd (sanitizeCookieValue v q)) \<and> \<not> ascii_space (last (sanitizeCookieValue v q))"
  proof (cases rule: sanitize_cases [of v q])
    case plain
    have "\<not> ascii_space c" if "c \<in> set ?w" for c
      using w [OF that] valid_value_chars [of c] plain(2) that by (auto simp: needs_quotes_def)
    with plain show ?thesis by (metis hd_in_set last_in_set)
  qed (simp_all add: q)
qed

lemma parse_sanitizedD:
  obtains q' where "parseCookieValue (sanitizeCookieValue v q) True = Some (filter validCookieValueByte v, q')"
  using parse_sanitized by blast

definition cookie_pair :: "string \<Rightarrow> string \<Rightarrow> bool \<Rightarrow> string" where
  "cookie_pair n v q = n @ ''='' @ sanitizeCookieValue v q"

definition clean :: "string \<Rightarrow> string" where
  "clean v = filter validCookieValueByte v"

definition read_quoted :: "string \<Rightarrow> bool \<Rightarrow> bool" where
  "read_quoted v q \<longleftrightarrow> clean v \<noteq> [] \<and> (needs_quotes (clean v) \<or> q)"

lemma cookie_pair_facts:
  assumes "isToken n"
  shows "CHR '';'' \<notin> set (cookie_pair n v q)" "TrimString (cookie_pair n v q) = cookie_pair n v q" "cookie_pair n v q \<noteq> []"
    "cut (CHR ''='') (cookie_pair n v q) = (n, sanitizeCookieValue v q)" "CHR ''='' \<in> set (cookie_pair n v q)"
proof -
  note t = token_facts [OF assms] and f = sanitized_facts [of v q]
  show "CHR '';'' \<notin> set (cookie_pair n v q)" using t f by (simp add: cookie_pair_def)
  have "last (cookie_pair n v q) = (if sanitizeCookieValue v q = [] then CHR ''='' else last (sanitizeCookieValue v q))"
    by (simp add: cookie_pair_def)
  moreover have "\<not> ascii_space (CHR ''='')" by (simp add: ascii_space_def)
  moreover have "hd (cookie_pair n v q) = hd n" using t(1) by (simp add: cookie_pair_def)
  ultimately show "TrimString (cookie_pair n v q) = cookie_pair n v q" using t(4) f(2) by (intro TrimString_id) auto
  show "cut (CHR ''='') (cookie_pair n v q) = (n, sanitizeCookieValue v q)"
    using cut_found [OF t(3)] by (simp add: cookie_pair_def)
  show "cookie_pair n v q \<noteq> []" "CHR ''='' \<in> set (cookie_pair n v q)" by (simp_all add: cookie_pair_def)
qed

lemma read_pair_text:
  assumes "isToken n"
  shows "read_pair (cookie_pair n v q) = [new_cookie n (clean v) (read_quoted v q)]"
    "read_pair (CHR '' '' # cookie_pair n v q) = [new_cookie n (clean v) (read_quoted v q)]"
  using cookie_pair_facts [OF assms, of v q] token_facts [OF assms] assms
  by (simp_all add: read_pair_def TrimString_space parse_sanitized clean_def read_quoted_def Let_def)

text \<open>A line of a cookie and its attributes, split at its semicolons.\<close>

lemma split_attrs:
  "CHR '';'' \<notin> set p \<Longrightarrow> list_all (\<lambda>a. CHR '';'' \<notin> set a) as \<Longrightarrow> split_on (CHR '';'') (p @ join_attrs as) = p # map (Cons (CHR '' '')) as"
proof (induction as arbitrary: p)
  case (Cons a as)
  have "split_on (CHR '';'') (p @ CHR '';'' # (CHR '' '' # a) @ join_attrs as) = p # split_on (CHR '';'') ((CHR '' '' # a) @ join_attrs as)"
    using Cons.prems by (intro split_on_append) simp
  also have "split_on (CHR '';'') ((CHR '' '' # a) @ join_attrs as) = (CHR '' '' # a) # map (Cons (CHR '' '')) as"
    using Cons.prems by (intro Cons.IH) simp_all
  finally show ?case by simp
qed (simp add: split_on_none)

lemma digit_plain: "is_digit c \<Longrightarrow> c \<noteq> CHR '';''"
  by (auto simp: is_digit_def)

lemma drop_dot_set: "set (drop_dot d) \<subseteq> set d"
  by (cases d) (auto simp: drop_dot_def)

lemma domain_loop_chars: "domain_loop p b k s \<Longrightarrow> CHR '';'' \<notin> set s"
  by (induction p b k s rule: domain_loop.induct) (auto split: if_splits simp: is_alpha_def is_digit_def)

lemma split_on_chars: "list_all (\<lambda>s. x \<notin> set s) (split_on c s) \<Longrightarrow> x \<noteq> c \<Longrightarrow> x \<notin> set s"
proof (induction s)
  case (Cons y s)
  obtain w ws where w: "split_on c s = w # ws" by (cases "split_on c s") auto
  show ?case using Cons by (cases "y = c") (auto simp: w)
qed simp

lemma validCookieDomain_chars: "validCookieDomain d \<Longrightarrow> CHR '';'' \<notin> set (drop_dot d)"
proof -
  assume d: "validCookieDomain d"
  show ?thesis
  proof (cases "isCookieDomainName d")
    case True
    then show ?thesis using domain_loop_chars by (auto simp: isCookieDomainName_def)
  next
    case False
    with d have p: "list_all ipv4_part (split_on (CHR ''.'') d)" by (simp add: validCookieDomain_def is_ipv4_def)
    have "CHR '';'' \<notin> set d"
    proof (rule split_on_chars)
      show "list_all (\<lambda>s. CHR '';'' \<notin> set s) (split_on (CHR ''.'') d)"
        using p digit_plain by (auto simp: list_all_iff ipv4_part_def)
    qed simp
    with drop_dot_set show ?thesis by blast
  qed
qed

lemma cookie_attrs_chars: "list_all (\<lambda>a. CHR '';'' \<notin> set a) (cookie_attrs c)"
proof -
  have "CHR '';'' \<notin> set (filter validCookiePathByte p)" for p by (simp add: validCookiePathByte_def)
  moreover have "CHR '';'' \<notin> set (itoa n)" for n using itoa_decimal [of n] digit_plain by (auto simp: list_all_iff)
  then have "list_all (\<lambda>a. CHR '';'' \<notin> set a) (max_age_attr n)" for n by (simp add: max_age_attr_def)
  moreover have "list_all (\<lambda>a. CHR '';'' \<notin> set a) (same_site_attr x)" for x by (cases x) simp_all
  ultimately show ?thesis using validCookieDomain_chars by (simp add: cookie_attrs_def)
qed

lemma cookie_line_split:
  assumes "isToken (ck_Name c)"
  shows "split_on (CHR '';'') (Cookie_String c) =
    cookie_pair (ck_Name c) (ck_Value c) (ck_Quoted c) # map (Cons (CHR '' '')) (cookie_attrs c)"
  using split_attrs [OF cookie_pair_facts(1) [OF assms] cookie_attrs_chars] assms by (simp add: Cookie_String_def cookie_pair_def)

lemma Cookie_String_nonempty: "Cookie_String c \<noteq> [] \<longleftrightarrow> isToken (ck_Name c)"
  by (simp add: Cookie_String_def)

definition solid :: "http_cookie \<Rightarrow> bool" where
  "solid c \<longleftrightarrow> isToken (ck_Name c) \<and> \<not> ascii_space (last (Cookie_String c))"

lemma solid_trim: "solid c \<Longrightarrow> TrimString (Cookie_String c) = Cookie_String c"
proof -
  assume c: "solid c"
  then have t: "isToken (ck_Name c)" by (simp add: solid_def)
  then have "hd (Cookie_String c) = hd (ck_Name c)" using token_facts(1) by (simp add: Cookie_String_def)
  with c token_facts(4) [OF t] show ?thesis by (simp add: TrimString_id solid_def)
qed

text \<open>What a client reads from a Set-Cookie line: the cookie, its value without the bytes that a cookie cannot carry, and the attributes.\<close>

definition apply_attrs :: "string list \<Rightarrow> http_cookie \<Rightarrow> http_cookie" where
  "apply_attrs as c = foldl (\<lambda>c a. read_attr (CHR '' '' # a) c) c as"

lemma ParseSetCookie_String:
  assumes "solid c"
  shows "ParseSetCookie (Cookie_String c) =
    Some (apply_attrs (cookie_attrs c) (new_cookie (ck_Name c) (clean (ck_Value c)) (read_quoted (ck_Value c) (ck_Quoted c))))"
proof -
  have t: "isToken (ck_Name c)" using assms by (simp add: solid_def)
  note f = cookie_pair_facts [OF t, of "ck_Value c" "ck_Quoted c"]
  have "foldl (\<lambda>c part. read_attr part c) x (map (Cons (CHR '' '')) as) = apply_attrs as x" for x as
    by (simp add: apply_attrs_def foldl_map)
  with f t show ?thesis
    by (simp add: ParseSetCookie_def solid_trim [OF assms] cookie_line_split [OF t] token_facts(5) parse_sanitized clean_def read_quoted_def Let_def)
qed

text \<open>
  What the relay reads from the line that the helper makes of a cookie: first the cookie itself; its attributes follow, as cookies of
  their own.
\<close>

lemma readCookies_String:
  assumes "solid c"
  shows "readCookies [Cookie_String c] = new_cookie (ck_Name c) (clean (ck_Value c)) (read_quoted (ck_Value c) (ck_Quoted c)) #
    concat (map (\<lambda>a. read_pair (CHR '' '' # a)) (cookie_attrs c))"
proof -
  have t: "isToken (ck_Name c)" using assms by (simp add: solid_def)
  show ?thesis by (simp add: readCookies_def solid_trim [OF assms] cookie_line_split [OF t] read_pair_text [OF t] o_def)
qed

text \<open>No attribute changes the name or the value, and each sets its own field only.\<close>

lemma read_attr_keeps: "ck_Name (read_attr a c) = ck_Name c \<and> ck_Value (read_attr a c) = ck_Value c \<and> ck_Quoted (read_attr a c) = ck_Quoted c"
  by (auto simp: read_attr_def set_attr_def read_max_age_def Let_def split: option.split prod.split)

lemma apply_attrs_keeps:
  "ck_Name (apply_attrs as c) = ck_Name c \<and> ck_Value (apply_attrs as c) = ck_Value c \<and> ck_Quoted (apply_attrs as c) = ck_Quoted c"
  by (induction as arbitrary: c) (simp_all add: apply_attrs_def read_attr_keeps)

lemma ascii_lower_names:
  "ascii_ToLower ''HttpOnly'' = Some ''httponly''" "ascii_ToLower ''Secure'' = Some ''secure''" "ascii_ToLower ''SameSite'' = Some ''samesite''"
  "ascii_ToLower ''None'' = Some ''none''"
  by code_simp+

lemma read_attr_flags:
  "read_attr '' HttpOnly'' c = c\<lparr>ck_HttpOnly := True\<rparr>" "read_attr '' Secure'' c = c\<lparr>ck_Secure := True\<rparr>"
  "read_attr '' SameSite=None'' c = c\<lparr>ck_SameSite := SameSiteNoneMode\<rparr>"
  by (simp_all add: read_attr_def TrimString_def ascii_space_def ascii_lower_names parseCookieValue_def validCookieValueByte_def
      set_attr_def read_same_site_def)

text \<open>\<^verbatim>\<open>AddCookie\<close> on a request without cookies: what it adds is read as the cookie.\<close>

lemma readCookies_request: "isToken (ck_Name c) \<Longrightarrow> readCookies [request_cookie_text c] =
    [new_cookie (ck_Name c) (clean (ck_Value c)) (read_quoted (ck_Value c) (ck_Quoted c))]"
proof -
  assume t: "isToken (ck_Name c)"
  have e: "request_cookie_text c = cookie_pair (ck_Name c) (ck_Value c) (ck_Quoted c)"
    by (simp add: request_cookie_text_def cookie_pair_def token_facts(6) [OF t])
  note f = cookie_pair_facts [OF t, of "ck_Value c" "ck_Quoted c"]
  show ?thesis by (simp add: readCookies_def e f(2) split_on_none [OF f(1)] read_pair_text [OF t])
qed

lemma clean_id: "list_all validCookieValueByte v \<Longrightarrow> clean v = v"
  by (simp add: clean_def list_all_iff)

lemma clean_append [simp]: "clean (v @ w) = clean v @ clean w"
  by (simp add: clean_def)

lemma clean_clean [simp]: "clean (clean v) = clean v"
  by (simp add: clean_def)

lemma last_join_attrs: "as \<noteq> [] \<Longrightarrow> last as \<noteq> [] \<Longrightarrow> last (join_attrs as) = last (last as)"
proof (induction as)
  case (Cons a as)
  have "join_attrs as \<noteq> []" if "as \<noteq> []" using that by (cases as) simp_all
  with Cons show ?case by (cases "as = []") simp_all
qed simp

text \<open>A cookie that asks for \<^verbatim>\<open>SameSite=None\<close> last is solid, whatever its other fields.\<close>

lemma solid_same_site: "isToken (ck_Name c) \<Longrightarrow> ck_SameSite c = SameSiteNoneMode \<Longrightarrow> \<not> ck_Partitioned c \<Longrightarrow> solid c"
proof -
  assume c: "isToken (ck_Name c)" "ck_SameSite c = SameSiteNoneMode" "\<not> ck_Partitioned c"
  then obtain as where as: "cookie_attrs c = as @ [''SameSite=None'']" by (simp add: cookie_attrs_def)
  have "join_attrs (cookie_attrs c) \<noteq> []" by (cases as) (simp_all add: as)
  then have "last (Cookie_String c) = last (join_attrs (cookie_attrs c))" using c(1) by (simp add: Cookie_String_def)
  also have "\<dots> = CHR ''e''" using last_join_attrs [of "cookie_attrs c"] by (simp add: as)
  finally show ?thesis using c(1) by (simp add: solid_def ascii_space_def)
qed

lemma read_attr_value: "read_attr a (c\<lparr>ck_Value := v, ck_Quoted := q\<rparr>) = (read_attr a c)\<lparr>ck_Value := v, ck_Quoted := q\<rparr>"
  by (simp add: read_attr_def set_attr_def read_max_age_def Let_def split: option.split prod.split)

lemma apply_attrs_value: "apply_attrs as (c\<lparr>ck_Value := v, ck_Quoted := q\<rparr>) = (apply_attrs as c)\<lparr>ck_Value := v, ck_Quoted := q\<rparr>"
  by (induction as arbitrary: c) (simp_all add: apply_attrs_def read_attr_value)

lemma apply_attrs_append: "apply_attrs (as @ bs) c = apply_attrs bs (apply_attrs as c)"
  by (simp add: apply_attrs_def)

text \<open>An attribute with a value is read by its name, whatever the value.\<close>

lemma attr_name:
  assumes "CHR ''='' \<notin> set n" and "n \<noteq> []" and "\<not> ascii_space (hd n)"
  shows "fst (cut (CHR ''='') (TrimString (CHR '' '' # n @ CHR ''='' # v))) = n"
proof -
  have "\<not> ascii_space (CHR ''='')" by (simp add: ascii_space_def)
  then have d: "dropWhile ascii_space (rev (CHR ''='' # v)) = dropWhile ascii_space (rev v) @ [CHR ''=''] \<or>
      dropWhile ascii_space (rev (CHR ''='' # v)) = [CHR ''='']"
    by (simp add: dropWhile_append)
  have "\<exists>w. TrimString (n @ CHR ''='' # v) = n @ CHR ''='' # w"
  proof -
    have "dropWhile ascii_space (n @ CHR ''='' # v) = n @ CHR ''='' # v" using assms(2,3) by (cases n) simp_all
    moreover have "dropWhile ascii_space (rev v @ CHR ''='' # rev n) = dropWhile ascii_space (rev v) @ CHR ''='' # rev n \<or>
        dropWhile ascii_space (rev v @ CHR ''='' # rev n) = CHR ''='' # rev n"
      using \<open>\<not> ascii_space (CHR ''='')\<close> by (simp add: dropWhile_append)
    ultimately show ?thesis by (auto simp: TrimString_def)
  qed
  then obtain w where "TrimString (CHR '' '' # n @ CHR ''='' # v) = n @ CHR ''='' # w" using TrimString_space by metis
  with cut_found [OF assms(1)] show ?thesis by simp
qed

lemma read_attr_other:
  assumes "CHR ''='' \<notin> set n" and "n \<noteq> []" and "\<not> ascii_space (hd n)" and "ascii_ToLower n = Some m" and "m \<noteq> ''partitioned''"
  shows "ck_Partitioned (read_attr (CHR '' '' # n @ CHR ''='' # v) c) = ck_Partitioned c"
proof -
  have s: "ck_Partitioned (set_attr m x c) = ck_Partitioned c" for x using assms(5) by (simp add: set_attr_def read_max_age_def split: option.split)
  show ?thesis
  proof (cases "parseCookieValue (snd (cut (CHR ''='') (TrimString (CHR '' '' # n @ CHR ''='' # v)))) False")
    case (Some x)
    with s attr_name [OF assms(1-3), of v] assms(4) show ?thesis by (cases x) (simp add: read_attr_def Let_def)
  qed (use attr_name [OF assms(1-3), of v] assms(4) in \<open>simp add: read_attr_def Let_def\<close>)
qed

lemma ascii_lower_values:
  "ascii_ToLower ''Path'' = Some ''path''" "ascii_ToLower ''Domain'' = Some ''domain''" "ascii_ToLower ''Max-Age'' = Some ''max-age''"
  by code_simp+

lemma read_attr_values:
  "ck_Partitioned (read_attr ('' Path='' @ v) c) = ck_Partitioned c" "ck_Partitioned (read_attr ('' Domain='' @ v) c) = ck_Partitioned c"
  "ck_Partitioned (read_attr ('' Max-Age='' @ v) c) = ck_Partitioned c"
  using read_attr_other [of "''Path''" "''path''" v c] read_attr_other [of "''Domain''" "''domain''" v c] read_attr_other [of "''Max-Age''" "''max-age''" v c]
  by (simp_all add: ascii_lower_values ascii_space_def)

end
