(* ===== verification/Net_Http.thy ===== *)
theory Net_Http
  imports Url_Text Net_Cookie
begin

text \<open>
  What the program uses of Go's \<^verbatim>\<open>net/http\<close>: the parts of a request that the handlers read (the query and the header, whose Cookie
  fields hold the cookies), the response writer, whose header is sent with the status of the first \<^verbatim>\<open>WriteHeader\<close> (or with 200 by the
  first \<^verbatim>\<open>Write\<close>) and is fixed from then on, and the cookies of a response.
\<close>

section \<open>Requests\<close>

type_synonym http_header = "(string \<times> string) list"

record http_request =
  rq_RawQuery :: string
  rq_Header :: http_header

definition Query_Get :: "http_request \<Rightarrow> string \<Rightarrow> string" where
  "Query_Get r k = Values_Get k (ParseQuery (rq_RawQuery r))"

definition Header_Get :: "http_header \<Rightarrow> string \<Rightarrow> string" where
  "Header_Get h k = Values_Get k h"

definition Header_Values :: "http_header \<Rightarrow> string \<Rightarrow> string list" where
  "Header_Values h k = map snd (filter (\<lambda>p. fst p = k) h)"

text \<open>\<^verbatim>\<open>Request.Cookie\<close>: the first cookie of that name, or \<^verbatim>\<open>ErrNoCookie\<close>.\<close>

definition Request_Cookie :: "http_request \<Rightarrow> string \<Rightarrow> go_error + http_cookie" where
  "Request_Cookie r name =
     (if name = [] then Inl ErrNoCookie
      else case filter (\<lambda>c. ck_Name c = name) (readCookies (Header_Values (rq_Header r) ''Cookie'')) of
        [] \<Rightarrow> Inl ErrNoCookie
      | c # _ \<Rightarrow> Inr c)"

text \<open>\<^verbatim>\<open>Request.AddCookie\<close>, and the error of \<^verbatim>\<open>http.NewRequest\<close>, which reads its URL.\<close>

definition AddCookie :: "http_cookie \<Rightarrow> http_header \<Rightarrow> http_header" where
  "AddCookie c h =
     (let old = Header_Get h ''Cookie''; s = request_cookie_text c in Values_Set ''Cookie'' (if old \<noteq> [] then old @ ''; '' @ s else s) h)"

definition http_NewRequest :: "string \<Rightarrow> go_error option" where
  "http_NewRequest u = (case url_Parse u of Inl e \<Rightarrow> Some e | Inr _ \<Rightarrow> None)"

section \<open>Responses\<close>

record rw =
  rw_Header :: http_header
  rw_Sent :: "(nat \<times> http_header) option"
  rw_Body :: string

definition rw_New :: rw where
  "rw_New = \<lparr>rw_Header = [], rw_Sent = None, rw_Body = []\<rparr>"

definition Header_Set :: "string \<Rightarrow> string \<Rightarrow> rw \<Rightarrow> rw" where
  "Header_Set k v w = w\<lparr>rw_Header := Values_Set k v (rw_Header w)\<rparr>"

definition Header_Add :: "string \<Rightarrow> string \<Rightarrow> rw \<Rightarrow> rw" where
  "Header_Add k v w = w\<lparr>rw_Header := Values_Add k v (rw_Header w)\<rparr>"

definition Header_Del :: "string \<Rightarrow> rw \<Rightarrow> rw" where
  "Header_Del k w = w\<lparr>rw_Header := filter (\<lambda>p. fst p \<noteq> k) (rw_Header w)\<rparr>"

definition SetCookie :: "http_cookie \<Rightarrow> rw \<Rightarrow> rw" where
  "SetCookie c w = (if Cookie_String c = [] then w else Header_Add ''Set-Cookie'' (Cookie_String c) w)"

definition WriteHeader :: "nat \<Rightarrow> rw \<Rightarrow> rw" where
  "WriteHeader code w = (if rw_Sent w = None then w\<lparr>rw_Sent := Some (code, rw_Header w)\<rparr> else w)"

definition rw_Write :: "string \<Rightarrow> rw \<Rightarrow> rw" where
  "rw_Write b w = (WriteHeader 200 w)\<lparr>rw_Body := rw_Body w @ b\<rparr>"

definition http_Error :: "string \<Rightarrow> nat \<Rightarrow> rw \<Rightarrow> rw" where
  "http_Error msg code w =
     rw_Write (msg @ [char_of (10 :: nat)]) (WriteHeader code (Header_Set ''X-Content-Type-Options'' ''nosniff''
       (Header_Set ''Content-Type'' ''text/plain; charset=utf-8'' (Header_Del ''Content-Length'' w))))"

lemmas rw_defs = Header_Set_def Header_Add_def Header_Del_def WriteHeader_def rw_Write_def http_Error_def

text \<open>What the client sees: the status (an unwritten response is sent as an empty 200 when the handler returns).\<close>

definition rw_Status :: "rw \<Rightarrow> nat" where
  "rw_Status w = (case rw_Sent w of None \<Rightarrow> 200 | Some (code, _) \<Rightarrow> code)"

definition rw_HeaderSent :: "rw \<Rightarrow> http_header" where
  "rw_HeaderSent w = (case rw_Sent w of None \<Rightarrow> rw_Header w | Some (_, h) \<Rightarrow> h)"

text \<open>The Set-Cookie lines of a response, and the cookies that a client reads from them (\<^verbatim>\<open>Response.Cookies\<close>).\<close>

definition rw_SetCookies :: "rw \<Rightarrow> string list" where
  "rw_SetCookies w = Header_Values (rw_HeaderSent w) ''Set-Cookie''"

definition Response_Cookies :: "string list \<Rightarrow> http_cookie list" where
  "Response_Cookies lines = List.map_filter ParseSetCookie lines"

lemma Header_Values_simps [simp]:
  "Header_Values [] k = []" "Header_Values ((j, v) # h) k = (if j = k then v # Header_Values h k else Header_Values h k)"
  "Header_Values (h @ h') k = Header_Values h k @ Header_Values h' k"
  by (simp_all add: Header_Values_def)

lemma Header_Values_del: "k \<noteq> j \<Longrightarrow> Header_Values (filter (\<lambda>p. fst p \<noteq> j) h) k = Header_Values h k"
  by (induction h) (auto simp: Header_Values_def)

lemma Header_Values_Set: "k \<noteq> j \<Longrightarrow> Header_Values (Values_Set j v h) k = Header_Values h k"
  by (simp add: Values_Set_def Header_Values_del)

lemma Header_Values_Add: "Header_Values (Values_Add j v h) k = Header_Values h k @ (if j = k then [v] else [])"
  by (simp add: Values_Add_def)

lemma http_Error_fresh:
  assumes "rw_Sent w = None"
  shows "rw_Status (http_Error msg code w) = code" "rw_Body (http_Error msg code w) = rw_Body w @ msg @ [char_of (10 :: nat)]"
    "k \<notin> {''X-Content-Type-Options'', ''Content-Type'', ''Content-Length''} \<Longrightarrow>
      Values_Get k (rw_HeaderSent (http_Error msg code w)) = Values_Get k (rw_Header w)"
    "rw_SetCookies (http_Error msg code w) = Header_Values (rw_Header w) ''Set-Cookie''"
proof -
  show "rw_Status (http_Error msg code w) = code" "rw_Body (http_Error msg code w) = rw_Body w @ msg @ [char_of (10 :: nat)]"
    "rw_SetCookies (http_Error msg code w) = Header_Values (rw_Header w) ''Set-Cookie''"
    using assms by (simp_all add: rw_defs rw_Status_def rw_SetCookies_def rw_HeaderSent_def Header_Values_Set Header_Values_del)
  assume "k \<notin> {''X-Content-Type-Options'', ''Content-Type'', ''Content-Length''}"
  moreover have "k \<noteq> j \<Longrightarrow> Values_Get k (filter (\<lambda>p. fst p \<noteq> j) h) = Values_Get k h" for j h
    using Values_Get_Set [of k j "[]" h] by (simp add: Values_Set_def Values_Get_def filter_filter split: list.splits)
  ultimately show "Values_Get k (rw_HeaderSent (http_Error msg code w)) = Values_Get k (rw_Header w)"
    using assms by (simp add: rw_defs rw_HeaderSent_def)
qed

end
