(* ===== verification/Requests.thy ===== *)
theory Requests
  imports Net_Http Session_Iface
begin

text \<open>
  The HTTP requests of the relay and of the Cookie Server: \<^verbatim>\<open>src/request/request.go\<close>, \<^verbatim>\<open>src/relay/request/request.go\<close>,
  \<^verbatim>\<open>src/relay/request/corprelay/connect/connect.go\<close>, \<^verbatim>\<open>src/relay/request/corprelay/proxy/proxy.go\<close> and
  \<^verbatim>\<open>src/cookie-server/request/cookie/cookie.go\<close>. Each parser returns an error or a normalised request; \<open>uint\<close> has 64 bits.
\<close>

section \<open>Parsers\<close>

definition Uint :: "http_request \<Rightarrow> string \<Rightarrow> 64 word \<times> go_error option" where
  "Uint req key = ParseUint (Query_Get req key)"

fun str_contains :: "string \<Rightarrow> string \<Rightarrow> bool" where
  "str_contains sub [] \<longleftrightarrow> sub = []"
| "str_contains sub (c # s) \<longleftrightarrow> take (length sub) (c # s) = sub \<or> str_contains sub s"

definition Origin :: "http_request \<Rightarrow> string \<Rightarrow> go_error + string" where
  "Origin req name =
     (if name = [] then Inl ErrBadOrigin
      else case Request_Cookie req name of
        Inl e \<Rightarrow> Inl (Wrap (''req.Cookie('' @ name @ '') error: '') e [])
      | Inr c \<Rightarrow> if \<not> str_contains ''://'' (ck_Value c) then Inl ErrBadOrigin else Inr (ck_Value c))"

record connect_request =
  cn_SID :: uuid
  cn_ack :: "64 word"
  cn_pos :: "64 word"
  cn_try :: "64 word"

definition connect_New :: "uuid_lib \<Rightarrow> http_request \<Rightarrow> go_error + connect_request" where
  "connect_New U req =
     (case uuid_Parse U (Query_Get req ''sid'') of
        (_, Some _) \<Rightarrow> Inl ErrBadRequest
      | (sid, None) \<Rightarrow>
          (case Uint req ''ack'' of
             (_, Some _) \<Rightarrow> Inl ErrBadRequest
           | (ack, None) \<Rightarrow>
               if ack \<noteq> 0 then Inl ErrBadRequest
               else case Uint req ''pos'' of
                 (_, Some _) \<Rightarrow> Inl ErrBadRequest
               | (pos, None) \<Rightarrow>
                   if pos \<noteq> 0 then Inl ErrBadRequest
                   else case Uint req ''try'' of
                     (_, Some _) \<Rightarrow> Inl ErrBadRequest
                   | (try_, None) \<Rightarrow> Inr \<lparr>cn_SID = sid, cn_ack = ack, cn_pos = pos, cn_try = try_\<rparr>))"

record proxy_request =
  px_Host :: string
  px_Port :: string

definition proxy_New :: "http_request \<Rightarrow> go_error + proxy_request" where
  "proxy_New req =
     (let r = \<lparr>px_Host = Query_Get req ''host'', px_Port = Query_Get req ''port''\<rparr> in
      if px_Host r = [] \<or> px_Port r = [] then Inl ErrBadRequest else Inr r)"

datatype RedirectionMethod = METHOD_UNSPECIFIED | HTTP_REDIRECT | DIRECT | JS_REDIRECT | OtherMethod int

record cookie_request =
  cr_Ext :: string
  cr_Path :: string
  cr_Version :: "32 word"
  cr_Method :: RedirectionMethod

definition redirectionMethodMap :: "string \<rightharpoonup> RedirectionMethod" where
  "redirectionMethodMap = [''direct'' \<mapsto> DIRECT, ''js-redirect'' \<mapsto> JS_REDIRECT]"

text \<open>
  The part of \<^verbatim>\<open>cookie.New\<close> that reads the version: the value of \<^verbatim>\<open>int32(v)\<close>, or the request is bad.
\<close>

definition cookie_version :: "http_request \<Rightarrow> string \<Rightarrow> go_error + 32 word" where
  "cookie_version req method =
     (if Query_Get req ''version'' = [] then Inr 1
      else case Uint req ''version'' of
        (_, Some _) \<Rightarrow> Inl ErrBadRequest
      | (v, None) \<Rightarrow>
          if v < 1 then Inl ErrBadRequest
          else if 2 \<le> v \<and> method = [] then Inl ErrBadRequest
          else Inr (ucast v))"

definition cookie_New :: "http_request \<Rightarrow> go_error + cookie_request" where
  "cookie_New req =
     (let r = \<lparr>cr_Ext = Query_Get req ''ext'', cr_Path = Query_Get req ''path'', cr_Version = 1, cr_Method = HTTP_REDIRECT\<rparr>;
          method = Query_Get req ''method'' in
      if cr_Ext r = [] \<or> cr_Path r = [] then Inl ErrBadRequest
      else case cookie_version req method of
        Inl e \<Rightarrow> Inl e
      | Inr v \<Rightarrow>
          let r = r\<lparr>cr_Version := v\<rparr> in
          if method \<noteq> [] then
            (if cr_Version r = 1 then Inl ErrBadRequest
             else case redirectionMethodMap method of
               None \<Rightarrow> Inl ErrBadRequest
             | Some m \<Rightarrow> Inr (r\<lparr>cr_Method := m\<rparr>))
          else Inr r)"

section \<open>What an accepted request guarantees\<close>

lemma contains_iff: "str_contains sub s \<longleftrightarrow> (\<exists>a b. s = a @ sub @ b)"
proof (induction s)
  case (Cons c s)
  show ?case
  proof
    assume "str_contains sub (c # s)"
    then consider "take (length sub) (c # s) = sub" | "str_contains sub s" by auto
    then show "\<exists>a b. c # s = a @ sub @ b"
    proof cases
      case 1
      then have "c # s = [] @ sub @ drop (length sub) (c # s)"
        using append_take_drop_id [of "length sub" "c # s"] by simp
      then show ?thesis by blast
    next
      case 2
      then show ?thesis using Cons by (metis append_Cons)
    qed
  next
    assume "\<exists>a b. c # s = a @ sub @ b"
    then obtain a b where ab: "c # s = a @ sub @ b" by blast
    show "str_contains sub (c # s)"
    proof (cases a)
      case Nil
      then have "take (length sub) (c # s) = sub" using ab by simp
      then show ?thesis by simp
    next
      case (Cons x a')
      then show ?thesis using ab \<open>str_contains sub s = _\<close> by auto
    qed
  qed
qed auto

text \<open>
  The relay only accepts an origin that the Cookie Server can have set: the cookie is configured, present, and its
  value has a scheme separator; otherwise the request is refused with \<open>ErrBadOrigin\<close> or a missing cookie.
\<close>

lemma Origin_exact:
  "Origin req name = Inr v \<longleftrightarrow> (\<exists>c. Request_Cookie req name = Inr c \<and> ck_Name c = name \<and> name \<noteq> [] \<and> v = ck_Value c \<and> (\<exists>a b. v = a @ ''://'' @ b))"
proof -
  have n: "ck_Name c = name \<and> name \<noteq> []" if "Request_Cookie req name = Inr c" for c
    using that by (auto simp: Request_Cookie_def split: if_splits list.splits dest!: filter_eq_ConsD)
  have "Origin req name = Inr v \<longleftrightarrow> (\<exists>c. Request_Cookie req name = Inr c \<and> v = ck_Value c \<and> str_contains ''://'' v)"
    using n by (auto simp: Origin_def split: sum.splits if_splits)
  with n show ?thesis by (auto simp: contains_iff)
qed

lemma connect_New_ok:
  "connect_New U req = Inr r \<Longrightarrow> uuid_Parse U (Query_Get req ''sid'') = (cn_SID r, None) \<and> cn_ack r = 0 \<and> cn_pos r = 0"
  by (auto simp: connect_New_def split: prod.splits option.splits if_splits)

lemma connect_New_error: "connect_New U req = Inl e \<Longrightarrow> e = ErrBadRequest"
  by (auto simp: connect_New_def split: prod.splits option.splits if_splits)

lemma redirectionMethodMap_Some: "redirectionMethodMap m = Some x \<Longrightarrow> x \<in> {DIRECT, JS_REDIRECT}"
  by (auto simp: redirectionMethodMap_def split: if_splits)

lemma cookie_version_cases:
  assumes "cookie_version req [] = Inr v"
  shows "v = 1"
proof (cases "Query_Get req ''version'' = []")
  case False
  then obtain w :: "64 word" where w: "w \<noteq> 0" "w < 2" "v = ucast w"
    using assms by (auto simp: cookie_version_def not_le split: prod.splits option.splits if_splits)
  from w(1,2) have "unat w \<noteq> 0" "unat w < 2" by (simp_all add: unat_eq_0 word_less_nat_alt)
  then have "unat w = 1" by simp
  then have "w = 1" by (metis of_nat_1 of_nat_unat ucast_id)
  with w(3) show ?thesis by simp
qed (use assms in \<open>simp add: cookie_version_def\<close>)

text \<open>
  C35. A cookie request that is accepted is consistent: extension and path are set, and it is a version 1 request exactly
  when it asks for an HTTP redirection; any other version has named one of the two other methods. This holds for every
  number the client gives as version, although the number is cut to 32 bits.
\<close>

theorem cookie_request_consistent:
  assumes "cookie_New req = Inr r"
  shows "cr_Ext r \<noteq> [] \<and> cr_Path r \<noteq> [] \<and> (cr_Version r = 1 \<longleftrightarrow> cr_Method r = HTTP_REDIRECT) \<and>
    cr_Method r \<in> {HTTP_REDIRECT, DIRECT, JS_REDIRECT}"
  using assms cookie_version_cases redirectionMethodMap_Some
  by (fastforce simp: cookie_New_def Let_def split: if_splits sum.splits option.splits)

text \<open>
  The version of an accepted cookie request is not the number the client sent when that has more than 31 bits: the
  request is accepted all the same, with a version that may be any 32 bit value other than 1, negative ones included.
\<close>

lemma cookie_version_truncated:
  assumes "Query_Get req ''ext'' \<noteq> []" and "Query_Get req ''path'' \<noteq> []" and "Query_Get req ''method'' = ''direct''"
    and "Query_Get req ''version'' = itoa n" and "1 \<le> n" and "n < 2 ^ 64" and "n mod 2 ^ 32 \<noteq> 1"
  shows "cookie_New req = Inr \<lparr>cr_Ext = Query_Get req ''ext'', cr_Path = Query_Get req ''path'', cr_Version = of_nat n, cr_Method = DIRECT\<rparr>"
proof -
  have "\<not> (of_nat n :: 64 word) < 1"
    using assms(5,6) by (simp add: word_less_nat_alt unat_of_nat)
  moreover have "ucast (of_nat n :: 64 word) = (of_nat n :: 32 word)"
    using assms(6) by (simp add: unsigned_of_nat take_bit_nat_eq_self)
  ultimately have "cookie_version req ''direct'' = Inr (of_nat n)"
    using assms(4,6) itoa_decimal [of n] by (simp add: cookie_version_def Uint_def)
  moreover have "(of_nat n :: 32 word) \<noteq> 1"
  proof
    assume "(of_nat n :: 32 word) = 1"
    then have "unat (of_nat n :: 32 word) = 1" by simp
    with assms(7) show False by (simp add: unat_of_nat)
  qed
  ultimately show ?thesis using assms(1,2,3) by (simp add: cookie_New_def Let_def redirectionMethodMap_def)
qed

text \<open>A request with the given query values, as a client of the program encodes it.\<close>

definition query_request :: "url_values \<Rightarrow> http_request" where
  "query_request vs = \<lparr>rq_RawQuery = Values_Encode vs, rq_Header = []\<rparr>"

lemma Query_Get_request [simp]: "Query_Get (query_request vs) k = Values_Get k vs"
  by (simp add: Query_Get_def query_request_def)

theorem cookie_request_consistent_witness:
  "let r = \<lparr>cr_Ext = ''x'', cr_Path = ''/'', cr_Version = 2, cr_Method = DIRECT\<rparr> in
    cr_Ext r \<noteq> [] \<and> cr_Path r \<noteq> [] \<and> (cr_Version r = 1 \<longleftrightarrow> cr_Method r = HTTP_REDIRECT) \<and>
    cr_Method r \<in> {HTTP_REDIRECT, DIRECT, JS_REDIRECT}"
proof -
  have "cookie_New (query_request [(''ext'', ''x''), (''path'', ''/''), (''method'', ''direct''), (''version'', ''2'')]) =
      Inr \<lparr>cr_Ext = ''x'', cr_Path = ''/'', cr_Version = 2, cr_Method = DIRECT\<rparr>"
    by (simp add: cookie_New_def cookie_version_def Uint_def ParseUint_def uint_cutoff_def is_digit_def Let_def redirectionMethodMap_def)
  from cookie_request_consistent [OF this] show ?thesis unfolding Let_def .
qed

end
