(* ===== verification/Http_Server.thy ===== *)
theory Http_Server
  imports Net_Http
begin

text \<open>
  The configuration of HTTP servers and clients: \<^verbatim>\<open>src/duration/duration.go\<close>, \<^verbatim>\<open>src/tls/tls.go\<close>, \<^verbatim>\<open>src/http/server.go\<close> and
  \<^verbatim>\<open>src/http/client.go\<close>. The protocol buffer messages are records; a message pointer that may be nil is an option. A duration
  message is represented by the value of its \<^verbatim>\<open>AsDuration\<close> in nanoseconds (\<^verbatim>\<open>google.golang.org/protobuf\<close> is not part of the
  program). Files and certificates are read through the fields of \<open>tls_env\<close>. Error texts that print a pointer or a duration
  keep only their fixed part.
\<close>

section \<open>Durations\<close>

type_synonym Duration = int

definition FromProto :: "Duration \<Rightarrow> Duration option \<Rightarrow> Duration \<times> go_error option" where
  "FromProto dst src =
     (case src of
        None \<Rightarrow> (dst, None)
      | Some d \<Rightarrow> (d, if d < 0 then Some (NewError ''negative duration'') else None))"

lemma FromProto_ok: "FromProto dst src = (d, None) \<longleftrightarrow> (case src of None \<Rightarrow> d = dst | Some x \<Rightarrow> d = x \<and> 0 \<le> x)"
  by (auto simp: FromProto_def split: option.splits)

section \<open>TLS\<close>

datatype TlsMode = TLS_MODE_UNSPECIFIED | TLS_MODE_DISABLED | TLS_MODE_ENABLED | OtherTlsMode int

datatype pb_ClientAuthType =
  CLIENT_AUTH_TYPE_UNSPECIFIED | NO_CLIENT_CERT | REQUEST_CLIENT_CERT | REQUIRE_ANY_CLIENT_CERT
  | VERIFY_CLIENT_CERT_IF_GIVEN | REQUIRE_AND_VERIFY_CLIENT_CERT | OtherClientAuthType int

record TlsConfig =
  tc_CertFile :: string
  tc_KeyFile :: string
  tc_RootCaCerts :: "string list"
  tc_ClientCaCerts :: "string list"
  tc_ClientAuthType :: pb_ClientAuthType
  tc_TlsMode :: TlsMode

text \<open>The generated getters, which also work on a nil message.\<close>

definition GetTlsMode :: "TlsConfig option \<Rightarrow> TlsMode" where
  "GetTlsMode c = (case c of None \<Rightarrow> TLS_MODE_UNSPECIFIED | Some t \<Rightarrow> tc_TlsMode t)"

definition GetClientAuthType :: "TlsConfig option \<Rightarrow> pb_ClientAuthType" where
  "GetClientAuthType c = (case c of None \<Rightarrow> CLIENT_AUTH_TYPE_UNSPECIFIED | Some t \<Rightarrow> tc_ClientAuthType t)"

definition GetRootCaCerts :: "TlsConfig option \<Rightarrow> string list" where
  "GetRootCaCerts c = (case c of None \<Rightarrow> [] | Some t \<Rightarrow> tc_RootCaCerts t)"

definition GetClientCaCerts :: "TlsConfig option \<Rightarrow> string list" where
  "GetClientCaCerts c = (case c of None \<Rightarrow> [] | Some t \<Rightarrow> tc_ClientCaCerts t)"

datatype tls_ClientAuthType = NoClientCert | RequestClientCert | RequireAnyClientCert | VerifyClientCertIfGiven | RequireAndVerifyClientCert

definition VersionTLS12 :: nat where "VersionTLS12 = 0x0303"

definition TLSMinVersion :: nat where "TLSMinVersion = VersionTLS12"

text \<open>A certificate pool is the list of the file contents added to it; \<open>None\<close> is the nil pool, which stands for the system's.\<close>

record tls_Config =
  tls_ClientAuth :: tls_ClientAuthType
  tls_MinVersion :: nat
  tls_ClientCAs :: "string list option"
  tls_RootCAs :: "string list option"
  tls_Certificates :: "string list"

record tls_env =
  os_ReadFile :: "string \<Rightarrow> go_error + string"
  pem_has_certs :: "string \<Rightarrow> bool"
  LoadX509KeyPair :: "string \<Rightarrow> string \<Rightarrow> go_error + string"

fun clientAuthMap :: "pb_ClientAuthType \<Rightarrow> tls_ClientAuthType option" where
  "clientAuthMap CLIENT_AUTH_TYPE_UNSPECIFIED = Some RequireAndVerifyClientCert"
| "clientAuthMap NO_CLIENT_CERT = Some NoClientCert"
| "clientAuthMap REQUEST_CLIENT_CERT = Some RequestClientCert"
| "clientAuthMap REQUIRE_ANY_CLIENT_CERT = Some RequireAnyClientCert"
| "clientAuthMap VERIFY_CLIENT_CERT_IF_GIVEN = Some VerifyClientCertIfGiven"
| "clientAuthMap REQUIRE_AND_VERIFY_CLIENT_CERT = Some RequireAndVerifyClientCert"
| "clientAuthMap (OtherClientAuthType _) = None"

definition ClientAuthType :: "pb_ClientAuthType \<Rightarrow> go_error + tls_ClientAuthType" where
  "ClientAuthType t = (case clientAuthMap t of Some v \<Rightarrow> Inr v | None \<Rightarrow> Inl ErrBadClientAuthType)"

fun append_certs :: "tls_env \<Rightarrow> string list \<Rightarrow> string list \<Rightarrow> go_error + string list" where
  "append_certs E pool [] = Inr pool"
| "append_certs E pool (f # fs) =
     (case os_ReadFile E f of
        Inl e \<Rightarrow> Inl (Wrap (''ReadFile('' @ f @ '') error: '') e [])
      | Inr b \<Rightarrow> if \<not> pem_has_certs E b then Inl (NewError ''AppendCertsFromPEM() error: %!w(<nil>)'')
                 else append_certs E (pool @ [b]) fs)"

definition loadCerts :: "tls_env \<Rightarrow> string list \<Rightarrow> go_error + string list option" where
  "loadCerts E certs = (if certs = [] then Inr None else map_sum id Some (append_certs E [] certs))"

text \<open>\<^verbatim>\<open>Config\<close> returns a nil configuration when TLS is disabled.\<close>

definition tls_Config_of :: "tls_env \<Rightarrow> TlsConfig option \<Rightarrow> go_error + tls_Config option" where
  "tls_Config_of E cfg =
     (if GetTlsMode cfg = TLS_MODE_DISABLED then Inr None
      else case ClientAuthType (GetClientAuthType cfg) of
        Inl e \<Rightarrow> Inl e
      | Inr cat \<Rightarrow>
          (case loadCerts E (GetClientCaCerts cfg) of
             Inl e \<Rightarrow> Inl e
           | Inr clientCAs \<Rightarrow>
               (case loadCerts E (GetRootCaCerts cfg) of
                  Inl e \<Rightarrow> Inl e
                | Inr rootCAs \<Rightarrow> Inr (Some \<lparr>tls_ClientAuth = cat, tls_MinVersion = TLSMinVersion,
                    tls_ClientCAs = clientCAs, tls_RootCAs = rootCAs, tls_Certificates = []\<rparr>))))"

text \<open>
  \<^verbatim>\<open>CertConfig\<close> reads fields of the message and sets a field of the configuration: it panics on a nil message and on a
  configuration that is nil because TLS is disabled.
\<close>

definition CertConfig :: "tls_env \<Rightarrow> TlsConfig option \<Rightarrow> (go_error + tls_Config) go" where
  "CertConfig E cfg =
     (case tls_Config_of E cfg of
        Inl e \<Rightarrow> Ret (Inl e)
      | Inr c \<Rightarrow>
          (case cfg of
             None \<Rightarrow> Panic NilDereference
           | Some t \<Rightarrow>
               (case LoadX509KeyPair E (tc_CertFile t) (tc_KeyFile t) of
                  Inl e \<Rightarrow> Ret (Inl e)
                | Inr cert \<Rightarrow>
                    (case c of None \<Rightarrow> Panic NilDereference | Some c' \<Rightarrow> Ret (Inr (c'\<lparr>tls_Certificates := [cert]\<rparr>))))))"

datatype TransportCredentials = InsecureCredentials | TLSCredentials tls_Config

definition TransportCreds :: "tls_env \<Rightarrow> TlsConfig option \<Rightarrow> (go_error + TransportCredentials) go" where
  "TransportCreds E cfg =
     (if GetTlsMode cfg = TLS_MODE_DISABLED then Ret (Inr InsecureCredentials)
      else go_bind (CertConfig E cfg) (\<lambda>r. Ret (case r of
             Inl e \<Rightarrow> Inl (Wrap ''CertConfig() error: '' e [])
           | Inr c \<Rightarrow> Inr (TLSCredentials c))))"

section \<open>HTTP servers\<close>

record HttpServer =
  hs_ReadTimeout :: "Duration option"
  hs_ReadHeaderTimeout :: "Duration option"
  hs_WriteTimeout :: "Duration option"
  hs_IdleTimeout :: "Duration option"
  hs_MaxHeaderBytes :: int

definition HttpServer_New :: HttpServer where
  "HttpServer_New = \<lparr>hs_ReadTimeout = None, hs_ReadHeaderTimeout = None, hs_WriteTimeout = None, hs_IdleTimeout = None, hs_MaxHeaderBytes = 0\<rparr>"

record HttpServerOptions =
  so_Addr :: string
  so_Port :: string
  so_HttpServer :: "HttpServer option"
  so_TlsConfig :: "TlsConfig option"
  so_HstsMaxAge :: "Duration option"
  so_HstsIncludeSubdomains :: bool

record server =
  sv_cfg :: HttpServerOptions
  sv_Addr :: string
  sv_MaxHeaderBytes :: int
  sv_TLSConfig :: "tls_Config option"
  sv_ReadTimeout :: Duration
  sv_ReadHeaderTimeout :: Duration
  sv_WriteTimeout :: Duration
  sv_IdleTimeout :: Duration
  sv_hstsMaxAge :: Duration

text \<open>
  The loop over the four timeouts. The source iterates over a map, in no fixed order; the order only decides which of
  several errors is reported.
\<close>

fun set_timeouts :: "Duration option list \<Rightarrow> go_error + Duration list" where
  "set_timeouts [] = Inr []"
| "set_timeouts (src # ss) =
     (case FromProto 0 src of
        (_, Some e) \<Rightarrow> Inl (Wrap ''duration.FromProto() error: '' e [])
      | (d, None) \<Rightarrow> map_sum id ((#) d) (set_timeouts ss))"

definition NewServer :: "tls_env \<Rightarrow> HttpServerOptions \<Rightarrow> go_error + server" where
  "NewServer E cfg =
     (case SplitHostPort (so_Addr cfg) of
        Inr _ \<Rightarrow> Inl ErrBadAddr
      | Inl _ \<Rightarrow>
          if so_Port cfg = [] then Inl ErrMissingPort
          else
            let hs = (case so_HttpServer cfg of None \<Rightarrow> HttpServer_New | Some h \<Rightarrow> h);
                cfg = cfg\<lparr>so_HttpServer := Some hs\<rparr> in
            if so_TlsConfig cfg = None then Inl ErrNoTLSConfig
            else case tls_Config_of E (so_TlsConfig cfg) of
              Inl e \<Rightarrow> Inl (Wrap ''tls.Config() error: '' e [])
            | Inr tlsConfig \<Rightarrow>
                (case set_timeouts [hs_ReadTimeout hs, hs_ReadHeaderTimeout hs, hs_WriteTimeout hs, hs_IdleTimeout hs] of
                   Inl e \<Rightarrow> Inl e
                 | Inr ts \<Rightarrow>
                     (case FromProto 0 (so_HstsMaxAge cfg) of
                        (_, Some e) \<Rightarrow> Inl e
                      | (age, None) \<Rightarrow> Inr \<lparr>sv_cfg = cfg, sv_Addr = JoinHostPort (so_Addr cfg) (so_Port cfg),
                          sv_MaxHeaderBytes = hs_MaxHeaderBytes hs, sv_TLSConfig = tlsConfig,
                          sv_ReadTimeout = ts ! 0, sv_ReadHeaderTimeout = ts ! 1, sv_WriteTimeout = ts ! 2, sv_IdleTimeout = ts ! 3,
                          sv_hstsMaxAge = age\<rparr>)))"

definition NoCache :: "rw \<Rightarrow> rw" where
  "NoCache w = Header_Set ''Pragma'' ''no-cache''
     (Header_Set ''Cache-Control'' ''no-store, no-cache, must-revalidate, max-age=0'' w)"

text \<open>
  \<^verbatim>\<open>int(d.Seconds())\<close> for a duration that is not negative. The source goes through a float64, which is exact for whole
  seconds and below \<open>2^23\<close> seconds.
\<close>

definition whole_seconds :: "Duration \<Rightarrow> int" where
  "whole_seconds d = d div 1000000000"

definition SetHSTS :: "Duration \<Rightarrow> bool \<Rightarrow> rw \<Rightarrow> rw" where
  "SetHSTS d subdomains w =
     (let w = Header_Add ''Strict-Transport-Security'' (''max-age='' @ itoa (nat (whole_seconds d))) w in
      if subdomains then Header_Add ''Strict-Transport-Security'' ''includeSubDomains'' w else w)"

text \<open>The handler that \<^verbatim>\<open>HandleFunc\<close> registers for \<open>handler\<close>; \<open>'a\<close> is what becomes of the state the handler works on.\<close>

definition HandleFunc :: "server \<Rightarrow> (http_request \<Rightarrow> rw \<Rightarrow> 'a) \<Rightarrow> http_request \<Rightarrow> rw \<Rightarrow> 'a" where
  "HandleFunc sv handler r w = handler r (SetHSTS (sv_hstsMaxAge sv) (so_HstsIncludeSubdomains (sv_cfg sv)) (NoCache w))"

datatype listener = ListenAndServe string | ListenAndServeTLS string string string

definition Server_Run :: "server \<Rightarrow> listener go" where
  "Server_Run sv =
     (if GetTlsMode (so_TlsConfig (sv_cfg sv)) = TLS_MODE_DISABLED then Ret (ListenAndServe (sv_Addr sv))
      else case so_TlsConfig (sv_cfg sv) of
        None \<Rightarrow> Panic NilDereference
      | Some t \<Rightarrow> Ret (ListenAndServeTLS (sv_Addr sv) (tc_CertFile t) (tc_KeyFile t)))"

section \<open>HTTP clients\<close>

record HttpTransport =
  ht_TlsConfig :: "TlsConfig option"
  ht_ResponseHeaderTimeout :: "Duration option"
  ht_MaxResponseHeaderBytes :: int

datatype http_client = DefaultClient | TransportClient int Duration "tls_Config option"

definition NewClient :: "tls_env \<Rightarrow> HttpTransport option \<Rightarrow> (go_error + http_client) go" where
  "NewClient E cfg =
     (case cfg of
        None \<Rightarrow> Ret (Inr DefaultClient)
      | Some t \<Rightarrow>
          if ht_TlsConfig t = None then Ret (Inr DefaultClient)
          else case FromProto 0 (ht_ResponseHeaderTimeout t) of
            (_, Some e) \<Rightarrow> Ret (Inl (Wrap ''duration.FromProto() error: '' e []))
          | (d, None) \<Rightarrow>
              if GetTlsMode (ht_TlsConfig t) \<noteq> TLS_MODE_DISABLED then
                go_bind (CertConfig E (ht_TlsConfig t)) (\<lambda>r. Ret (case r of
                    Inl e \<Rightarrow> Inl (Wrap ''tls.CertConfig() error: '' e [])
                  | Inr c \<Rightarrow> Inr (TransportClient (ht_MaxResponseHeaderBytes t) d (Some c))))
              else Ret (Inr (TransportClient (ht_MaxResponseHeaderBytes t) d None)))"

section \<open>Correctness\<close>

lemma set_timeouts_ok:
  "set_timeouts srcs = Inr ds \<Longrightarrow> length ds = length srcs \<and> list_all (\<lambda>d. 0 \<le> d) ds"
proof (induction srcs arbitrary: ds)
  case (Cons s ss)
  from Cons.prems obtain d ds' where d: "FromProto 0 s = (d, None)" "set_timeouts ss = Inr ds'" "ds = d # ds'"
    by (auto split: prod.splits option.splits simp: map_sum_def split: sum.splits)
  have "0 \<le> d" using d(1) by (auto simp: FromProto_ok split: option.splits)
  with Cons.IH [OF d(2)] d(3) show ?case by simp
qed simp

lemma tls_Config_of_None: "tls_Config_of E cfg = Inr None \<longleftrightarrow> GetTlsMode cfg = TLS_MODE_DISABLED"
  by (auto simp: tls_Config_of_def split: sum.splits)

lemma tls_Config_of_Some:
  "tls_Config_of E cfg = Inr (Some c) \<Longrightarrow> tls_MinVersion c = VersionTLS12 \<and> clientAuthMap (GetClientAuthType cfg) = Some (tls_ClientAuth c) \<and>
     tls_Certificates c = []"
  by (auto simp: tls_Config_of_def ClientAuthType_def TLSMinVersion_def split: sum.splits if_splits option.splits)


lemma CertConfig_returns: "GetTlsMode cfg \<noteq> TLS_MODE_DISABLED \<Longrightarrow> cfg \<noteq> None \<Longrightarrow> returns (CertConfig E cfg)"
  using tls_Config_of_None [of E cfg] by (auto simp: CertConfig_def returns_def split: sum.splits option.splits)

lemma NewClient_returns: "returns (NewClient E t)"
proof (cases "\<exists>h. t = Some h \<and> ht_TlsConfig h \<noteq> None \<and> GetTlsMode (ht_TlsConfig h) \<noteq> TLS_MODE_DISABLED")
  case True
  then obtain h where h: "t = Some h" "ht_TlsConfig h \<noteq> None" "GetTlsMode (ht_TlsConfig h) \<noteq> TLS_MODE_DISABLED" by blast
  then have "returns (CertConfig E (ht_TlsConfig h))" by (intro CertConfig_returns)
  then obtain c where "CertConfig E (ht_TlsConfig h) = Ret c" by (auto simp: returns_iff)
  with h show ?thesis by (simp add: NewClient_def returns_def split: prod.splits option.splits)
next
  case False
  then show ?thesis by (auto simp: NewClient_def returns_def split: prod.splits option.splits)
qed

text \<open>
  Making an HTTP client never panics, whatever its configuration; making gRPC credentials panics exactly on a missing TLS
  configuration (when nothing else fails first), so the Cookie Server and its backends crash at start when
  \<^verbatim>\<open>grpc_options.tls_config\<close> is left out.
\<close>

lemma client_panics_only_without_tls_config:
  "returns (NewClient E t) \<and> (returns (TransportCreds E cfg) \<longleftrightarrow> cfg \<noteq> None)"
proof
  show "returns (NewClient E t)"
    by (rule NewClient_returns)
  show "returns (TransportCreds E cfg) \<longleftrightarrow> cfg \<noteq> None"
  proof (cases cfg)
    case None
    have "CertConfig E None = Panic NilDereference"
      by (simp add: CertConfig_def tls_Config_of_def GetTlsMode_def ClientAuthType_def GetClientAuthType_def loadCerts_def GetClientCaCerts_def GetRootCaCerts_def)
    then show ?thesis using None by (simp add: TransportCreds_def GetTlsMode_def returns_def)
  next
    case (Some x)
    then show ?thesis using CertConfig_returns [of cfg E] by (auto simp: TransportCreds_def returns_iff)
  qed
qed

text \<open>
  A server is only made from a complete configuration: the address carries no port of its own, the port and the TLS
  configuration are set, every timeout and the HSTS age are non-negative, and running it does not panic and uses plain HTTP
  only when TLS is explicitly disabled.
\<close>

lemma NewServer_valid:
  assumes "NewServer E cfg = Inr sv"
  shows "so_Port cfg \<noteq> [] \<and> isl (SplitHostPort (so_Addr cfg)) \<and> so_TlsConfig cfg \<noteq> None \<and>
    sv_Addr sv = JoinHostPort (so_Addr cfg) (so_Port cfg) \<and>
    0 \<le> sv_ReadTimeout sv \<and> 0 \<le> sv_ReadHeaderTimeout sv \<and> 0 \<le> sv_WriteTimeout sv \<and> 0 \<le> sv_IdleTimeout sv \<and> 0 \<le> sv_hstsMaxAge sv \<and>
    (\<exists>l. Server_Run sv = Ret l \<and> (l = ListenAndServe (sv_Addr sv) \<longleftrightarrow> GetTlsMode (so_TlsConfig cfg) = TLS_MODE_DISABLED))"
proof -
  obtain ts tc age e where sp: "SplitHostPort (so_Addr cfg) = Inl e" and p: "so_Port cfg \<noteq> []" and t: "so_TlsConfig cfg \<noteq> None"
    and ts: "set_timeouts [hs_ReadTimeout (the (so_HttpServer (sv_cfg sv))), hs_ReadHeaderTimeout (the (so_HttpServer (sv_cfg sv))),
        hs_WriteTimeout (the (so_HttpServer (sv_cfg sv))), hs_IdleTimeout (the (so_HttpServer (sv_cfg sv)))] = Inr ts"
    and age: "FromProto 0 (so_HstsMaxAge cfg) = (age, None)"
    and sv: "sv_Addr sv = JoinHostPort (so_Addr cfg) (so_Port cfg)" "sv_ReadTimeout sv = ts ! 0" "sv_ReadHeaderTimeout sv = ts ! 1"
      "sv_WriteTimeout sv = ts ! 2" "sv_IdleTimeout sv = ts ! 3" "sv_hstsMaxAge sv = age" "so_TlsConfig (sv_cfg sv) = so_TlsConfig cfg"
    using assms by (auto simp: NewServer_def Let_def split: sum.splits if_splits prod.splits option.splits)
  from set_timeouts_ok [OF ts] have "0 \<le> ts ! 0" "0 \<le> ts ! 1" "0 \<le> ts ! 2" "0 \<le> ts ! 3"
    by (auto simp: list_all_length)
  moreover have "0 \<le> age" using age by (auto simp: FromProto_ok split: option.splits)
  moreover have "\<exists>l. Server_Run sv = Ret l \<and> (l = ListenAndServe (sv_Addr sv) \<longleftrightarrow> GetTlsMode (so_TlsConfig cfg) = TLS_MODE_DISABLED)"
    using t by (auto simp: Server_Run_def sv(7))
  ultimately show ?thesis using sp p t sv by simp
qed

text \<open>
  The HSTS header is always sent, also when no age is configured (as \<^verbatim>\<open>max-age=0\<close>), and \<^verbatim>\<open>includeSubDomains\<close> goes into a second
  header field of the same name, not into the first one, which is the only one that clients process (RFC 6797, 8.1).
\<close>

lemma SetHSTS_fields:
  assumes "\<forall>p \<in> set (rw_Header w). fst p \<noteq> ''Strict-Transport-Security''"
  shows "filter (\<lambda>p. fst p = ''Strict-Transport-Security'') (rw_Header (SetHSTS d sub w)) =
    (''Strict-Transport-Security'', ''max-age='' @ itoa (nat (whole_seconds d))) #
    (if sub then [(''Strict-Transport-Security'', ''includeSubDomains'')] else [])"
  using assms by (simp add: SetHSTS_def Header_Add_def Values_Add_def Let_def filter_False)

text \<open>Concrete configurations.\<close>

definition no_files :: tls_env where
  "no_files = \<lparr>os_ReadFile = (\<lambda>_. Inl (NewError ''no such file'')), pem_has_certs = (\<lambda>_. False), LoadX509KeyPair = (\<lambda>_ _. Inr ''cert'')\<rparr>"

definition plain_tls :: TlsConfig where
  "plain_tls = \<lparr>tc_CertFile = ''c.pem'', tc_KeyFile = ''k.pem'', tc_RootCaCerts = [], tc_ClientCaCerts = [],
     tc_ClientAuthType = CLIENT_AUTH_TYPE_UNSPECIFIED, tc_TlsMode = TLS_MODE_UNSPECIFIED\<rparr>"

definition plain_options :: HttpServerOptions where
  "plain_options = \<lparr>so_Addr = ''localhost'', so_Port = ''8022'', so_HttpServer = None, so_TlsConfig = Some plain_tls,
     so_HstsMaxAge = Some 60000000000, so_HstsIncludeSubdomains = True\<rparr>"

lemma tls_Config_plain:
  "tls_Config_of no_files (Some plain_tls) = Inr (Some \<lparr>tls_ClientAuth = RequireAndVerifyClientCert, tls_MinVersion = VersionTLS12,
     tls_ClientCAs = None, tls_RootCAs = None, tls_Certificates = []\<rparr>)"
  by (simp add: tls_Config_of_def plain_tls_def GetTlsMode_def ClientAuthType_def GetClientAuthType_def loadCerts_def GetClientCaCerts_def
      GetRootCaCerts_def TLSMinVersion_def)

definition plain_server :: server where
  "plain_server = \<lparr>sv_cfg = plain_options\<lparr>so_HttpServer := Some HttpServer_New\<rparr>, sv_Addr = ''localhost:8022'', sv_MaxHeaderBytes = 0,
     sv_TLSConfig = Some \<lparr>tls_ClientAuth = RequireAndVerifyClientCert, tls_MinVersion = VersionTLS12,
       tls_ClientCAs = None, tls_RootCAs = None, tls_Certificates = []\<rparr>,
     sv_ReadTimeout = 0, sv_ReadHeaderTimeout = 0, sv_WriteTimeout = 0, sv_IdleTimeout = 0, sv_hstsMaxAge = 60000000000\<rparr>"

lemma NewServer_plain: "NewServer no_files plain_options = Inr plain_server"
proof -
  have "SplitHostPort ''localhost'' = Inl (NewError ''missing port in address'')" by (simp add: SplitHostPort_def)
  then show ?thesis
    by (simp add: NewServer_def plain_server_def plain_options_def tls_Config_plain HttpServer_New_def FromProto_def JoinHostPort_def)
qed


end
