(* ===== verification/Relay_Runner.thy ===== *)
theory Relay_Runner
  imports Requests Http_Server Manager
begin

text \<open>
  The relay's HTTP front end: \<^verbatim>\<open>src/relay/cmd/ssh-relay.go\<close> (\<^verbatim>\<open>loadConfig\<close>), \<^verbatim>\<open>src/relay/runner/runner.go\<close>,
  \<^verbatim>\<open>src/relay/runner/corprelay.go\<close>, \<^verbatim>\<open>src/relay/runner/corprelayv4.go\<close> and
  \<^verbatim>\<open>src/relay/request/corprelay/connect/handler/handler.go\<close>. A handler maps the response writer and the relay's state (the
  manager, the SSH connections that have been dialled and who owns them, and the sessions whose \<^verbatim>\<open>Run\<close> has been called) to
  new ones. What the network and the WebSocket library do is the environment: dialling, \<^verbatim>\<open>Upgrader.Upgrade\<close> (given the
  result of its \<^verbatim>\<open>CheckOrigin\<close> function), and the error with which \<^verbatim>\<open>Session.Run\<close> ends. What the goroutines of a session do
  meanwhile is the subject of the theory \<open>Lifecycle\<close>.
\<close>

section \<open>Configuration\<close>

datatype pb_ProtocolVersion = PROTOCOL_VERSION_UNSPECIFIED | CORP_RELAY | CORP_RELAY_V4 | SSH_FE | WEBSOCKIFY | OtherPbVersion int

record relay_Config =
  rc_ServerOptions :: "HttpServerOptions option"
  rc_MaxSessions :: int
  rc_MaxSessionAge :: "Duration option"
  rc_OriginCookieName :: string
  rc_ProtocolVersions :: "pb_ProtocolVersion list"

text \<open>\<^verbatim>\<open>loadConfig\<close>; \<open>prototext\<close> stands for the decoder of the text format, which is not part of the program.\<close>

definition relay_loadConfig :: "tls_env \<Rightarrow> (string \<Rightarrow> go_error + relay_Config) \<Rightarrow> string \<Rightarrow> go_error + relay_Config" where
  "relay_loadConfig E prototext file =
     (case os_ReadFile E file of
        Inl e \<Rightarrow> Inl e
      | Inr buf \<Rightarrow>
          (case prototext buf of
             Inl e \<Rightarrow> Inl e
           | Inr cfg \<Rightarrow>
               (case rc_ServerOptions cfg of
                  None \<Rightarrow> Inl (NewError ''server_options must be set'')
                | Some so \<Rightarrow>
                    let cfg = (if so_Port so = [] then cfg\<lparr>rc_ServerOptions := Some (so\<lparr>so_Port := ''8022''\<rparr>)\<rparr> else cfg) in
                    if rc_OriginCookieName cfg = [] then Inl (NewError ''origin_cookie_name must be set'')
                    else if rc_ProtocolVersions cfg = [] then Inl (NewError ''protocol_versions must be set'')
                    else Inr cfg)))"

fun version_in :: "pb_ProtocolVersion list \<Rightarrow> pb_ProtocolVersion \<Rightarrow> bool" where
  "version_in [] pv \<longleftrightarrow> False"
| "version_in (v # vs) pv \<longleftrightarrow> (if v = pv then True else version_in vs pv)"

definition protocolEnabled :: "relay_Config \<Rightarrow> pb_ProtocolVersion \<Rightarrow> bool" where
  "protocolEnabled cfg pv = version_in (rc_ProtocolVersions cfg) pv"

datatype route = Route_connect | Route_proxy | Route_v4_connect

record relay_runner =
  rn_cfg :: relay_Config
  rn_mgr :: manager
  rn_server :: server
  rn_routes :: "(string \<times> route) list"

definition relay_New :: "tls_env \<Rightarrow> relay_Config \<Rightarrow> (go_error + relay_runner) go" where
  "relay_New E cfg =
     (case rc_ServerOptions cfg of
        None \<Rightarrow> Panic NilDereference
      | Some so \<Rightarrow> Ret
          (case NewServer E so of
             Inl e \<Rightarrow> Inl (Wrap ''http.NewServer() error = '' e [])
           | Inr s \<Rightarrow>
               (case FromProto 0 (rc_MaxSessionAge cfg) of
                  (_, Some e) \<Rightarrow> Inl (Wrap ''duration.FromProto() error = '' e [])
                | (maxAge, None) \<Rightarrow> Inr \<lparr>rn_cfg = cfg, rn_mgr = manager_New (rc_MaxSessions cfg) maxAge, rn_server = s,
                    rn_routes =
                      (if protocolEnabled cfg CORP_RELAY then [(''/connect'', Route_connect), (''/proxy'', Route_proxy)] else []) @
                      (if protocolEnabled cfg CORP_RELAY_V4 then [(''/v4/connect'', Route_v4_connect)] else [])\<rparr>)))"

definition relay_runner_Run :: "relay_runner \<Rightarrow> listener go" where
  [simp]: "relay_runner_Run r = Server_Run (rn_server r)"

section \<open>Handlers\<close>

record relay_env =
  re_uuid :: uuid_lib
  re_fresh :: uuid
  re_Dial :: "string \<Rightarrow> go_error option"
  re_Upgrade :: "bool \<Rightarrow> http_request \<Rightarrow> rw \<Rightarrow> rw \<times> go_error option"
  re_Run :: "session \<Rightarrow> go_error option"

text \<open>Documented for \<^verbatim>\<open>Upgrader.CheckOrigin\<close>: when it returns false, the upgrade fails.\<close>

definition checks_origin :: "relay_env \<Rightarrow> bool" where
  "checks_origin E \<longleftrightarrow> (\<forall>req w. snd (re_Upgrade E False req w) \<noteq> None)"

record relay =
  rl_mgr :: manager
  rl_conns :: "(string \<times> uuid option) list"
  rl_ran :: "session list"

definition proxyHandle :: "relay_env \<Rightarrow> relay_Config \<Rightarrow> http_request \<Rightarrow> rw \<Rightarrow> relay \<Rightarrow> rw \<times> relay" where
  "proxyHandle E cfg req w st =
     (case proxy_New req of
        Inl e \<Rightarrow> (http_Error (Error e) 400 w, st)
      | Inr pr \<Rightarrow>
          (case Origin req (rc_OriginCookieName cfg) of
             Inl e \<Rightarrow> (http_Error (Error e) 400 w, st)
           | Inr origin \<Rightarrow>
               let addr = JoinHostPort (px_Host pr) (px_Port pr) in
               case re_Dial E addr of
                 Some e \<Rightarrow> (http_Error ''connection error'' 502 w, st)
               | None \<Rightarrow>
                   (case Manager_New (re_fresh E) CorpRelay (rl_mgr st) of
                      (m', Inl e) \<Rightarrow> (http_Error (Error e) 503 w, st\<lparr>rl_mgr := m', rl_conns := (addr, None) # rl_conns st\<rparr>)
                    | (m', Inr s) \<Rightarrow>
                        (rw_Write (uuid_String (re_uuid E) (session_SID s))
                           (Header_Set ''Access-Control-Allow-Credentials'' ''true'' (Header_Add ''Access-Control-Allow-Origin'' origin w)),
                         st\<lparr>rl_mgr := m', rl_conns := (addr, Some (session_SID s)) # rl_conns st\<rparr>))))"

text \<open>\<^verbatim>\<open>handler.New\<close> validates the origin; \<^verbatim>\<open>Handle\<close> upgrades the connection and runs the session.\<close>

definition connect_handler_New :: "relay_Config \<Rightarrow> http_request \<Rightarrow> go_error + string" where
  "connect_handler_New cfg req = Origin req (rc_OriginCookieName cfg)"

definition connect_handler_Handle :: "relay_env \<Rightarrow> string \<Rightarrow> session \<Rightarrow> http_request \<Rightarrow> rw \<Rightarrow> relay \<Rightarrow> rw \<times> relay \<times> go_error option" where
  "connect_handler_Handle E origin s req w st =
     (case re_Upgrade E (Header_Get (rq_Header req) ''Origin'' = origin) req w of
        (w', Some e) \<Rightarrow> (w', st, Some e)
      | (w', None) \<Rightarrow> (w', st\<lparr>rl_ran := s # rl_ran st\<rparr>, re_Run E s))"

definition connectHandle :: "relay_env \<Rightarrow> relay_Config \<Rightarrow> http_request \<Rightarrow> rw \<Rightarrow> relay \<Rightarrow> rw \<times> relay" where
  "connectHandle E cfg req w st =
     (case connect_New (re_uuid E) req of
        Inl e \<Rightarrow> (http_Error (Error e) 400 w, st)
      | Inr cr \<Rightarrow>
          (case Manager_Get (cn_SID cr) (rl_mgr st) of
             Inl e \<Rightarrow> (http_Error (Error ErrBadRequest) 400 w, st)
           | Inr s \<Rightarrow>
               let (w', st') =
                 (case connect_handler_New cfg req of
                    Inl e \<Rightarrow> (http_Error (Error e) 400 w, st)
                  | Inr origin \<Rightarrow> (case connect_handler_Handle E origin s req w st of (w', st', err) \<Rightarrow> (w', st'))) in
               (w', st'\<lparr>rl_mgr := fst (Manager_Delete (session_SID s) (rl_mgr st'))\<rparr>)))"

text \<open>
  \<^verbatim>\<open>connectHandleV4\<close>: the closure that sets the connection up returns a status and an error, or the session it made.
\<close>

definition v4_setup :: "relay_env \<Rightarrow> relay_Config \<Rightarrow> http_request \<Rightarrow> rw \<Rightarrow> relay \<Rightarrow> rw \<times> relay \<times> (nat \<times> go_error + session)" where
  "v4_setup E cfg req w st =
     (let host = Query_Get req ''host''; port = Query_Get req ''port'' in
      case Origin req (rc_OriginCookieName cfg) of
        Inl e \<Rightarrow> (w, st, Inl (400, Wrap (''request.Origin('' @ rc_OriginCookieName cfg @ '') error: '') e []))
      | Inr origin \<Rightarrow>
          let addr = JoinHostPort host port in
          case re_Dial E addr of
            Some e \<Rightarrow> (w, st, Inl (502, Wrap (''net.Dial('' @ addr @ '') error: '') e []))
          | None \<Rightarrow>
              (case Manager_New (re_fresh E) CorpRelayV4 (rl_mgr st) of
                 (m', Inl e) \<Rightarrow>
                   (w, st\<lparr>rl_mgr := m', rl_conns := (addr, None) # rl_conns st\<rparr>, Inl (503, Wrap (''mgr.New('' @ addr @ '') error: '') e []))
               | (m', Inr s) \<Rightarrow>
                   let st' = st\<lparr>rl_mgr := m', rl_conns := (addr, Some (session_SID s)) # rl_conns st\<rparr> in
                   (case re_Upgrade E (Header_Get (rq_Header req) ''Origin'' = origin) req w of
                      (w', Some e) \<Rightarrow> (w', st', Inl (502, Wrap (''upgrader.Upgrade('' @ origin @ '') error: '') e []))
                    | (w', None) \<Rightarrow> (w', st', Inr s))))"

definition connectHandleV4 :: "relay_env \<Rightarrow> relay_Config \<Rightarrow> http_request \<Rightarrow> rw \<Rightarrow> relay \<Rightarrow> (rw \<times> relay) go" where
  "connectHandleV4 E cfg req w st =
     (case v4_setup E cfg req w st of
        (w', st', Inl (code, err)) \<Rightarrow>
          (case errors_Unwrap err of
             None \<Rightarrow> Panic NilDereference
           | Some e \<Rightarrow> Ret (http_Error (Error e) code w', st'))
      | (w', st', Inr s) \<Rightarrow>
          let st' = st'\<lparr>rl_ran := s # rl_ran st'\<rparr> in
          (case re_Run E s of
             Some err \<Rightarrow>
               if errors_Is err EOF then Ret (w', st'\<lparr>rl_mgr := fst (Manager_Delete (session_SID s) (rl_mgr st'))\<rparr>)
               else Ret (w', st')
           | None \<Rightarrow> Ret (w', st')))"

section \<open>Correctness of the handlers\<close>

lemma v4_setup_error_wraps: "v4_setup E cfg req w st = (w', st', Inl (code, err)) \<Longrightarrow> \<exists>e. errors_Unwrap err = Some e"
  by (auto simp: v4_setup_def Let_def split: sum.splits option.splits prod.splits)


lemma Manager_New_ok_session: "Manager_New f v m = (m', Inr s) \<Longrightarrow> mgr_ok m \<Longrightarrow> mgr_ok m' \<and> mgr_view m' = (mgr_view m)(f \<mapsto> s) \<and> session_SID s = f"
  using mgr.new_ok by blast

text \<open>
  A session is only ever run for a request whose Origin header is the origin that the Cookie Server put into the
  client's cookie: neither handler calls \<^verbatim>\<open>Run\<close> for any other request, provided that the WebSocket library refuses an upgrade
  when \<^verbatim>\<open>CheckOrigin\<close> fails.
\<close>

lemma Run_needs_matching_origin:
  assumes "checks_origin E"
    and "connectHandle E cfg req w st = (w', st') \<or> connectHandleV4 E cfg req w st = Ret (w', st')"
    and "rl_ran st' \<noteq> rl_ran st"
  shows "\<exists>s. rl_ran st' = s # rl_ran st \<and> Origin req (rc_OriginCookieName cfg) = Inr (Header_Get (rq_Header req) ''Origin'')"
proof -
  have no: "re_Upgrade E False req w \<noteq> (x, None)" for x
    using assms(1) unfolding checks_origin_def by (metis snd_conv)
  have refused: "re_Upgrade E (Header_Get (rq_Header req) ''Origin'' = origin) req w = (x, None) \<Longrightarrow> Header_Get (rq_Header req) ''Origin'' = origin" for origin x
    using no [of x] by (cases "Header_Get (rq_Header req) ''Origin'' = origin") simp_all
  from assms(2) show ?thesis
  proof
    assume "connectHandle E cfg req w st = (w', st')"
    with assms(3) refused show ?thesis
      by (auto simp: connectHandle_def connect_handler_New_def connect_handler_Handle_def split: sum.splits prod.splits option.splits)
  next
    assume "connectHandleV4 E cfg req w st = Ret (w', st')"
    with assms(3) refused show ?thesis
      by (auto simp: connectHandleV4_def v4_setup_def Let_def split: sum.splits prod.splits option.splits if_splits)
  qed
qed

lemma proxyHandle_cases [consumes 1, case_names refused registered]:
  assumes "proxyHandle E cfg req w st = (w', st')"
  obtains msg code where "code \<in> {400, 502, 503}" "w' = http_Error msg code w" "rl_mgr st' = rl_mgr st"
  | m' s origin where "Manager_New (re_fresh E) CorpRelay (rl_mgr st) = (m', Inr s)" "rl_mgr st' = m'"
      "Origin req (rc_OriginCookieName cfg) = Inr origin"
      "w' = rw_Write (uuid_String (re_uuid E) (session_SID s))
        (Header_Set ''Access-Control-Allow-Credentials'' ''true'' (Header_Add ''Access-Control-Allow-Origin'' origin w))"
      "re_Dial E (JoinHostPort (Query_Get req ''host'') (Query_Get req ''port'')) = None"
proof (cases "Manager_New (re_fresh E) CorpRelay (rl_mgr st)")
  case (Pair m' r)
  then have "r = Inl e \<Longrightarrow> m' = rl_mgr st" for e using mgr.new_err by blast
  with assms Pair that show thesis
    by (auto simp: proxyHandle_def proxy_New_def Let_def split: sum.splits option.splits if_splits) blast
qed


text \<open>
  The answer to /proxy, which carries the session ID, is never cached: whatever the outcome, the response that the server
  sends has the no-store policy that \<^verbatim>\<open>HandleFunc\<close> sets before the handler runs.
\<close>

lemma proxy_response_not_cached:
  assumes "rw_Sent w = None" and "HandleFunc sv (proxyHandle E cfg) req w st = (w', st')"
  shows "Values_Get ''Cache-Control'' (rw_HeaderSent w') = ''no-store, no-cache, must-revalidate, max-age=0''"
proof -
  let ?w = "SetHSTS (sv_hstsMaxAge sv) (so_HstsIncludeSubdomains (sv_cfg sv)) (NoCache w)"
  have sent: "rw_Sent ?w = None" using assms(1) by (simp add: SetHSTS_def NoCache_def rw_defs Let_def)
  have cc: "Values_Get ''Cache-Control'' (rw_Header ?w) = ''no-store, no-cache, must-revalidate, max-age=0''"
    by (simp add: SetHSTS_def NoCache_def Header_Add_def Header_Set_def Let_def Values_Get_Add)
  from assms(2) have "proxyHandle E cfg req ?w st = (w', st')" by (simp add: HandleFunc_def)
  then show ?thesis
  proof (cases rule: proxyHandle_cases)
    case (refused msg code)
    then show ?thesis using http_Error_fresh(3) [OF sent, of "''Cache-Control''" msg code] cc by simp
  next
    case (registered m' s origin)
    then show ?thesis using sent cc
      by (simp add: rw_HeaderSent_def rw_Write_def WriteHeader_def Header_Set_def Header_Add_def Values_Get_Add)
  qed
qed

text \<open>
  A connection that the manager refuses (the session limit is reached) stays open without an owner: /proxy has dialled
  the SSH host before it asks the manager, answers 503, and nobody holds or closes the connection.
\<close>

lemma refused_session_leaks_connection:
  assumes "proxy_New req = Inr pr" and "Origin req (rc_OriginCookieName cfg) = Inr origin"
    and "re_Dial E (JoinHostPort (px_Host pr) (px_Port pr)) = None"
    and "mgr_maxSessions (rl_mgr st) > 0" and "int (length (mgr_sessions (rl_mgr st))) \<ge> mgr_maxSessions (rl_mgr st)"
  shows "proxyHandle E cfg req w st =
    (http_Error ''session limit reached'' 503 w, st\<lparr>rl_conns := (JoinHostPort (px_Host pr) (px_Port pr), None) # rl_conns st\<rparr>)"
  using assms by (simp add: proxyHandle_def Manager_New_def)

lemma v4_setup_cases [consumes 1, case_names early refused upgraded]:
  assumes "v4_setup E cfg req w st = (w', st', r)"
  obtains code err where "w' = w" "rl_mgr st' = rl_mgr st" "rl_ran st' = rl_ran st" "r = Inl (code, err)" "code \<in> {400, 502, 503}"
  | m' s err where "Manager_New (re_fresh E) CorpRelayV4 (rl_mgr st) = (m', Inr s)" "rl_mgr st' = m'" "rl_ran st' = rl_ran st"
      "r = Inl (502, err)" "\<exists>origin. Origin req (rc_OriginCookieName cfg) = Inr origin"
      "re_Dial E (JoinHostPort (Query_Get req ''host'') (Query_Get req ''port'')) = None"
  | m' s where "Manager_New (re_fresh E) CorpRelayV4 (rl_mgr st) = (m', Inr s)" "rl_mgr st' = m'" "rl_ran st' = rl_ran st" "r = Inr s"
      "\<exists>origin. Origin req (rc_OriginCookieName cfg) = Inr origin \<and> re_Upgrade E (Header_Get (rq_Header req) ''Origin'' = origin) req w = (w', None)"
      "re_Dial E (JoinHostPort (Query_Get req ''host'') (Query_Get req ''port'')) = None"
proof (cases "Manager_New (re_fresh E) CorpRelayV4 (rl_mgr st)")
  case (Pair m' x)
  then have "x = Inl e \<Longrightarrow> m' = rl_mgr st" for e using mgr.new_err by blast
  with assms Pair that show thesis
    by (auto simp: v4_setup_def Let_def split: sum.splits option.splits prod.splits)
qed


text \<open>
  The relay serves exactly the endpoints of the protocols that the configuration names (an unspecified version enables
  none), with an empty registry whose limit and age are the configured ones; an unset age becomes zero.
\<close>

lemma relay_New_routes:
  assumes "relay_New E cfg = Ret (Inr r)"
  shows "map fst (rn_routes r) =
      (if CORP_RELAY \<in> set (rc_ProtocolVersions cfg) then [''/connect'', ''/proxy''] else []) @
      (if CORP_RELAY_V4 \<in> set (rc_ProtocolVersions cfg) then [''/v4/connect''] else []) \<and>
    mgr_ok (rn_mgr r) \<and> mgr_sessions (rn_mgr r) = [] \<and> mgr_maxSessions (rn_mgr r) = rc_MaxSessions cfg \<and>
    mgr_maxAge (rn_mgr r) = (case rc_MaxSessionAge cfg of None \<Rightarrow> 0 | Some d \<Rightarrow> d) \<and> 0 \<le> mgr_maxAge (rn_mgr r)"
proof -
  have v: "version_in vs pv \<longleftrightarrow> pv \<in> set vs" for vs pv by (induction vs) auto
  obtain maxAge where age: "FromProto 0 (rc_MaxSessionAge cfg) = (maxAge, None)"
    and m: "rn_mgr r = manager_New (rc_MaxSessions cfg) maxAge"
    and ro: "rn_routes r = (if protocolEnabled cfg CORP_RELAY then [(''/connect'', Route_connect), (''/proxy'', Route_proxy)] else []) @
        (if protocolEnabled cfg CORP_RELAY_V4 then [(''/v4/connect'', Route_v4_connect)] else [])"
    using assms by (auto simp: relay_New_def split: option.splits sum.splits prod.splits)
  have "maxAge = (case rc_MaxSessionAge cfg of None \<Rightarrow> 0 | Some d \<Rightarrow> d) \<and> 0 \<le> maxAge"
    using age by (auto simp: FromProto_ok split: option.splits)
  then show ?thesis by (simp add: m ro protocolEnabled_def v manager_New_def mgr_ok_def)
qed

section \<open>Concrete requests\<close>

definition demo_env :: relay_env where
  "demo_env = \<lparr>re_uuid = rfc4122, re_fresh = 5, re_Dial = (\<lambda>_. None),
     re_Upgrade = (\<lambda>ok req w. if ok then (w, None) else (http_Error ''Forbidden'' 403 w, Some (NewError ''bad handshake''))),
     re_Run = (\<lambda>_. Some ErrUnexpectedEOF)\<rparr>"

definition demo_cfg :: relay_Config where
  "demo_cfg = \<lparr>rc_ServerOptions = Some plain_options, rc_MaxSessions = 1, rc_MaxSessionAge = None, rc_OriginCookieName = ''origin'',
     rc_ProtocolVersions = [CORP_RELAY, CORP_RELAY_V4]\<rparr>"

definition demo_request :: http_request where
  "demo_request = \<lparr>rq_RawQuery = Values_Encode [(''host'', ''ssh''), (''port'', ''22'')], 
     rq_Header = [(''Origin'', ''ext://x''), (''Cookie'', ''origin=ext://x'')]\<rparr>"

definition demo_state :: relay where
  "demo_state = \<lparr>rl_mgr = manager_New 1 60, rl_conns = [], rl_ran = []\<rparr>"

definition demo_full :: relay where
  "demo_full = demo_state\<lparr>rl_mgr := (manager_New 1 60)\<lparr>mgr_sessions := [(9, Sess_V1 (v1_New 9))]\<rparr>\<rparr>"

lemma demo_read_cookie: "readCookies [''origin=ext://x''] = [new_cookie ''origin'' ''ext://x'' False]"
  by code_simp

lemma demo_simps:
  "Query_Get demo_request k = Values_Get k [(''host'', ''ssh''), (''port'', ''22'')]" "Origin demo_request ''origin'' = Inr ''ext://x''"
  "Header_Get (rq_Header demo_request) ''Origin'' = ''ext://x''" "mgr_ok (rl_mgr demo_state)" "mgr_ok (rl_mgr demo_full)"
  by (simp_all add: demo_read_cookie new_cookie_def Query_Get_def demo_request_def Origin_def Request_Cookie_def Header_Get_def mgr_ok_def demo_state_def demo_full_def manager_New_def v1_New_def)

lemma demo_v4_run:
  "connectHandleV4 demo_env demo_cfg demo_request rw_New demo_state = Ret (rw_New, demo_state\<lparr>rl_conns := [(''ssh:22'', Some 5)],
     rl_mgr := fst (Manager_New 5 CorpRelayV4 (manager_New 1 60)),
     rl_ran := [Sess_V4 (v4_New 5 Server)]\<rparr>)"
  by (simp add: connectHandleV4_def v4_setup_def demo_simps demo_cfg_def demo_env_def demo_state_def Manager_New_def manager_New_def
      version_session_def v4_New_def JoinHostPort_def)




definition demo_runner :: relay_runner where
  "demo_runner = \<lparr>rn_cfg = demo_cfg, rn_mgr = manager_New 1 0, rn_server = plain_server,
     rn_routes = [(''/connect'', Route_connect), (''/proxy'', Route_proxy), (''/v4/connect'', Route_v4_connect)]\<rparr>"

lemma relay_New_demo: "relay_New no_files demo_cfg = Ret (Inr demo_runner)"
  by (simp add: relay_New_def demo_cfg_def NewServer_plain FromProto_def protocolEnabled_def demo_runner_def)

end
