(* ===== verification/Relay_Service.thy ===== *)
theory Relay_Service
  imports Relay_Runner
begin

text \<open>
  The relay as its HTTP server calls it: the handlers that \<^verbatim>\<open>runner.New\<close> (\<^verbatim>\<open>src/relay/runner/runner.go\<close>) has registered for their paths, inside the
  closure of \<^verbatim>\<open>HandleFunc\<close> (\<^verbatim>\<open>src/http/server.go\<close>), one request after the other. The path is one that \<^verbatim>\<open>http.ServeMux\<close> has cleaned; the
  patterns have no wildcards and no trailing slash, so it looks them up as they are. Each request brings its own environment: what the network
  and the SSH connection do is different every time, and so is the UUID that is drawn.
\<close>

section \<open>Serving requests\<close>

definition relay_handler :: "relay_env \<Rightarrow> relay_Config \<Rightarrow> route \<Rightarrow> http_request \<Rightarrow> rw \<Rightarrow> relay \<Rightarrow> (rw \<times> relay) go" where
  "relay_handler E cfg rt req w st =
     (case rt of
        Route_connect \<Rightarrow> Ret (connectHandle E cfg req w st)
      | Route_proxy \<Rightarrow> Ret (proxyHandle E cfg req w st)
      | Route_v4_connect \<Rightarrow> connectHandleV4 E cfg req w st)"

definition relay_serve :: "relay_runner \<Rightarrow> relay_env \<Rightarrow> string \<Rightarrow> http_request \<Rightarrow> relay \<Rightarrow> (rw \<times> relay) go" where
  "relay_serve r E path req st =
     (case map_of (rn_routes r) path of
        None \<Rightarrow> Ret (http_Error ''404 page not found'' 404 rw_New, st)
      | Some rt \<Rightarrow> HandleFunc (rn_server r) (relay_handler E (rn_cfg r) rt) req rw_New st)"

definition relay_start :: "relay_runner \<Rightarrow> relay" where
  "relay_start r = \<lparr>rl_mgr = rn_mgr r, rl_conns = [], rl_ran = []\<rparr>"

primrec relay_serve_all :: "relay_runner \<Rightarrow> (relay_env \<times> string \<times> http_request) list \<Rightarrow> relay \<Rightarrow> (rw list \<times> relay) go" where
  "relay_serve_all r [] st = Ret ([], st)"
| "relay_serve_all r (x # xs) st =
     (case x of (E, path, req) \<Rightarrow>
        go_bind (relay_serve r E path req st) (\<lambda>(w, st').
          go_bind (relay_serve_all r xs st') (\<lambda>(ws, st''). Ret (w # ws, st''))))"

text \<open>The response writer that a handler gets.\<close>

definition served :: "relay_runner \<Rightarrow> rw" where
  "served r = SetHSTS (sv_hstsMaxAge (rn_server r)) (so_HstsIncludeSubdomains (sv_cfg (rn_server r))) (NoCache rw_New)"

section \<open>What holds however long the relay serves\<close>

text \<open>A protocol is enabled for a session.\<close>

fun enabled_for :: "relay_Config \<Rightarrow> session \<Rightarrow> bool" where
  "enabled_for cfg (Sess_V1 _) \<longleftrightarrow> CORP_RELAY \<in> set (rc_ProtocolVersions cfg)"
| "enabled_for cfg (Sess_V4 _) \<longleftrightarrow> CORP_RELAY_V4 \<in> set (rc_ProtocolVersions cfg)"

definition service_ok :: "relay_Config \<Rightarrow> relay \<Rightarrow> bool" where
  "service_ok cfg st \<longleftrightarrow> mgr_ok (rl_mgr st) \<and> mgr_maxSessions (rl_mgr st) = rc_MaxSessions cfg \<and>
     list_all (enabled_for cfg) (rl_ran st) \<and> list_all (enabled_for cfg) (map snd (mgr_sessions (rl_mgr st)))"

lemma relay_New_facts:
  assumes "relay_New T cfg = Ret (Inr r)"
  shows "rn_cfg r = cfg" "service_ok cfg (relay_start r)"
    "rn_routes r = (if CORP_RELAY \<in> set (rc_ProtocolVersions cfg) then [(''/connect'', Route_connect), (''/proxy'', Route_proxy)] else []) @
      (if CORP_RELAY_V4 \<in> set (rc_ProtocolVersions cfg) then [(''/v4/connect'', Route_v4_connect)] else [])"
proof -
  have v: "version_in vs pv \<longleftrightarrow> pv \<in> set vs" for vs pv by (induction vs) auto
  show "rn_cfg r = cfg" "rn_routes r = (if CORP_RELAY \<in> set (rc_ProtocolVersions cfg) then [(''/connect'', Route_connect), (''/proxy'', Route_proxy)] else []) @
      (if CORP_RELAY_V4 \<in> set (rc_ProtocolVersions cfg) then [(''/v4/connect'', Route_v4_connect)] else [])"
    using assms by (auto simp: relay_New_def protocolEnabled_def v split: option.splits sum.splits prod.splits)
  show "service_ok cfg (relay_start r)" using relay_New_routes [OF assms] by (simp add: service_ok_def relay_start_def)
qed

lemma service_delete:
  assumes "service_ok cfg st" and "rl_ran st' = rl_ran st" and "rl_mgr st' = fst (Manager_Delete k (rl_mgr st))"
  shows "service_ok cfg st'"
proof -
  obtain m err where d: "Manager_Delete k (rl_mgr st) = (m, err)" by fastforce
  have "mgr_ok m" using mgr_ok_Delete [OF _ d] assms(1) by (simp add: service_ok_def)
  moreover have "mgr_maxSessions m = mgr_maxSessions (rl_mgr st)" "set (mgr_sessions m) \<subseteq> set (mgr_sessions (rl_mgr st))"
    using d set_delete_subset [of k "mgr_sessions (rl_mgr st)"] by (auto simp: Manager_Delete_def split: option.splits)
  ultimately show ?thesis using assms d by (auto simp: service_ok_def list_all_iff)
qed

lemma service_new:
  assumes "service_ok cfg st" and "rl_ran st' = rl_ran st" and "Manager_New f v (rl_mgr st) = (rl_mgr st', Inr s)"
    and "\<And>s. version_session v f = Some s \<Longrightarrow> enabled_for cfg s"
  shows "service_ok cfg st' \<and> enabled_for cfg s"
  using assms(3)
proof (cases rule: Manager_New_cases)
  case (new t)
  have "mgr_ok (rl_mgr st')" using mgr_ok_New [OF _ assms(3)] assms(1) by (simp add: service_ok_def)
  moreover have "set (mgr_sessions (rl_mgr st')) \<subseteq> insert (f, t) (set (mgr_sessions (rl_mgr st)))" unfolding new(4)
    using set_update_subset [of f t "mgr_sessions (rl_mgr st)"] by auto
  ultimately show ?thesis using assms(1,2) assms(4) [OF new(2)] new(3,4) by (auto simp: service_ok_def list_all_iff)
qed simp_all

lemma service_run: "service_ok cfg st \<Longrightarrow> enabled_for cfg s \<Longrightarrow> service_ok cfg (st\<lparr>rl_ran := s # rl_ran st\<rparr>)"
  by (simp add: service_ok_def)

lemma connectHandle_service:
  assumes "service_ok cfg st" and "connectHandle E cfg req w st = (w', st')"
  shows "service_ok cfg st'"
proof (cases "connect_New (re_uuid E) req")
  case (Inl e)
  with assms show ?thesis by (simp add: connectHandle_def)
next
  case (Inr cr)
  show ?thesis
  proof (cases "Manager_Get (cn_SID cr) (rl_mgr st)")
    case (Inl e)
    with assms Inr show ?thesis by (simp add: connectHandle_def)
  next
    case get: (Inr s)
    then have "mgr_view (rl_mgr st) (cn_SID cr) = Some s" by (simp add: mgr.get_view split: option.splits)
    then have "enabled_for cfg s" using assms(1) by (auto simp: service_ok_def mgr_view_def list_all_iff dest!: map_of_SomeD)
    with service_run [OF assms(1)] have run: "service_ok cfg (st\<lparr>rl_ran := s # rl_ran st\<rparr>)" by blast
    have "(rl_ran st' = rl_ran st \<and> rl_mgr st' = fst (Manager_Delete (session_SID s) (rl_mgr st))) \<or>
        (rl_ran st' = s # rl_ran st \<and> rl_mgr st' = fst (Manager_Delete (session_SID s) (rl_mgr st)))"
      using assms(2) Inr get by (auto simp: connectHandle_def connect_handler_Handle_def split: sum.splits prod.splits option.splits)
    with service_delete [OF assms(1)] service_delete [OF run] show ?thesis by auto
  qed
qed

lemma connectHandleV4_service:
  assumes "service_ok cfg st" and "CORP_RELAY_V4 \<in> set (rc_ProtocolVersions cfg)"
  shows "\<exists>w' st'. connectHandleV4 E cfg req w st = Ret (w', st') \<and> service_ok cfg st'"
proof -
  obtain w1 st1 r where u: "v4_setup E cfg req w st = (w1, st1, r)" by (cases "v4_setup E cfg req w st") auto
  have e: "enabled_for cfg s" if "version_session CorpRelayV4 (re_fresh E) = Some s" for s
    using that assms(2) by (auto simp: version_session_def)
  from u show ?thesis
  proof (cases rule: v4_setup_cases)
    case (early code err)
    moreover have "service_ok cfg st1" using assms(1) early by (simp add: service_ok_def)
    ultimately show ?thesis using v4_setup_error_wraps u by (fastforce simp: connectHandleV4_def)
  next
    case (refused m' s err)
    with v4_setup_error_wraps u obtain e' where e': "errors_Unwrap err = Some e'" by blast
    have "service_ok cfg st1" using service_new [OF assms(1) refused(3) _ e] refused(1,2) by blast
    with refused u e' show ?thesis by (auto simp: connectHandleV4_def)
  next
    case (upgraded m' s)
    have "service_ok cfg st1" "enabled_for cfg s" using service_new [OF assms(1) upgraded(3) _ e] upgraded(1,2) by blast+
    then have run: "service_ok cfg (st1\<lparr>rl_ran := s # rl_ran st1\<rparr>)" by (rule service_run)
    let ?st = "st1\<lparr>rl_ran := s # rl_ran st1\<rparr>"
    have "connectHandleV4 E cfg req w st = Ret (w1, ?st\<lparr>rl_mgr := fst (Manager_Delete (session_SID s) (rl_mgr ?st))\<rparr>) \<or>
        connectHandleV4 E cfg req w st = Ret (w1, ?st)"
      using u upgraded by (auto simp: connectHandleV4_def Let_def split: option.splits)
    then show ?thesis
    proof
      assume r: "connectHandleV4 E cfg req w st = Ret (w1, ?st\<lparr>rl_mgr := fst (Manager_Delete (session_SID s) (rl_mgr ?st))\<rparr>)"
      have "service_ok cfg (?st\<lparr>rl_mgr := fst (Manager_Delete (session_SID s) (rl_mgr ?st))\<rparr>)" by (rule service_delete [OF run]) simp_all
      with r show ?thesis by blast
    qed (use run in blast)
  qed
qed

lemma proxyHandle_service:
  assumes "service_ok cfg st" and "CORP_RELAY \<in> set (rc_ProtocolVersions cfg)" and "proxyHandle E cfg req w st = (w', st')"
  shows "service_ok cfg st'"
proof -
  have ran: "rl_ran st' = rl_ran st"
    using assms(3) by (auto simp: proxyHandle_def Let_def split: sum.splits option.splits prod.splits)
  have e: "enabled_for cfg s" if "version_session CorpRelay (re_fresh E) = Some s" for s
    using that assms(2) by (auto simp: version_session_def)
  from assms(3) show ?thesis
  proof (cases rule: proxyHandle_cases)
    case (refused msg code)
    with ran assms(1) show ?thesis by (simp add: service_ok_def)
  next
    case (registered m' s origin)
    with service_new [OF assms(1) ran _ e] show ?thesis by blast
  qed
qed

lemma relay_serve_step:
  assumes "relay_New T cfg = Ret (Inr r)" and "service_ok cfg st"
  shows "\<exists>w' st'. relay_serve r E path req st = Ret (w', st') \<and> service_ok cfg st'"
proof (cases "map_of (rn_routes r) path")
  case None
  with assms(2) show ?thesis by (simp add: relay_serve_def)
next
  case (Some rt)
  note f = relay_New_facts [OF assms(1)]
  have en: "rt = Route_v4_connect \<longrightarrow> CORP_RELAY_V4 \<in> set (rc_ProtocolVersions cfg)" "rt = Route_proxy \<longrightarrow> CORP_RELAY \<in> set (rc_ProtocolVersions cfg)"
    using map_of_SomeD [OF Some] unfolding f(3) by (auto split: if_splits)
  have s: "relay_serve r E path req st = relay_handler E cfg rt req (served r) st"
    using Some by (simp add: relay_serve_def HandleFunc_def served_def f(1))
  show ?thesis
  proof (cases rt)
    case Route_connect
    obtain w' st' where "connectHandle E cfg req (served r) st = (w', st')" by fastforce
    with connectHandle_service [OF assms(2) this] s Route_connect show ?thesis by (simp add: relay_handler_def)
  next
    case Route_proxy
    obtain w' st' where "proxyHandle E cfg req (served r) st = (w', st')" by fastforce
    with proxyHandle_service [OF assms(2) _ this] en s Route_proxy show ?thesis by (simp add: relay_handler_def)
  next
    case Route_v4_connect
    with connectHandleV4_service [OF assms(2), of E req "served r"] en s show ?thesis by (simp add: relay_handler_def)
  qed
qed

text \<open>
  C22. A relay that has been made from a configuration serves any sequence of requests, whatever the network does in each, without a panic:
  every request gets a response, the session limit holds, the registry stays consistent, and only sessions of enabled protocols are ever
  registered or run. A path of a protocol that is not enabled is answered with 404, with no effect.
\<close>

theorem relay_serves_safely:
  assumes "relay_New T cfg = Ret (Inr r)"
  shows "(\<exists>ws st. relay_serve_all r xs (relay_start r) = Ret (ws, st) \<and> length ws = length xs \<and> mgr_ok (rl_mgr st) \<and>
      (rc_MaxSessions cfg \<le> 0 \<or> int (length (mgr_sessions (rl_mgr st))) \<le> rc_MaxSessions cfg) \<and>
      list_all (enabled_for cfg) (rl_ran st @ map snd (mgr_sessions (rl_mgr st)))) \<and>
    (path \<in> (if CORP_RELAY \<in> set (rc_ProtocolVersions cfg) then {''/connect'', ''/proxy''} else {}) \<union>
        (if CORP_RELAY_V4 \<in> set (rc_ProtocolVersions cfg) then {''/v4/connect''} else {})
     \<or> (\<exists>w. relay_serve r E path req st0 = Ret (w, st0) \<and> rw_Status w = 404))"
proof
  have all: "\<exists>ws st'. relay_serve_all r xs st = Ret (ws, st') \<and> length ws = length xs \<and> service_ok cfg st'" if "service_ok cfg st" for st
    using that
  proof (induction xs arbitrary: st)
    case (Cons x xs)
    obtain E path req where x: "x = (E, path, req)" by (cases x)
    from relay_serve_step [OF assms Cons.prems] obtain w st1 where s: "relay_serve r E path req st = Ret (w, st1)" "service_ok cfg st1" by blast
    from Cons.IH [OF s(2)] s(1) x show ?case by auto
  qed simp
  obtain ws st where r: "relay_serve_all r xs (relay_start r) = Ret (ws, st)" "length ws = length xs" "service_ok cfg st"
    using all [OF relay_New_facts(2) [OF assms]] by blast
  from r(3) have ok: "mgr_ok (rl_mgr st) \<and> (rc_MaxSessions cfg \<le> 0 \<or> int (length (mgr_sessions (rl_mgr st))) \<le> rc_MaxSessions cfg) \<and>
      list_all (enabled_for cfg) (rl_ran st @ map snd (mgr_sessions (rl_mgr st)))"
    by (auto simp: service_ok_def mgr_ok_def)
  with r(1,2) show "\<exists>ws st. relay_serve_all r xs (relay_start r) = Ret (ws, st) \<and> length ws = length xs \<and> mgr_ok (rl_mgr st) \<and>
      (rc_MaxSessions cfg \<le> 0 \<or> int (length (mgr_sessions (rl_mgr st))) \<le> rc_MaxSessions cfg) \<and>
      list_all (enabled_for cfg) (rl_ran st @ map snd (mgr_sessions (rl_mgr st)))" by blast
  have nf: "rw_Status (http_Error m 404 rw_New) = 404" for m using http_Error_fresh(1) [of rw_New m 404] by (simp add: rw_New_def)
  show "path \<in> (if CORP_RELAY \<in> set (rc_ProtocolVersions cfg) then {''/connect'', ''/proxy''} else {}) \<union>
        (if CORP_RELAY_V4 \<in> set (rc_ProtocolVersions cfg) then {''/v4/connect''} else {})
     \<or> (\<exists>w. relay_serve r E path req st0 = Ret (w, st0) \<and> rw_Status w = 404)"
    using nf relay_New_facts(3) [OF assms] by (auto simp: relay_serve_def)
qed

section \<open>Every run traces back to its requests\<close>

text \<open>The request that opened a session, and the request that asked to run it.\<close>

fun opened_by :: "relay_Config \<Rightarrow> session \<Rightarrow> relay_env \<times> string \<times> http_request \<Rightarrow> bool" where
  "opened_by cfg s (E, path, req) \<longleftrightarrow>
     path = (case s of Sess_V1 _ \<Rightarrow> ''/proxy'' | Sess_V4 _ \<Rightarrow> ''/v4/connect'') \<and> re_fresh E = session_SID s \<and>
     (\<exists>origin. Origin req (rc_OriginCookieName cfg) = Inr origin) \<and> re_Dial E (JoinHostPort (Query_Get req ''host'') (Query_Get req ''port'')) = None"

fun asked_by :: "relay_Config \<Rightarrow> session \<Rightarrow> relay_env \<times> string \<times> http_request \<Rightarrow> bool" where
  "asked_by cfg s (E, path, req) \<longleftrightarrow>
     Origin req (rc_OriginCookieName cfg) = Inr (Header_Get (rq_Header req) ''Origin'') \<and>
     (path = ''/v4/connect'' \<and> re_fresh E = session_SID s \<or>
      path = ''/connect'' \<and> (\<exists>cr. connect_New (re_uuid E) req = Inr cr \<and> cn_SID cr = session_SID s))"

definition traced :: "relay_Config \<Rightarrow> (relay_env \<times> string \<times> http_request) set \<Rightarrow> relay \<Rightarrow> bool" where
  "traced cfg X st \<longleftrightarrow>
     (\<forall>s \<in> set (rl_ran st) \<union> ran (mgr_view (rl_mgr st)). \<exists>x \<in> X. opened_by cfg s x) \<and> (\<forall>s \<in> set (rl_ran st). \<exists>x \<in> X. asked_by cfg s x)"

lemma tracedI:
  assumes "traced cfg X st" and "X \<subseteq> Y"
    and "\<And>s. s \<in> ran (mgr_view (rl_mgr st')) \<Longrightarrow> s \<in> ran (mgr_view (rl_mgr st)) \<or> (\<exists>x \<in> Y. opened_by cfg s x)"
    and "\<And>s. s \<in> set (rl_ran st') \<Longrightarrow> s \<in> set (rl_ran st) \<or>
      (s \<in> ran (mgr_view (rl_mgr st)) \<or> (\<exists>x \<in> Y. opened_by cfg s x)) \<and> (\<exists>x \<in> Y. asked_by cfg s x)"
  shows "traced cfg Y st'"
  using assms unfolding traced_def by blast
lemma ran_delete: "mgr_ok m \<Longrightarrow> s \<in> ran (mgr_view (fst (Manager_Delete k m))) \<Longrightarrow> s \<in> ran (mgr_view m)"
  using mgr.del_view [of m k "fst (Manager_Delete k m)" "snd (Manager_Delete k m)"] by (auto simp: ran_def split: if_splits)

lemma ran_new:
  assumes "mgr_ok m" and "Manager_New f v m = (m', Inr t)" and "s \<in> ran (mgr_view m')"
  shows "s \<in> ran (mgr_view m) \<or> s = t"
  using Manager_New_ok_session [OF assms(2,1)] assms(3) by (auto simp: ran_def split: if_splits)

lemma new_session: "Manager_New f v m = (m', Inr t) \<Longrightarrow> version_session v f = Some t"
  by (erule Manager_New_cases) simp_all

lemma upgrade_accepted:
  assumes "checks_origin E" and "re_Upgrade E (x = y) req w = (w', None)"
  shows "x = y"
proof (rule ccontr)
  assume "x \<noteq> y"
  with assms(2) have "re_Upgrade E False req w = (w', None)" by simp
  moreover have "snd (re_Upgrade E False req w) \<noteq> None" using assms(1) by (simp add: checks_origin_def)
  ultimately show False by simp
qed

lemma connectHandle_traced:
  assumes "checks_origin E" and "service_ok cfg st" and "traced cfg X st" and "connectHandle E cfg req w st = (w', st')"
  shows "traced cfg (insert (E, ''/connect'', req) X) st'"
proof (cases "\<exists>cr s. connect_New (re_uuid E) req = Inr cr \<and> Manager_Get (cn_SID cr) (rl_mgr st) = Inr s")
  case False
  then have "st' = st" using assms(4) by (auto simp: connectHandle_def split: sum.splits)
  with assms(3) show ?thesis unfolding traced_def by blast
next
  case True
  then obtain cr s where cr: "connect_New (re_uuid E) req = Inr cr" and get: "Manager_Get (cn_SID cr) (rl_mgr st) = Inr s" by blast
  have ok: "mgr_ok (rl_mgr st)" using assms(2) by (simp add: service_ok_def)
  have v: "mgr_view (rl_mgr st) (cn_SID cr) = Some s" using get by (simp add: mgr.get_view split: option.splits)
  then have sid: "session_SID s = cn_SID cr" using ok by (auto simp: mgr_ok_def mgr_view_def dest!: map_of_SomeD)
  have st': "rl_mgr st' = fst (Manager_Delete (session_SID s) (rl_mgr st)) \<and> (rl_ran st' = rl_ran st \<or>
      rl_ran st' = s # rl_ran st \<and> Origin req (rc_OriginCookieName cfg) = Inr (Header_Get (rq_Header req) ''Origin''))"
  proof (cases "Origin req (rc_OriginCookieName cfg)")
    case (Inl e)
    with assms(4) cr get show ?thesis by (auto simp: connectHandle_def connect_handler_New_def)
  next
    case (Inr origin)
    obtain w1 e where u: "re_Upgrade E (Header_Get (rq_Header req) ''Origin'' = origin) req w = (w1, e)" by fastforce
    show ?thesis
    proof (cases e)
      case None
      have h: "Header_Get (rq_Header req) ''Origin'' = origin" by (rule upgrade_accepted [OF assms(1) u [unfolded None]])
      have "connectHandle E cfg req w st = (w1, st\<lparr>rl_ran := s # rl_ran st, rl_mgr := fst (Manager_Delete (session_SID s) (rl_mgr st))\<rparr>)"
        by (simp add: connectHandle_def connect_handler_New_def connect_handler_Handle_def cr get Inr u None)
      then show ?thesis using assms(4) Inr h by simp
    next
      case (Some e')
      have "connectHandle E cfg req w st = (w1, st\<lparr>rl_mgr := fst (Manager_Delete (session_SID s) (rl_mgr st))\<rparr>)"
        by (simp add: connectHandle_def connect_handler_New_def connect_handler_Handle_def cr get Inr u Some)
      then show ?thesis using assms(4) by simp
    qed
  qed
  show ?thesis
  proof (rule tracedI [OF assms(3)])
    fix t assume "t \<in> ran (mgr_view (rl_mgr st'))"
    with st' ran_delete [OF ok] show "t \<in> ran (mgr_view (rl_mgr st)) \<or> (\<exists>x \<in> insert (E, ''/connect'', req) X. opened_by cfg t x)" by auto
  next
    fix t assume "t \<in> set (rl_ran st')"
    moreover have "s \<in> ran (mgr_view (rl_mgr st))" using v by (auto simp: ran_def)
    ultimately show "t \<in> set (rl_ran st) \<or> (t \<in> ran (mgr_view (rl_mgr st)) \<or> (\<exists>x \<in> insert (E, ''/connect'', req) X. opened_by cfg t x)) \<and>
        (\<exists>x \<in> insert (E, ''/connect'', req) X. asked_by cfg t x)"
      using st' cr sid by auto
  qed auto
qed

lemma proxyHandle_traced:
  assumes "service_ok cfg st" and "traced cfg X st" and "proxyHandle E cfg req w st = (w', st')"
  shows "traced cfg (insert (E, ''/proxy'', req) X) st'"
proof -
  have ok: "mgr_ok (rl_mgr st)" using assms(1) by (simp add: service_ok_def)
  have ran: "rl_ran st' = rl_ran st"
    using assms(3) by (auto simp: proxyHandle_def Let_def split: sum.splits option.splits prod.splits)
  show ?thesis
  proof (rule tracedI [OF assms(2)])
    fix t assume t: "t \<in> ran (mgr_view (rl_mgr st'))"
    from assms(3) show "t \<in> ran (mgr_view (rl_mgr st)) \<or> (\<exists>x \<in> insert (E, ''/proxy'', req) X. opened_by cfg t x)"
    proof (cases rule: proxyHandle_cases)
      case (refused msg code)
      with t show ?thesis by simp
    next
      case (registered m' s origin)
      have "s = Sess_V1 (v1_New (re_fresh E))" using new_session [OF registered(1)] by (simp add: version_session_def)
      then have "opened_by cfg s (E, ''/proxy'', req)" using registered(3,5) by (simp add: v1_New_def)
      with ran_new [OF ok registered(1)] t registered(2) show ?thesis by auto
    qed
  qed (use ran in auto)
qed
lemma connectHandleV4_traced:
  assumes "checks_origin E" and "service_ok cfg st" and "traced cfg X st" and "connectHandleV4 E cfg req w st = Ret (w', st')"
  shows "traced cfg (insert (E, ''/v4/connect'', req) X) st'"
proof -
  let ?x = "(E, ''/v4/connect'', req)"
  have ok: "mgr_ok (rl_mgr st)" using assms(2) by (simp add: service_ok_def)
  obtain w1 st1 r where u: "v4_setup E cfg req w st = (w1, st1, r)" by (cases "v4_setup E cfg req w st") auto
  have step: "traced cfg (insert ?x X) st1" if "rl_ran st1 = rl_ran st" "\<And>t. t \<in> ran (mgr_view (rl_mgr st1)) \<Longrightarrow> t \<in> ran (mgr_view (rl_mgr st)) \<or> opened_by cfg t ?x"
    by (rule tracedI [OF assms(3)]) (use that in auto)
  have opened: "opened_by cfg s ?x" if "Manager_New (re_fresh E) CorpRelayV4 (rl_mgr st) = (m', Inr s)"
    "\<exists>origin. Origin req (rc_OriginCookieName cfg) = Inr origin" "re_Dial E (JoinHostPort (Query_Get req ''host'') (Query_Get req ''port'')) = None" for m' s
    using new_session [OF that(1)] that(2,3) by (auto simp: version_session_def v4_New_def)
  from u show ?thesis
  proof (cases rule: v4_setup_cases)
    case (early code err)
    then have "traced cfg (insert ?x X) st1" by (intro step) simp_all
    with assms(4) u early show ?thesis by (auto simp: connectHandleV4_def split: option.splits)
  next
    case (refused m' s err)
    then have "traced cfg (insert ?x X) st1" using ran_new [OF ok refused(1)] opened [OF refused(1,5,6)] by (intro step) auto
    with assms(4) u refused show ?thesis by (auto simp: connectHandleV4_def split: option.splits)
  next
    case (upgraded m' s)
    from upgraded(5) obtain origin where o: "Origin req (rc_OriginCookieName cfg) = Inr origin"
      "re_Upgrade E (Header_Get (rq_Header req) ''Origin'' = origin) req w = (w1, None)" by blast
    have os: "opened_by cfg s ?x" using opened [OF upgraded(1) _ upgraded(6)] o(1) by blast
    have "session_SID s = re_fresh E" using Manager_New_ok_session [OF upgraded(1) ok] by simp
    then have as: "asked_by cfg s ?x" using o(1) upgrade_accepted [OF assms(1) o(2)] by simp
    have t1: "traced cfg (insert ?x X) st1" using ran_new [OF ok upgraded(1)] os upgraded(2,3) by (intro step) auto
    have ok1: "mgr_ok (rl_mgr st1)" using Manager_New_ok_session [OF upgraded(1) ok] upgraded(2) by simp
    have "rl_ran st' = s # rl_ran st1" "rl_mgr st' = rl_mgr st1 \<or> rl_mgr st' = fst (Manager_Delete (session_SID s) (rl_mgr st1))"
      using assms(4) u upgraded by (auto simp: connectHandleV4_def Let_def split: option.splits if_splits)
    then show ?thesis using os as ran_delete [OF ok1] by (intro tracedI [OF t1 subset_refl]) auto
  qed
qed

lemma relay_serve_traced:
  assumes "relay_New T cfg = Ret (Inr r)" and "checks_origin E" and "service_ok cfg st" and "traced cfg X st"
    and "relay_serve r E path req st = Ret (w', st')"
  shows "traced cfg (insert (E, path, req) X) st'"
proof (cases "map_of (rn_routes r) path")
  case None
  with assms(5) have "st' = st" by (simp add: relay_serve_def)
  with assms(4) show ?thesis unfolding traced_def by blast
next
  case (Some rt)
  note f = relay_New_facts [OF assms(1)]
  have p: "path = (case rt of Route_connect \<Rightarrow> ''/connect'' | Route_proxy \<Rightarrow> ''/proxy'' | Route_v4_connect \<Rightarrow> ''/v4/connect'')"
    using map_of_SomeD [OF Some] unfolding f(3) by (auto split: if_splits)
  have s: "relay_handler E cfg rt req (served r) st = Ret (w', st')"
    using Some assms(5) by (simp add: relay_serve_def HandleFunc_def served_def f(1))
  show ?thesis
  proof (cases rt)
    case Route_connect
    with s p connectHandle_traced [OF assms(2-4), of req "served r"] show ?thesis by (simp add: relay_handler_def)
  next
    case Route_proxy
    with s p proxyHandle_traced [OF assms(3,4), of E req "served r"] show ?thesis by (simp add: relay_handler_def)
  next
    case Route_v4_connect
    with s p connectHandleV4_traced [OF assms(2-4), of req "served r"] show ?thesis by (simp add: relay_handler_def)
  qed
qed

text \<open>
  C8. Every run traces back to its requests: however many requests the relay has served, each session that was ever run was opened by one
  of them, on the path of its protocol, with an origin cookie, and over a connection to the host and port that it named; and one of them, which
  came with an Origin header that matches its cookie, asked to run it.
\<close>

theorem runs_trace_back:
  assumes "relay_New T cfg = Ret (Inr r)" and "list_all (\<lambda>x. checks_origin (fst x)) xs"
    and "relay_serve_all r xs (relay_start r) = Ret (ws, st)" and "s \<in> set (rl_ran st)"
  shows "(\<exists>E req. (E, case s of Sess_V1 _ \<Rightarrow> ''/proxy'' | Sess_V4 _ \<Rightarrow> ''/v4/connect'', req) \<in> set xs \<and> re_fresh E = session_SID s \<and>
      (\<exists>origin. Origin req (rc_OriginCookieName cfg) = Inr origin) \<and>
      re_Dial E (JoinHostPort (Query_Get req ''host'') (Query_Get req ''port'')) = None) \<and>
    (\<exists>E path req. (E, path, req) \<in> set xs \<and> Origin req (rc_OriginCookieName cfg) = Inr (Header_Get (rq_Header req) ''Origin'') \<and>
      (path = ''/v4/connect'' \<and> re_fresh E = session_SID s \<or>
       path = ''/connect'' \<and> (\<exists>cr. connect_New (re_uuid E) req = Inr cr \<and> cn_SID cr = session_SID s)))"
proof -
  have all: "traced cfg (set xs \<union> X) st'" if "service_ok cfg st0" "traced cfg X st0" "list_all (\<lambda>x. checks_origin (fst x)) xs"
    "relay_serve_all r xs st0 = Ret (ws, st')" for X st0 ws st'
    using that
  proof (induction xs arbitrary: X st0 ws)
    case (Cons x xs)
    obtain E path req where x: "x = (E, path, req)" by (cases x)
    from relay_serve_step [OF assms(1) Cons.prems(1)] obtain w st1 where s: "relay_serve r E path req st0 = Ret (w, st1)" "service_ok cfg st1" by blast
    from Cons.prems(3) x have "checks_origin E" by simp
    from relay_serve_traced [OF assms(1) this Cons.prems(1,2) s(1)] have t: "traced cfg (insert x X) st1" by (simp add: x)
    from Cons.prems(4) s(1) x obtain ws' where "relay_serve_all r xs st1 = Ret (ws', st')" by (auto simp: go_bind_Ret_iff)
    from Cons.IH [OF s(2) t _ this] Cons.prems(3) show ?case by simp
  qed simp
  have "traced cfg {} (relay_start r)" using relay_New_routes [OF assms(1)] by (simp add: traced_def relay_start_def mgr_view_def)
  from all [OF relay_New_facts(2) [OF assms(1)] this assms(2,3)] have t: "traced cfg (set xs) st" by simp
  obtain x where x: "x \<in> set xs" "opened_by cfg s x" using t assms(4) unfolding traced_def by blast
  obtain y where y: "y \<in> set xs" "asked_by cfg s y" using t assms(4) unfolding traced_def by blast
  obtain E path req E' path' req' where e: "x = (E, path, req)" "y = (E', path', req')" by (cases x; cases y)
  show ?thesis
    by (rule conjI, rule exI [of _ E], rule exI [of _ req])
      (use x e in simp, rule exI [of _ E'], rule exI [of _ path'], rule exI [of _ req'], use y e in simp)
qed

section \<open>A session of one protocol, run by the other\<close>


section \<open>Concrete requests\<close>

definition again_request :: http_request where
  "again_request = \<lparr>rq_RawQuery = Values_Encode [(''sid'', uuid_String rfc4122 5), (''ack'', ''0''), (''pos'', ''0''), (''try'', ''1'')],
     rq_Header = [(''Origin'', ''ext://x''), (''Cookie'', ''origin=ext://x'')]\<rparr>"


theorem relay_serves_safely_witness:
  "\<exists>ws st. relay_serve_all demo_runner [(demo_env, ''/v4/connect'', demo_request), (demo_env, ''/proxy'', demo_request), (demo_env, ''/x'', demo_request)]
      (relay_start demo_runner) = Ret (ws, st) \<and> length ws = 3 \<and> int (length (mgr_sessions (rl_mgr st))) \<le> 1"
proof -
  let ?xs = "[(demo_env, ''/v4/connect'', demo_request), (demo_env, ''/proxy'', demo_request), (demo_env, ''/x'', demo_request)]"
  have "\<not> rc_MaxSessions demo_cfg \<le> 0" "rc_MaxSessions demo_cfg = 1" "length ?xs = 3" by (simp_all add: demo_cfg_def)
  then show ?thesis using relay_serves_safely [OF relay_New_demo, of ?xs] by metis
qed

lemma demo_served:
  "relay_serve_all demo_runner [(demo_env, ''/v4/connect'', demo_request)] (relay_start demo_runner) =
     Ret ([served demo_runner], \<lparr>rl_mgr = fst (Manager_New 5 CorpRelayV4 (manager_New 1 0)), rl_conns = [(''ssh:22'', Some 5)], rl_ran = [Sess_V4 (v4_New 5 Server)]\<rparr>)"
  by (simp add: relay_serve_def HandleFunc_def served_def relay_handler_def demo_runner_def relay_start_def connectHandleV4_def v4_setup_def
      demo_simps demo_cfg_def demo_env_def Manager_New_def manager_New_def version_session_def v4_New_def JoinHostPort_def Let_def)

theorem runs_trace_back_witness:
  "\<exists>E req. (E, ''/v4/connect'', req) \<in> set [(demo_env, ''/v4/connect'', demo_request)] \<and> re_fresh E = session_SID (Sess_V4 (v4_New 5 Server)) \<and>
     (\<exists>origin. Origin req (rc_OriginCookieName demo_cfg) = Inr origin) \<and>
     re_Dial E (JoinHostPort (Query_Get req ''host'') (Query_Get req ''port'')) = None"
proof -
  have c: "list_all (\<lambda>x. checks_origin (fst x)) [(demo_env, ''/v4/connect'', demo_request)]"
    by (simp add: checks_origin_def demo_env_def)
  from runs_trace_back [OF relay_New_demo c demo_served, of "Sess_V4 (v4_New 5 Server)"] show ?thesis by (simp only: session.case relay.select_convs list.set(2) insertI1)
qed

end
