(* ===== verification/Relay_System.thy ===== *)
theory Relay_System
  imports Lifecycle
begin

text \<open>
  All the sessions of a relay together: the manager they share, and the goroutines of each session, which step in any
  interleaving. A step either registers a new session, or is a step of one session (theory \<open>Lifecycle\<close>) on the shared manager. The
  field \<open>l_mgr\<close> of a session is replaced by the shared manager before each of its steps. \<^verbatim>\<open>uuid.New\<close> never repeats a value.
\<close>

record sys =
  sys_mgr :: manager
  sys_lives :: "life list"

definition sys_init :: "int \<Rightarrow> int \<Rightarrow> sys" where
  "sys_init maxSessions maxAge = \<lparr>sys_mgr = manager_New maxSessions maxAge, sys_lives = []\<rparr>"

inductive sys_step :: "sys \<Rightarrow> sys \<Rightarrow> bool" where
  new: "\<lbrakk> f \<notin> life_sid ` set (sys_lives S); life_start f v (sys_mgr S) = Some l \<rbrakk> \<Longrightarrow>
    sys_step S (S\<lparr>sys_mgr := l_mgr l, sys_lives := sys_lives S @ [l]\<rparr>)"
| live: "\<lbrakk> i < length (sys_lives S); life_step ((sys_lives S ! i)\<lparr>l_mgr := sys_mgr S\<rparr>) l \<rbrakk> \<Longrightarrow>
    sys_step S (S\<lparr>sys_mgr := l_mgr l, sys_lives := (sys_lives S)[i := l]\<rparr>)"

inductive sys_reach :: "sys \<Rightarrow> sys \<Rightarrow> bool" for S0 where
  start: "sys_reach S0 S0"
| step: "sys_reach S0 S \<Longrightarrow> sys_step S S' \<Longrightarrow> sys_reach S0 S'"

section \<open>What a step of one session does to the shared manager\<close>

lemma life_step_mgr:
  assumes "life_step l l'"
  shows "l_session l' = l_session l"
    "l_mgr l' = l_mgr l \<and> removed l' = removed l \<or> l_mgr l' = fst (Manager_Delete (life_sid l) (l_mgr l)) \<and> removed l'"
proof -
  from assms show "l_session l' = l_session l" by cases simp_all
  from assms show "l_mgr l' = l_mgr l \<and> removed l' = removed l \<or> l_mgr l' = fst (Manager_Delete (life_sid l) (l_mgr l)) \<and> removed l'"
  proof cases
    case (handler e)
    then show ?thesis by (cases "l_session l") (simp_all add: removed_def handler_delete_def)
  qed (simp_all add: removed_def)
qed

definition chan_inv :: "life \<Rightarrow> bool" where
  "chan_inv l \<longleftrightarrow> done_sends l = done_receives l \<and> errc_inv l \<and> open_inv l"

lemma errc_inv_mgr: "errc_inv (l\<lparr>l_mgr := m\<rparr>) = errc_inv l"
  by (simp add: errc_inv_def split: option.split)

lemma chan_inv_mgr [simp]: "chan_inv (l\<lparr>l_mgr := m\<rparr>) = chan_inv l" "removed (l\<lparr>l_mgr := m\<rparr>) = removed l"
  by (simp_all add: chan_inv_def done_sends_def done_receives_def errc_inv_mgr open_inv_def removed_def)

lemma chan_inv_step: "life_step l l' \<Longrightarrow> chan_inv l \<Longrightarrow> chan_inv l'"
  by (auto simp: chan_inv_def intro: done_step errc_step open_step)

lemma chan_inv_start: "life_start f v m = Some l \<Longrightarrow> mgr_ok m \<Longrightarrow> chan_inv l \<and> \<not> removed l \<and> life_sid l = f"
  using life_inv_start [of f v m l] mgr.new_ok
  by (fastforce simp: chan_inv_def life_inv_def life_start_def removed_def life_sid_def split: prod.splits sum.splits)

text \<open>A session whose SSH connection is open has not been removed from the manager.\<close>

lemma open_not_removed: "chan_inv l \<Longrightarrow> l_open l \<Longrightarrow> \<not> removed l"
  by (cases "l_run l"; cases "l_timer l"; cases "l_watch l"; cases "l_session l")
    (auto simp: chan_inv_def open_inv_def removed_def done_sends_def done_receives_def run_sent_def)

section \<open>The invariant\<close>

definition sys_inv :: "int \<Rightarrow> sys \<Rightarrow> bool" where
  "sys_inv n S \<longleftrightarrow> mgr_ok (sys_mgr S) \<and> mgr_maxSessions (sys_mgr S) = n \<and> distinct (map life_sid (sys_lives S)) \<and>
     (\<forall>l \<in> set (sys_lives S). chan_inv l) \<and>
     (\<forall>k s. mgr_view (sys_mgr S) k = Some s \<longleftrightarrow> (\<exists>l \<in> set (sys_lives S). life_sid l = k \<and> l_session l = s \<and> \<not> removed l))"

lemma sys_inv_init: "sys_inv n (sys_init n age)"
  by (simp add: sys_inv_def sys_init_def)

lemma sys_inv_new:
  assumes I: "sys_inv n S" and f: "f \<notin> life_sid ` set (sys_lives S)" and l: "life_start f v (sys_mgr S) = Some l"
  shows "sys_inv n (S\<lparr>sys_mgr := l_mgr l, sys_lives := sys_lives S @ [l]\<rparr>)"
proof -
  have ok: "mgr_ok (sys_mgr S)" using I by (simp add: sys_inv_def)
  from life_start_fields(4) [OF l] have m: "Manager_New f v (sys_mgr S) = (l_mgr l, Inr (l_session l))" by auto
  note new = mgr.new_ok [OF ok m] and start = chan_inv_start [OF l ok]
  have "mgr_maxSessions (l_mgr l) = n" using mgr_step_limits [of "sys_mgr S" "New_op f v"] m I by (simp add: sys_inv_def)
  with I new start f show ?thesis unfolding sys_inv_def by (auto simp: image_iff)
qed

lemma sys_inv_live:
  assumes I: "sys_inv n S" and i: "i < length (sys_lives S)" and e: "life_step ((sys_lives S ! i)\<lparr>l_mgr := sys_mgr S\<rparr>) l'"
  shows "sys_inv n (S\<lparr>sys_mgr := l_mgr l', sys_lives := (sys_lives S)[i := l']\<rparr>)"
proof -
  let ?l = "sys_lives S ! i" and ?ls = "(sys_lives S)[i := l']"
  have ok: "mgr_ok (sys_mgr S)" and d: "distinct (map life_sid (sys_lives S))" using I by (simp_all add: sys_inv_def)
  note s = life_step_mgr(1) [OF e, simplified] and ml = life_step_mgr(2) [OF e, simplified]
  have sid: "life_sid l' = life_sid ?l" using s by (simp add: life_sid_def)
  have sids: "map life_sid ?ls = map life_sid (sys_lives S)" using i sid by (simp add: map_update list_update_same_conv)
  have "chan_inv l'" using chan_inv_step [OF e] I i by (simp add: sys_inv_def)
  then have c: "\<forall>l \<in> set ?ls. chan_inv l" using I set_update_subset_insert [of "sys_lives S" i l'] unfolding sys_inv_def by blast
  have dl: "distinct (sys_lives S)" and inj: "inj_on life_sid (set (sys_lives S))" using d by (simp_all add: distinct_map)
  have old: "l \<in> set (sys_lives S) \<and> life_sid l = life_sid ?l \<longleftrightarrow> l = ?l" for l
    using inj_onD [OF inj, of l ?l] nth_mem [OF i] by blast
  have mem: "l \<in> set ?ls \<longleftrightarrow> l = l' \<or> l \<in> set (sys_lives S) \<and> life_sid l \<noteq> life_sid ?l" for l
    unfolding set_update_distinct [OF dl i] using old [of l] by blast
  from ml show ?thesis
  proof
    assume a: "l_mgr l' = sys_mgr S \<and> removed l' = removed ?l"
    have "(\<exists>l \<in> set ?ls. life_sid l = k \<and> l_session l = x \<and> \<not> removed l) \<longleftrightarrow>
        (\<exists>l \<in> set (sys_lives S). life_sid l = k \<and> l_session l = x \<and> \<not> removed l)" for k x
      unfolding Bex_def mem using a sid s old by metis
    with I a c d sids show ?thesis by (simp add: sys_inv_def)
  next
    assume a: "l_mgr l' = fst (Manager_Delete (life_sid ?l) (sys_mgr S)) \<and> removed l'"
    obtain m' err where m: "Manager_Delete (life_sid ?l) (sys_mgr S) = (m', err)" by fastforce
    have "mgr_view m' = (mgr_view (sys_mgr S))(life_sid ?l := None)" "mgr_ok m'" using mgr.del_view [OF ok m] by blast+
    moreover have "mgr_maxSessions m' = n" using mgr_step_limits [of "sys_mgr S" "Delete_op (life_sid ?l)"] m I by (simp add: sys_inv_def)
    moreover have "(\<exists>l \<in> set ?ls. life_sid l = k \<and> l_session l = x \<and> \<not> removed l) \<longleftrightarrow>
        k \<noteq> life_sid ?l \<and> (\<exists>l \<in> set (sys_lives S). life_sid l = k \<and> l_session l = x \<and> \<not> removed l)" for k x
      unfolding Bex_def mem using a sid by metis
    ultimately show ?thesis using I a c d sids m by (simp add: sys_inv_def)
  qed
qed

lemma sys_inv_reach: "sys_reach (sys_init n age) S \<Longrightarrow> sys_inv n S"
proof (induction rule: sys_reach.induct)
  case start
  show ?case by (rule sys_inv_init)
next
  case (step S S')
  from step.hyps(2) step.IH show ?case by cases (simp_all add: sys_inv_new sys_inv_live)
qed

section \<open>What the manager knows\<close>



section \<open>Sessions that are never given back\<close>

lemma sys_reach_trans: "sys_reach S1 S2 \<Longrightarrow> sys_reach S0 S1 \<Longrightarrow> sys_reach S0 S2"
  by (induction rule: sys_reach.induct) (auto intro: sys_reach.step)

text \<open>A run of one session is a run of the system.\<close>

lemma life_reach_sys:
  assumes "life_reach l l'" and "i < length (sys_lives S)" and "sys_lives S ! i = l" and "l_mgr l = sys_mgr S"
  shows "sys_reach S (S\<lparr>sys_mgr := l_mgr l', sys_lives := (sys_lives S)[i := l']\<rparr>)"
  using assms(1)
proof (induction rule: life_reach.induct)
  case start
  have "S\<lparr>sys_mgr := l_mgr l, sys_lives := (sys_lives S)[i := l]\<rparr> = S"
    using assms(4) by (intro sys.equality) (simp_all add: assms(3) [symmetric])
  then show ?case by (simp add: sys_reach.start)
next
  case (step k k')
  let ?S = "S\<lparr>sys_mgr := l_mgr k, sys_lives := (sys_lives S)[i := k]\<rparr>"
  have "sys_step ?S (?S\<lparr>sys_mgr := l_mgr k', sys_lives := (sys_lives ?S)[i := k']\<rparr>)"
    by (rule live) (use step assms(2) in simp_all)
  then show ?case using sys_reach.step [OF step.IH] by simp
qed

lemma stuck_mgr: "l_watch l = Watch_waiting \<Longrightarrow> stuck ((unnoticed_end e l)\<lparr>l_mgr := m\<rparr>)"
  by (auto simp: stuck_def unnoticed_end_def elim: life_step.cases)

definition leaked :: "go_error \<Rightarrow> life \<Rightarrow> bool" where
  "leaked e l \<longleftrightarrow> l_run l = Handler_done e \<and> \<not> l_open l \<and> (\<forall>m. stuck (l\<lparr>l_mgr := m\<rparr>))"

lemma length_update_new: "k \<notin> fst ` set xs \<Longrightarrow> length (AList.update k v xs) = Suc (length xs)"
  by (induction xs) auto

text \<open>One more leaked session: the system registers it, it runs to its end, and the manager has one slot less.\<close>

lemma leak_one:
  assumes r: "sys_reach S0 S" and e: "\<not> errors_Is e EOF" and f: "f \<notin> life_sid ` set (sys_lives S)" "f \<notin> fst ` set (mgr_sessions (sys_mgr S))"
    and n: "int (length (mgr_sessions (sys_mgr S))) < mgr_maxSessions (sys_mgr S)"
  obtains S' l where "sys_reach S0 S'" "sys_lives S' = sys_lives S @ [l]" "life_sid l = f" "leaked e l"
    "mgr_maxSessions (sys_mgr S') = mgr_maxSessions (sys_mgr S)"
    "fst ` set (mgr_sessions (sys_mgr S')) = insert f (fst ` set (mgr_sessions (sys_mgr S)))"
    "length (mgr_sessions (sys_mgr S')) = Suc (length (mgr_sessions (sys_mgr S)))"
proof -
  let ?m = "sys_mgr S" and ?s = "Sess_V4 (v4_New f Server)"
  have sid: "session_SID ?s = f" by (rule version_session_SID [of CorpRelayV4]) (simp add: version_session_def)
  obtain l where l: "life_start f CorpRelayV4 ?m = Some l" "l_session l = ?s"
    "l_mgr l = ?m\<lparr>mgr_watch := (f, mgr_maxAge ?m) # mgr_watch ?m, mgr_sessions := AList.update f ?s (mgr_sessions ?m)\<rparr>"
    using n sid by (simp add: life_start_def Manager_New_def version_session_def)
  note fl = life_start_fields [OF l(1)]
  let ?S = "S\<lparr>sys_mgr := l_mgr l, sys_lives := sys_lives S @ [l]\<rparr>" and ?u = "unnoticed_end e l"
  have "sys_reach S0 ?S" by (rule sys_reach.step [OF r]) (rule new [OF f(1) l(1)])
  moreover have "sys_reach ?S (?S\<lparr>sys_mgr := l_mgr ?u, sys_lives := (sys_lives ?S)[length (sys_lives S) := ?u]\<rparr>)"
    by (rule life_reach_sys [OF unnoticed_end_reach]) (use fl in simp_all)
  ultimately have "sys_reach S0 (S\<lparr>sys_mgr := l_mgr ?u, sys_lives := sys_lives S @ [?u]\<rparr>)"
    using sys_reach_trans by fastforce
  moreover have "l_mgr ?u = l_mgr l" using e l(2) by (simp add: unnoticed_end_def handler_delete_def)
  moreover have "life_sid ?u = f" using l(2) sid by (simp add: unnoticed_end_def life_sid_def)
  moreover have "leaked e ?u" using stuck_mgr [OF fl(3)] by (simp add: leaked_def) (simp add: unnoticed_end_def)
  moreover have "length (AList.update f ?s (mgr_sessions ?m)) = Suc (length (mgr_sessions ?m))"
    using f(2) by (rule length_update_new)
  ultimately show thesis using l(3)
    by (intro that [of "S\<lparr>sys_mgr := l_mgr ?u, sys_lives := sys_lives S @ [?u]\<rparr>" ?u]) (simp_all add: dom_update)
qed

lemma leak_many:
  assumes e: "\<not> errors_Is e EOF" and n: "n < 2 ^ 128" and "k \<le> n"
  shows "\<exists>S. sys_reach (sys_init (int n) age) S \<and> map life_sid (sys_lives S) = map of_nat [0..<k] \<and> list_all (leaked e) (sys_lives S) \<and>
    mgr_maxSessions (sys_mgr S) = int n \<and> fst ` set (mgr_sessions (sys_mgr S)) = of_nat ` {..<k} \<and> length (mgr_sessions (sys_mgr S)) = k"
  using assms(3)
proof (induction k)
  case 0
  show ?case by (intro exI [of _ "sys_init (int n) age"]) (simp add: sys_reach.start, simp add: sys_init_def manager_New_def)
next
  case (Suc k)
  then obtain S where S: "sys_reach (sys_init (int n) age) S" "map life_sid (sys_lives S) = map of_nat [0..<k]" "list_all (leaked e) (sys_lives S)"
    "mgr_maxSessions (sys_mgr S) = int n" "fst ` set (mgr_sessions (sys_mgr S)) = of_nat ` {..<k}" "length (mgr_sessions (sys_mgr S)) = k"
    by auto
  have "(of_nat k :: uuid) \<noteq> of_nat j" if "j < k" for j
    using that n Suc.prems by (simp add: word_of_nat_eq_iff take_bit_nat_eq_self)
  then have f: "(of_nat k :: uuid) \<notin> of_nat ` {..<k}" by blast
  have "life_sid ` set (sys_lives S) = of_nat ` {..<k}" using arg_cong [OF S(2), of set] by (simp add: atLeast0LessThan)
  with leak_one [OF S(1) e, of "of_nat k"] f S(4-6) Suc.prems obtain S' l where
    "sys_reach (sys_init (int n) age) S'" "sys_lives S' = sys_lives S @ [l]" "life_sid l = of_nat k" "leaked e l"
    "mgr_maxSessions (sys_mgr S') = int n" "fst ` set (mgr_sessions (sys_mgr S')) = insert (of_nat k) (of_nat ` {..<k})"
    "length (mgr_sessions (sys_mgr S')) = Suc k" by auto
  with S show ?case by (intro exI [of _ S']) (simp add: lessThan_Suc)
qed



text \<open>The other two theorems on the relay with one session, and a limit of one.\<close>

definition demo_sys :: sys where
  "demo_sys = \<lparr>sys_mgr = l_mgr (demo CorpRelay), sys_lives = [demo CorpRelay]\<rparr>"

lemma demo_sys_reach: "sys_reach (sys_init 1 60) demo_sys"
proof -
  have "sys_step (sys_init 1 60) ((sys_init 1 60)\<lparr>sys_mgr := l_mgr (demo CorpRelay), sys_lives := sys_lives (sys_init 1 60) @ [demo CorpRelay]\<rparr>)"
    by (rule new [where f = 5 and v = CorpRelay]) (simp_all add: sys_init_def demo_start)
  then show ?thesis using sys_reach.step [OF sys_reach.start] by (simp add: demo_sys_def sys_init_def)
qed



end
