(* ===== verification/Json.thy ===== *)
theory Json
  imports Net_Url Go_IO
begin

text \<open>
  What the program uses of \<^verbatim>\<open>encoding/json\<close> and \<^verbatim>\<open>unicode/utf8\<close>: the encoder for strings (with the escapes that protect HTML), and the
  decoder of a stream. As in the library, the decoder first finds the end of the next value with a scanner, an automaton with
  a stack that reads one byte at a time, so it is structurally recursive and needs no fuel; strings are unquoted afterwards. Here the scanner
  also builds the value. Of the texts of syntax errors only the context is kept. The last section proves that decoding undoes encoding,
  up to bytes that are not UTF-8, which the encoder replaces.
\<close>

abbreviation ccode :: "char \<Rightarrow> nat" where
  "ccode c \<equiv> of_char c"

section \<open>JSON encoding\<close>

text \<open>The length of the first UTF-8 sequence of a string, when it is a valid one of more than one byte.\<close>

definition cont :: "nat \<Rightarrow> nat \<Rightarrow> char \<Rightarrow> bool" where
  "cont lo hi c \<longleftrightarrow> lo \<le> (of_char c :: nat) \<and> (of_char c :: nat) \<le> hi"

definition utf8_len :: "string \<Rightarrow> nat option" where
  "utf8_len s =
     (case s of
        a # b # r \<Rightarrow>
          let n = (of_char a :: nat) in
          if 0xC2 \<le> n \<and> n \<le> 0xDF then (if cont 0x80 0xBF b then Some 2 else None)
          else (case r of
             c # r' \<Rightarrow>
               if 0xE0 \<le> n \<and> n \<le> 0xEF then
                 (if cont (if n = 0xE0 then 0xA0 else 0x80) (if n = 0xED then 0x9F else 0xBF) b \<and> cont 0x80 0xBF c then Some 3 else None)
               else (case r' of
                  d # _ \<Rightarrow>
                    if 0xF0 \<le> n \<and> n \<le> 0xF4 \<and> cont (if n = 0xF0 then 0x90 else 0x80) (if n = 0xF4 then 0x8F else 0xBF) b \<and>
                       cont 0x80 0xBF c \<and> cont 0x80 0xBF d then Some 4 else None
                | [] \<Rightarrow> None)
           | [] \<Rightarrow> None)
      | _ \<Rightarrow> None)"

definition lower_hex :: "nat \<Rightarrow> char" where
  "lower_hex d = (if d < 10 then char_of (48 + d) else char_of (87 + d))"

text \<open>An ASCII character in a JSON string; \<^verbatim>\<open>json.Marshal\<close> also escapes the characters that matter to HTML.\<close>

definition json_char :: "char \<Rightarrow> string" where
  "json_char c =
     (let n = (of_char c :: nat) in
      if n = 34 \<or> n = 92 then [char_of (92 :: nat), c]
      else if n = 8 then [char_of (92 :: nat), CHR ''b''] else if n = 12 then [char_of (92 :: nat), CHR ''f'']
      else if n = 10 then [char_of (92 :: nat), CHR ''n''] else if n = 13 then [char_of (92 :: nat), CHR ''r'']
      else if n = 9 then [char_of (92 :: nat), CHR ''t'']
      else if n < 32 \<or> n = 38 \<or> n = 60 \<or> n = 62 then char_of (92 :: nat) # ''u00'' @ [lower_hex (n div 16), lower_hex (n mod 16)]
      else [c])"

text \<open>The line separators U+2028 and U+2029, which are escaped although they are valid.\<close>

definition line_separator :: "string \<Rightarrow> bool" where
  "line_separator s \<longleftrightarrow> map (of_char :: char \<Rightarrow> nat) s \<in> {[0xE2, 0x80, 0xA8], [0xE2, 0x80, 0xA9]}"

definition json_step :: "string \<Rightarrow> string \<times> nat" where
  "json_step s =
     (if (of_char (hd s) :: nat) < 128 then (json_char (hd s), 1)
      else case utf8_len s of
        None \<Rightarrow> (char_of (92 :: nat) # ''ufffd'', 1)
      | Some k \<Rightarrow>
          if line_separator (take k s) then (char_of (92 :: nat) # ''u202'' @ [lower_hex (of_char (s ! 2) mod 16)], k)
          else (take k s, k))"

lemma json_step_pos: "0 < snd (json_step s)"
  by (auto simp: json_step_def utf8_len_def Let_def split: option.splits list.splits if_splits)

function json_text :: "string \<Rightarrow> string" where
  "json_text s = (if s = [] then [] else fst (json_step s) @ json_text (drop (snd (json_step s)) s))"
  by pat_completeness auto

termination
  by (relation "measure length") (use json_step_pos in \<open>auto simp: diff_less\<close>)

declare json_text.simps [simp del]

definition json_string :: "string \<Rightarrow> string" where
  "json_string s = char_of (34 :: nat) # json_text s @ [char_of (34 :: nat)]"

section \<open>Unquoting\<close>

definition encode_rune :: "nat \<Rightarrow> string" where
  "encode_rune r =
     (if r < 0x80 then [char_of r]
      else if r < 0x800 then [char_of (0xC0 + r div 64), char_of (0x80 + r mod 64)]
      else if r < 0x10000 then [char_of (0xE0 + r div 4096), char_of (0x80 + r div 64 mod 64), char_of (0x80 + r mod 64)]
      else [char_of (0xF0 + r div 262144), char_of (0x80 + r div 4096 mod 64), char_of (0x80 + r div 64 mod 64), char_of (0x80 + r mod 64)])"

definition replacement :: nat where "replacement = 0xFFFD"

definition hex_value :: "char \<Rightarrow> nat option" where
  "hex_value c =
     (let n = ccode c in
      if 48 \<le> n \<and> n \<le> 57 then Some (n - 48) else if 97 \<le> n \<and> n \<le> 102 then Some (n - 87)
      else if 65 \<le> n \<and> n \<le> 70 then Some (n - 55) else None)"

text \<open>\<^verbatim>\<open>getu4\<close>: the number in a leading \<^verbatim>\<open>\uXXXX\<close>.\<close>

definition getu4 :: "string \<Rightarrow> nat option" where
  "getu4 s =
     (case s of
        b # u # p # q # r # t # _ \<Rightarrow>
          if ccode b = 92 \<and> ccode u = 117 then
            (case (hex_value p, hex_value q, hex_value r, hex_value t) of
               (Some w, Some x, Some y, Some z) \<Rightarrow> Some (w * 4096 + x * 256 + y * 16 + z)
             | _ \<Rightarrow> None)
          else None
      | _ \<Rightarrow> None)"

text \<open>\<^verbatim>\<open>utf16.DecodeRune\<close> of a surrogate and what follows it.\<close>

definition decode_surrogates :: "nat \<Rightarrow> nat option \<Rightarrow> nat option" where
  "decode_surrogates hi lo =
     (case lo of
        None \<Rightarrow> None
      | Some lo \<Rightarrow>
          if 0xD800 \<le> hi \<and> hi < 0xDC00 \<and> 0xDC00 \<le> lo \<and> lo < 0xE000 then Some ((hi - 0xD800) * 1024 + (lo - 0xDC00) + 0x10000) else None)"

definition unquote_u :: "string \<Rightarrow> (string \<times> nat) option" where
  "unquote_u s =
     (case getu4 s of
        None \<Rightarrow> None
      | Some r \<Rightarrow>
          if 0xD800 \<le> r \<and> r < 0xE000 then
            (case decode_surrogates r (getu4 (drop 6 s)) of
               Some r' \<Rightarrow> Some (encode_rune r', 12)
             | None \<Rightarrow> Some (encode_rune replacement, 6))
          else Some (encode_rune r, 6))"

definition unescape :: "char \<Rightarrow> char option" where
  "unescape c =
     (let n = ccode c in
      if n \<in> {34, 92, 47, 39} then Some c
      else if n = 98 then Some (char_of (8 :: nat)) else if n = 102 then Some (char_of (12 :: nat))
      else if n = 110 then Some (char_of (10 :: nat)) else if n = 114 then Some (char_of (13 :: nat))
      else if n = 116 then Some (char_of (9 :: nat)) else None)"

text \<open>One turn of the loop of \<^verbatim>\<open>unquoteBytes\<close>: what is written, and how many bytes were read.\<close>

definition unquote_step :: "string \<Rightarrow> (string \<times> nat) option" where
  "unquote_step s =
     (let n = ccode (hd s) in
      if n = 92 then
        (case tl s of
           [] \<Rightarrow> None
         | c # _ \<Rightarrow> if ccode c = 117 then unquote_u s else map_option (\<lambda>x. ([x], 2)) (unescape c))
      else if n = 34 \<or> n < 32 then None
      else if n < 128 then Some ([hd s], 1)
      else (case utf8_len s of Some k \<Rightarrow> Some (take k s, k) | None \<Rightarrow> Some (encode_rune replacement, 1)))"

lemma utf8_len_pos: "utf8_len s = Some k \<Longrightarrow> 2 \<le> k \<and> k \<le> length s"
  by (auto simp: utf8_len_def Let_def split: list.splits if_splits)

lemma unquote_step_pos: "unquote_step s = Some (out, k) \<Longrightarrow> 0 < k"
  by (auto simp: unquote_step_def unquote_u_def Let_def split: list.splits if_splits option.splits dest: utf8_len_pos)

function unquote :: "string \<Rightarrow> string option" where
  "unquote s =
     (if s = [] then Some []
      else case unquote_step s of
        None \<Rightarrow> None
      | Some (out, k) \<Rightarrow> map_option (append out) (unquote (drop k s)))"
  by pat_completeness auto

termination
  by (relation "measure length") (use unquote_step_pos in \<open>auto simp: diff_less\<close>)

declare unquote.simps [simp del]

section \<open>The scanner\<close>

datatype json = JNull | JBool bool | JNumber string | JString string | JArray "json list" | JObject "(string \<times> json) list"

datatype num_state = Num_neg | Num_0 | Num_1 | Num_dot | Num_dot0 | Num_e | Num_esign | Num_e0

datatype scan_state =
    BeginValue | BeginValueOrEmpty | BeginStringOrEmpty | BeginString
  | InString string | InStringEsc string | InStringEscU nat string
  | InNumber num_state string | InLiteral string json
  | EndKey string | EndPair | EndElem

text \<open>
  The stack: the elements of an open array, the fields of an open object (waiting for a key), or the fields and a key (waiting for
  its value).
\<close>

datatype frame = Arr "json list" | Key "(string \<times> json) list" | Val "(string \<times> json) list" string

datatype scan_result = More scan_state "frame list" | Done json | Fail go_error

definition maxNestingDepth :: nat where "maxNestingDepth = 10000"

definition push :: "frame \<Rightarrow> scan_state \<Rightarrow> frame list \<Rightarrow> scan_result" where
  "push f st stk = (if length stk < maxNestingDepth then More st (f # stk) else Fail (NewError ''exceeded max depth''))"

definition is_space :: "char \<Rightarrow> bool" where
  "is_space c \<longleftrightarrow> ccode c \<in> {32, 9, 13, 10}"

definition syntax_error :: "string \<Rightarrow> scan_result" where
  "syntax_error context = Fail (NewError context)"

text \<open>A value has been read completely.\<close>

fun finish :: "json \<Rightarrow> frame list \<Rightarrow> scan_result" where
  "finish v [] = Done v"
| "finish v (Arr vs # stk) = More EndElem (Arr (vs @ [v]) # stk)"
| "finish v (Val fs k # stk) = More EndPair (Key (fs @ [(k, v)]) # stk)"
| "finish (JString k) (Key fs # stk) = More (EndKey k) (Key fs # stk)"
| "finish v (Key fs # stk) = syntax_error ''looking for beginning of object key string''"

definition begin_value :: "char \<Rightarrow> scan_state \<Rightarrow> frame list \<Rightarrow> scan_result" where
  "begin_value c st stk =
     (let n = ccode c in
      if is_space c then More st stk
      else if n = 123 then push (Key []) BeginStringOrEmpty stk
      else if n = 91 then push (Arr []) BeginValueOrEmpty stk
      else if n = 34 then More (InString []) stk
      else if n = 45 then More (InNumber Num_neg [c]) stk
      else if n = 48 then More (InNumber Num_0 [c]) stk
      else if 49 \<le> n \<and> n \<le> 57 then More (InNumber Num_1 [c]) stk
      else if n = 116 then More (InLiteral ''rue'' (JBool True)) stk
      else if n = 102 then More (InLiteral ''alse'' (JBool False)) stk
      else if n = 110 then More (InLiteral ''ull'' JNull) stk
      else syntax_error ''looking for beginning of value'')"

definition begin_string :: "char \<Rightarrow> scan_state \<Rightarrow> frame list \<Rightarrow> scan_result" where
  "begin_string c st stk =
     (if is_space c then More st stk else if ccode c = 34 then More (InString []) stk
      else syntax_error ''looking for beginning of object key string'')"

text \<open>After a key, after a field of an object, and after an element of an array.\<close>

definition end_value :: "char \<Rightarrow> scan_state \<Rightarrow> frame list \<Rightarrow> scan_result" where
  "end_value c st stk =
     (if is_space c then More st stk
      else case (st, stk) of
        (EndKey k, Key fs # r) \<Rightarrow> if ccode c = 58 then More BeginValue (Val fs k # r) else syntax_error ''after object key''
      | (EndPair, Key fs # r) \<Rightarrow>
          if ccode c = 44 then More BeginString stk else if ccode c = 125 then finish (JObject fs) r else syntax_error ''after object key:value pair''
      | (EndElem, Arr vs # r) \<Rightarrow>
          if ccode c = 44 then More BeginValue stk else if ccode c = 93 then finish (JArray vs) r else syntax_error ''after array element''
      | _ \<Rightarrow> syntax_error [])"

text \<open>How a number goes on, if it does; \<open>num_final\<close> are the states in which it may end.\<close>

definition num_next :: "num_state \<Rightarrow> char \<Rightarrow> num_state option" where
  "num_next st c =
     (let n = ccode c; digit = (48 \<le> n \<and> n \<le> 57); exp = (n = 101 \<or> n = 69) in
      case st of
        Num_neg \<Rightarrow> if n = 48 then Some Num_0 else if digit then Some Num_1 else None
      | Num_0 \<Rightarrow> if n = 46 then Some Num_dot else if exp then Some Num_e else None
      | Num_1 \<Rightarrow> if digit then Some Num_1 else if n = 46 then Some Num_dot else if exp then Some Num_e else None
      | Num_dot \<Rightarrow> if digit then Some Num_dot0 else None
      | Num_dot0 \<Rightarrow> if digit then Some Num_dot0 else if exp then Some Num_e else None
      | Num_e \<Rightarrow> if n = 43 \<or> n = 45 then Some Num_esign else if digit then Some Num_e0 else None
      | Num_esign \<Rightarrow> if digit then Some Num_e0 else None
      | Num_e0 \<Rightarrow> if digit then Some Num_e0 else None)"

definition num_final :: "num_state \<Rightarrow> bool" where
  "num_final st \<longleftrightarrow> st \<in> {Num_0, Num_1, Num_dot0, Num_e0}"

definition finish_string :: "string \<Rightarrow> frame list \<Rightarrow> scan_result" where
  "finish_string raw stk = (case unquote raw of Some s \<Rightarrow> finish (JString s) stk | None \<Rightarrow> syntax_error ''in string literal'')"

fun scan_step :: "scan_state \<Rightarrow> frame list \<Rightarrow> char \<Rightarrow> scan_result" where
  "scan_step BeginValue stk c = begin_value c BeginValue stk"
| "scan_step BeginValueOrEmpty stk c =
     (if ccode c = 93 then finish (JArray []) (tl stk) else begin_value c (if is_space c then BeginValueOrEmpty else BeginValue) stk)"
| "scan_step BeginStringOrEmpty stk c =
     (if ccode c = 125 then finish (JObject []) (tl stk) else begin_string c BeginStringOrEmpty stk)"
| "scan_step BeginString stk c = begin_string c BeginString stk"
| "scan_step (InString raw) stk c =
     (if ccode c = 34 then finish_string raw stk
      else if ccode c = 92 then More (InStringEsc raw) stk
      else if ccode c < 32 then syntax_error ''in string literal''
      else More (InString (raw @ [c])) stk)"
| "scan_step (InStringEsc raw) stk c =
     (if ccode c \<in> {98, 102, 110, 114, 116, 92, 47, 34} then More (InString (raw @ [char_of (92 :: nat), c])) stk
      else if ccode c = 117 then More (InStringEscU 4 (raw @ [char_of (92 :: nat), c])) stk
      else syntax_error ''in string escape code'')"
| "scan_step (InStringEscU k raw) stk c =
     (if hex_value c = None then syntax_error ''in u hexadecimal character escape''
      else More (if k \<le> 1 then InString (raw @ [c]) else InStringEscU (k - 1) (raw @ [c])) stk)"
| "scan_step (InNumber st raw) stk c =
     (case num_next st c of
        Some st' \<Rightarrow> More (InNumber st' (raw @ [c])) stk
      | None \<Rightarrow>
          if num_final st then
            (case finish (JNumber raw) stk of More st' stk' \<Rightarrow> end_value c st' stk' | r \<Rightarrow> r)
          else syntax_error ''in numeric literal'')"
| "scan_step (InLiteral rest v) stk c =
     (case rest of
        x # r \<Rightarrow> if c = x then (if r = [] then finish v stk else More (InLiteral r v) stk) else syntax_error ''in literal''
      | [] \<Rightarrow> syntax_error ''in literal'')"
| "scan_step st stk c = end_value c st stk"

text \<open>
  At the end of the input a number at the top level is complete; only blanks give \<^verbatim>\<open>io.EOF\<close>, and a value that is cut off gives
  \<^verbatim>\<open>io.ErrUnexpectedEOF\<close>.
\<close>

fun scan_end :: "scan_state \<Rightarrow> frame list \<Rightarrow> go_error + json" where
  "scan_end BeginValue [] = Inl EOF"
| "scan_end (InNumber st raw) [] = (if num_final st then Inr (JNumber raw) else Inl ErrUnexpectedEOF)"
| "scan_end _ _ = Inl ErrUnexpectedEOF"

fun scan :: "scan_state \<Rightarrow> frame list \<Rightarrow> string \<Rightarrow> go_error + json" where
  "scan st stk [] = scan_end st stk"
| "scan st stk (c # s) =
     (case scan_step st stk c of More st' stk' \<Rightarrow> scan st' stk' s | Done v \<Rightarrow> Inr v | Fail e \<Rightarrow> Inl e)"

text \<open>The value at the start of a stream; what follows it is not looked at.\<close>

definition read_value :: "string \<Rightarrow> go_error + json" where
  "read_value s = scan BeginValue [] s"

section \<open>Decoding what was encoded\<close>

text \<open>\<open>coerce_utf8\<close> replaces every byte that is not part of a valid UTF-8 sequence by U+FFFD; \<open>valid_utf8\<close> texts have none.\<close>

definition coerce_step :: "string \<Rightarrow> string \<times> nat" where
  "coerce_step s =
     (if ccode (hd s) < 128 then ([hd s], 1)
      else case utf8_len s of Some k \<Rightarrow> (take k s, k) | None \<Rightarrow> (encode_rune replacement, 1))"

lemma coerce_step_snd: "snd (coerce_step s) = snd (json_step s)"
  by (simp add: coerce_step_def json_step_def split: option.split)

function coerce_utf8 :: "string \<Rightarrow> string" where
  "coerce_utf8 s = (if s = [] then [] else fst (coerce_step s) @ coerce_utf8 (drop (snd (coerce_step s)) s))"
  by pat_completeness auto

termination
  by (relation "measure length") (use json_step_pos in \<open>auto simp: diff_less coerce_step_snd\<close>)

declare coerce_utf8.simps [simp del]

function valid_utf8 :: "string \<Rightarrow> bool" where
  "valid_utf8 s \<longleftrightarrow>
     (if s = [] then True
      else if ccode (hd s) < 128 then valid_utf8 (tl s)
      else case utf8_len s of Some k \<Rightarrow> valid_utf8 (drop k s) | None \<Rightarrow> False)"
  by pat_completeness auto

termination
  by (relation "measure length") (auto simp: diff_less dest: utf8_len_pos)

declare valid_utf8.simps [simp del]

lemma coerce_utf8_valid: "valid_utf8 s \<Longrightarrow> coerce_utf8 s = s"
proof (induction s rule: valid_utf8.induct)
  case (1 s)
  show ?case
  proof (cases "s = []")
    case False
    from 1(3) False have v: "if ccode (hd s) < 128 then valid_utf8 (tl s) else case utf8_len s of Some k \<Rightarrow> valid_utf8 (drop k s) | None \<Rightarrow> False"
      using valid_utf8.simps [of s] by simp
    show ?thesis
    proof (cases "ccode (hd s) < 128")
      case True
      with 1(1) [OF False True] v have "coerce_utf8 (tl s) = tl s" by simp
      with True False show ?thesis using coerce_utf8.simps [of s] by (simp add: coerce_step_def drop_Suc)
    next
      case less: False
      with v obtain k where k: "utf8_len s = Some k" "valid_utf8 (drop k s)" by (auto split: option.splits)
      from 1(2) [OF False less k] less k False show ?thesis using coerce_utf8.simps [of s] by (simp add: coerce_step_def)
    qed
  qed (simp add: coerce_utf8.simps)
qed

lemma ascii_valid: "list_all (\<lambda>c. ccode c < 128) s \<Longrightarrow> valid_utf8 s"
  by (induction s) (simp_all add: valid_utf8.simps)

text \<open>A multi-byte sequence is recognised by its own bytes.\<close>

lemma utf8_len_append: "utf8_len s = Some k \<Longrightarrow> utf8_len (take k s @ t) = Some k"
  by (auto simp: utf8_len_def Let_def split: list.splits if_splits)

lemma utf8_len_high: "utf8_len s = Some k \<Longrightarrow> c \<in> set (take k s) \<Longrightarrow> 128 \<le> ccode c"
  by (auto simp: utf8_len_def Let_def cont_def split: list.splits if_splits)


lemma hex_value_lower: "d < 16 \<Longrightarrow> hex_value (lower_hex d) = Some d"
  by (simp add: hex_value_def lower_hex_def Let_def)

lemma hex_value_digits: "hex_value (CHR ''0'') = Some 0" "hex_value (CHR ''2'') = Some 2" "hex_value (CHR ''f'') = Some 15" "hex_value (CHR ''d'') = Some 13"
  by (simp_all add: hex_value_def)

lemma unquote_step_u:
  "getu4 s = Some r \<Longrightarrow> \<not> (0xD800 \<le> r \<and> r < 0xE000) \<Longrightarrow> unquote_step s = Some (encode_rune r, 6)"
  by (auto simp: getu4_def unquote_step_def unquote_u_def split: list.splits if_splits option.splits)

text \<open>The escapes that the encoder uses, read back.\<close>

lemma unquote_step_u00:
  assumes "n < 128"
  shows "unquote_step (char_of (92 :: nat) # ''u00'' @ [lower_hex (n div 16), lower_hex (n mod 16)] @ t) = Some ([char_of n], 6)"
proof -
  have d: "n div 16 < 16" "n mod 16 < 16" using assms by auto
  have "getu4 (char_of (92 :: nat) # ''u00'' @ [lower_hex (n div 16), lower_hex (n mod 16)] @ t) = Some n"
    unfolding getu4_def by (simp add: hex_value_lower [OF d(1)] hex_value_lower [OF d(2)] hex_value_digits)
  from unquote_step_u [OF this] assms show ?thesis by (simp add: encode_rune_def)
qed

lemma unquote_step_separator:
  assumes "d \<in> {8, 9}"
  shows "unquote_step (char_of (92 :: nat) # ''u202'' @ [lower_hex d] @ t) = Some ([char_of (0xE2 :: nat), char_of (0x80 :: nat), char_of (0xA0 + d)], 6)"
proof -
  have "d < 16" using assms by auto
  then have "getu4 (char_of (92 :: nat) # ''u202'' @ [lower_hex d] @ t) = Some (8224 + d)"
    unfolding getu4_def by (simp add: hex_value_lower hex_value_digits)
  from unquote_step_u [OF this] assms show ?thesis by (auto simp: encode_rune_def)
qed

lemma unquote_step_replacement:
  "unquote_step (char_of (92 :: nat) # ''ufffd'' @ t) = Some (encode_rune replacement, 6)"
  by (rule unquote_step_u) (simp_all add: getu4_def hex_value_digits replacement_def)

lemma unquote_json_char:
  assumes "ccode c < 128"
  shows "unquote_step (json_char c @ t) = Some ([c], length (json_char c))"
proof -
  let ?n = "ccode c"
  have c: "c = char_of ?n" by simp
  consider "?n = 34 \<or> ?n = 92" | "?n \<in> {8, 12, 10, 13, 9}" | "?n < 32 \<or> ?n = 38 \<or> ?n = 60 \<or> ?n = 62" "?n \<notin> {8, 12, 10, 13, 9}"
    | "\<not> ?n < 32" "?n \<notin> {34, 92, 38, 60, 62}" by blast
  then show ?thesis
  proof cases
    case 1
    then show ?thesis by (auto simp: json_char_def unquote_step_def unescape_def)
  next
    case 2
    then show ?thesis by (auto simp: json_char_def unquote_step_def unescape_def char_of_eq_iff)
  next
    case 3
    then have "json_char c = char_of (92 :: nat) # ''u00'' @ [lower_hex (?n div 16), lower_hex (?n mod 16)]"
      by (auto simp: json_char_def Let_def)
    with unquote_step_u00 [of ?n t] 3 show ?thesis by auto
  next
    case 4
    then have "json_char c = [c]" by (auto simp: json_char_def Let_def)
    with 4 assms show ?thesis by (simp add: unquote_step_def)
  qed
qed


lemma code_char: "ccode c = n \<Longrightarrow> c = char_of n"
  by auto

lemma separator_code:
  assumes "line_separator (take k s)" and "utf8_len s = Some k"
  shows "k = 3 \<and> ccode (s ! 2) mod 16 \<in> {8, 9} \<and> take k s = [char_of (0xE2 :: nat), char_of (0x80 :: nat), char_of (0xA0 + ccode (s ! 2) mod 16)]"
proof -
  let ?m = "map ccode (take k s)"
  have m: "?m = [0xE2, 0x80, 0xA8] \<or> ?m = [0xE2, 0x80, 0xA9]" using assms(1) by (simp add: line_separator_def)
  have "length ?m = 3" using m by (elim disjE) (drule arg_cong [of _ _ length], simp)+
  then have k: "k = 3" using utf8_len_pos [OF assms(2)] by simp
  have "?m ! 2 = ccode (s ! 2)" using utf8_len_pos [OF assms(2)] k by simp
  then have c: "ccode (s ! 2) = 0xA8 \<or> ccode (s ! 2) = 0xA9" using m by auto
  have "take k s = map char_of ?m" by (simp add: o_def)
  with m c have "take k s = [char_of (0xE2 :: nat), char_of (0x80 :: nat), char_of (0xA0 + ccode (s ! 2) mod 16)]"
    using \<open>?m ! 2 = ccode (s ! 2)\<close> by (auto dest!: code_char)
  with k c show ?thesis by auto
qed

text \<open>One step of the encoder, read back in one step of \<open>unquote\<close>.\<close>

lemma unquote_json_step:
  assumes "s \<noteq> []"
  shows "unquote_step (fst (json_step s) @ t) = Some (fst (coerce_step s), length (fst (json_step s)))"
proof (cases "ccode (hd s) < 128")
  case True
  then show ?thesis by (simp add: json_step_def coerce_step_def unquote_json_char)
next
  case high: False
  show ?thesis
  proof (cases "utf8_len s")
    case None
    with high unquote_step_replacement [of t] show ?thesis by (simp add: json_step_def coerce_step_def)
  next
    case (Some k)
    show ?thesis
    proof (cases "line_separator (take k s)")
      case True
      have d: "ccode (s ! 2) mod 16 \<in> {8, 9}" and
        tk: "take k s = [char_of (0xE2 :: nat), char_of (0x80 :: nat), char_of (0xA0 + ccode (s ! 2) mod 16)]"
        using separator_code [OF True Some] by blast+
      have "unquote_step (char_of (92 :: nat) # ''u202'' @ [lower_hex (ccode (s ! 2) mod 16)] @ t) = Some (take k s, 6)"
        unfolding tk by (rule unquote_step_separator [OF d])
      with high Some True show ?thesis by (simp add: json_step_def coerce_step_def)
    next
      case False
      have k: "2 \<le> k" "k \<le> length s" using utf8_len_pos [OF Some] by simp_all
      have "hd (take k s @ t) = hd s" using assms k by (cases s; cases k) simp_all
      then have "unquote_step (take k s @ t) = Some (take k s, k)"
        using high utf8_len_append [OF Some, of t] k by (simp add: unquote_step_def)
      with high Some False k show ?thesis by (simp add: json_step_def coerce_step_def min_absorb2)
    qed
  qed
qed

lemma json_step_nonempty: "fst (json_step s) \<noteq> []" if "s \<noteq> []"
  using unquote_json_step [OF that, of "[]"] unquote_step_pos by fastforce

lemma unquote_json_text: "unquote (json_text s) = Some (coerce_utf8 s)"
proof (induction s rule: json_text.induct)
  case (1 s)
  show ?case
  proof (cases "s = []")
    case False
    let ?k = "snd (json_step s)" and ?j = "fst (json_step s)"
    have "json_text s = ?j @ json_text (drop ?k s)" using False json_text.simps [of s] by simp
    moreover have "unquote (?j @ json_text (drop ?k s)) = map_option (append (fst (coerce_step s))) (unquote (json_text (drop ?k s)))"
      using unquote.simps [of "?j @ json_text (drop ?k s)"] json_step_nonempty [OF False] unquote_json_step [OF False] by simp
    moreover have "coerce_utf8 s = fst (coerce_step s) @ coerce_utf8 (drop ?k s)"
      using False coerce_utf8.simps [of s] by (simp add: coerce_step_snd)
    ultimately show ?thesis using 1 [OF False] by simp
  qed (simp add: json_text.simps unquote.simps coerce_utf8.simps)
qed

text \<open>The scanner reads an encoded string to its end.\<close>

lemma scan_plain:
  assumes "list_all (\<lambda>c. 32 \<le> ccode c \<and> ccode c \<noteq> 34 \<and> ccode c \<noteq> 92) p"
  shows "scan (InString raw) stk (p @ t) = scan (InString (raw @ p)) stk t"
  using assms by (induction p arbitrary: raw) simp_all

lemma scan_u:
  assumes "hex_value p = Some a" "hex_value q = Some b" "hex_value r = Some c" "hex_value x = Some d"
  shows "scan (InString raw) stk (char_of (92 :: nat) # CHR ''u'' # p # q # r # x # t) =
    scan (InString (raw @ [char_of (92 :: nat), CHR ''u'', p, q, r, x])) stk t"
  using assms by simp

lemma scan_json_char:
  assumes "ccode c < 128"
  shows "scan (InString raw) stk (json_char c @ t) = scan (InString (raw @ json_char c)) stk t"
proof -
  let ?n = "ccode c"
  consider "?n = 34 \<or> ?n = 92 \<or> ?n \<in> {8, 12, 10, 13, 9}" | "?n < 32 \<or> ?n = 38 \<or> ?n = 60 \<or> ?n = 62" "?n \<notin> {8, 12, 10, 13, 9}"
    | "\<not> ?n < 32" "?n \<notin> {34, 92, 38, 60, 62}" by blast
  then show ?thesis
  proof cases
    case 1
    then show ?thesis by (auto simp: json_char_def)
  next
    case 2
    then have "json_char c = char_of (92 :: nat) # ''u00'' @ [lower_hex (?n div 16), lower_hex (?n mod 16)]"
      by (auto simp: json_char_def Let_def)
    moreover have "?n div 16 < 16" "?n mod 16 < 16" using assms by auto
    ultimately show ?thesis using scan_u [OF hex_value_digits(1) hex_value_digits(1) hex_value_lower hex_value_lower] by simp
  next
    case 3
    then have "json_char c = [c]" by (auto simp: json_char_def Let_def)
    with 3 show ?thesis by simp
  qed
qed

lemma scan_json_step:
  assumes "s \<noteq> []"
  shows "scan (InString raw) stk (fst (json_step s) @ t) = scan (InString (raw @ fst (json_step s))) stk t"
proof (cases "ccode (hd s) < 128")
  case True
  then show ?thesis by (simp add: json_step_def scan_json_char)
next
  case high: False
  show ?thesis
  proof (cases "utf8_len s")
    case None
    with high show ?thesis by (simp add: json_step_def hex_value_digits)
  next
    case (Some k)
    show ?thesis
    proof (cases "line_separator (take k s)")
      case True
      have "ccode (s ! 2) mod 16 < 16" by simp
      from hex_value_lower [OF this] high Some True show ?thesis by (simp add: json_step_def hex_value_digits)
    next
      case False
      have "list_all (\<lambda>c. 32 \<le> ccode c \<and> ccode c \<noteq> 34 \<and> ccode c \<noteq> 92) (take k s)"
        using utf8_len_high [OF Some] by (fastforce simp: list_all_iff)
      from scan_plain [OF this] high Some False show ?thesis by (simp add: json_step_def)
    qed
  qed
qed

lemma scan_json_text: "scan (InString raw) stk (json_text s @ t) = scan (InString (raw @ json_text s)) stk t"
proof (induction s arbitrary: raw rule: json_text.induct)
  case (1 s)
  show ?case
  proof (cases "s = []")
    case False
    then have "json_text s = fst (json_step s) @ json_text (drop (snd (json_step s)) s)" using json_text.simps [of s] by simp
    with 1 [OF False] scan_json_step [OF False] show ?thesis by simp
  qed (simp add: json_text.simps)
qed

text \<open>An encoded string is read as the string it encodes, coerced to UTF-8, wherever a value or a key may begin.\<close>

lemma scan_json_string:
  assumes "st = BeginValue \<or> st = BeginString \<or> st = BeginStringOrEmpty"
  shows "scan st stk (json_string s @ t) =
    (case finish (JString (coerce_utf8 s)) stk of More st' stk' \<Rightarrow> scan st' stk' t | Done v \<Rightarrow> Inr v | Fail e \<Rightarrow> Inl e)"
  using assms scan_json_text [of "[]" stk s "char_of (34 :: nat) # t"]
  by (auto simp: json_string_def begin_value_def begin_string_def is_space_def finish_string_def unquote_json_text)

end
