(* ===== verification/Response.thy ===== *)
theory Response
  imports Net_Http Json
begin

text \<open>
  The JSON response that redirects a client: \<^verbatim>\<open>src/response/response.go\<close>, with what it uses of \<^verbatim>\<open>encoding/base64\<close>
  (URL encoding with padding) and how \<^verbatim>\<open>encoding/json\<close> stores a decoded value into the struct.
\<close>

section \<open>Responses\<close>

definition xssiHeader :: string where
  "xssiHeader = '')]}'' @ [char_of (39 :: nat)]"

definition XSSI :: string where
  "XSSI = xssiHeader @ [char_of (10 :: nat)]"

record Response =
  rp_Endpoint :: string
  rp_Error :: string

definition FromEndpoint :: "string \<Rightarrow> Response" where
  "FromEndpoint endpoint = \<lparr>rp_Endpoint = endpoint, rp_Error = []\<rparr>"

definition FromError :: "string \<Rightarrow> Response" where
  "FromError msg = \<lparr>rp_Endpoint = [], rp_Error = msg\<rparr>"

text \<open>\<^verbatim>\<open>Marshal\<close>: the field \<^verbatim>\<open>error\<close> is left out when it is empty. \<^verbatim>\<open>json.Marshal\<close> does not fail on a struct of strings.\<close>

definition Response_Marshal :: "Response \<Rightarrow> go_error + string" where
  "Response_Marshal r = Inr (CHR ''{'' # json_string ''endpoint'' @ '':'' @ json_string (rp_Endpoint r) @
     (if rp_Error r = [] then [] else '','' @ json_string ''error'' @ '':'' @ json_string (rp_Error r)) @ ''}'')"

definition MarshalXSSI :: "Response \<Rightarrow> go_error + string" where
  "MarshalXSSI r = (case Response_Marshal r of Inl e \<Rightarrow> Inl e | Inr b \<Rightarrow> Inr (XSSI @ b))"

text \<open>
  \<^verbatim>\<open>Decode\<close> into a response. A key names a field if it is equal to its tag up to the case of letters, other keys are ignored, and
  the last of several values counts. \<^verbatim>\<open>null\<close> changes nothing. A value of another type is skipped, and the first such error is reported
  at the end.
\<close>

definition Response_New :: Response where
  "Response_New = \<lparr>rp_Endpoint = [], rp_Error = []\<rparr>"

definition fold_ascii :: "string \<Rightarrow> string" where
  "fold_ascii s = map (\<lambda>c. if 65 \<le> ccode c \<and> ccode c \<le> 90 then char_of (ccode c + 32) else c) s"

fun json_kind :: "json \<Rightarrow> string" where
  "json_kind JNull = ''null''"
| "json_kind (JBool _) = ''bool''"
| "json_kind (JNumber _) = ''number''"
| "json_kind (JString _) = ''string''"
| "json_kind (JArray _) = ''array''"
| "json_kind (JObject _) = ''object''"

definition store_field :: "Response \<times> go_error option \<Rightarrow> string \<times> json \<Rightarrow> Response \<times> go_error option" where
  "store_field = (\<lambda>(r, err) (k, v).
     let f = fold_ascii k in
     if f \<noteq> ''endpoint'' \<and> f \<noteq> ''error'' then (r, err)
     else case v of
       JString s \<Rightarrow> (if f = ''endpoint'' then r\<lparr>rp_Endpoint := s\<rparr> else r\<lparr>rp_Error := s\<rparr>, err)
     | JNull \<Rightarrow> (r, err)
     | _ \<Rightarrow> (r, if err = None
          then Some (NewError (''json: cannot unmarshal '' @ json_kind v @ '' into Go struct field Response.'' @ f @ '' of type string''))
          else err))"

definition json_Decode :: "string \<Rightarrow> Response \<times> go_error option" where
  "json_Decode s =
     (case read_value s of
        Inl e \<Rightarrow> (Response_New, Some e)
      | Inr (JObject fs) \<Rightarrow> foldl store_field (Response_New, None) fs
      | Inr JNull \<Rightarrow> (Response_New, None)
      | Inr v \<Rightarrow> (Response_New, Some (NewError (''json: cannot unmarshal '' @ json_kind v @ '' into Go value of type response.Response''))))"

text \<open>
  \<^verbatim>\<open>FromReader\<close> on a body: \<^verbatim>\<open>ReadFull\<close> of the header's length, then the decoder on the rest. \<^verbatim>\<open>ReadFull\<close> fails with \<^verbatim>\<open>EOF\<close> on an empty
  body and with \<^verbatim>\<open>ErrUnexpectedEOF\<close> on one that is too short.
\<close>

definition FromReader :: "string \<Rightarrow> Response option \<times> go_error option" where
  "FromReader body =
     (case io_ReadFull (message (bytes_of_string body)) (length xssiHeader) of
        (Inl e, _) \<Rightarrow> (None, Some e)
      | (Inr b, rest) \<Rightarrow>
          if string_of_bytes b \<noteq> xssiHeader then (None, Some ErrNoXSSIHeader)
          else (case json_Decode (string_of_bytes (fst (buffer_ReadFrom rest))) of (r, err) \<Rightarrow> (Some r, err)))"

section \<open>Base64\<close>

definition b64_char :: "nat \<Rightarrow> char" where
  "b64_char d = (if d < 26 then char_of (65 + d) else if d < 52 then char_of (71 + d) else if d < 62 then char_of (d - 4)
     else if d = 62 then CHR ''-'' else CHR ''_'')"

fun b64_encode :: "string \<Rightarrow> string" where
  "b64_encode [] = []"
| "b64_encode [a] = (let n = of_char a * 16 in [b64_char (n div 64), b64_char (n mod 64)] @ ''=='')"
| "b64_encode [a, b] =
     (let n = (of_char a * 256 + of_char b) * 4 in [b64_char (n div 4096), b64_char (n div 64 mod 64), b64_char (n mod 64)] @ ''='')"
| "b64_encode (a # b # c # s) =
     (let n = of_char a * 65536 + of_char b * 256 + of_char c in
      [b64_char (n div 262144), b64_char (n div 4096 mod 64), b64_char (n div 64 mod 64), b64_char (n mod 64)] @ b64_encode s)"

definition Response_Encode :: "Response \<Rightarrow> go_error + string" where
  "Response_Encode r = (case Response_Marshal r of Inl e \<Rightarrow> Inl e | Inr b \<Rightarrow> Inr (b64_encode b))"

text \<open>A reference decoder.\<close>

definition b64_val :: "char \<Rightarrow> nat" where
  "b64_val c = (let n = of_char c in
     if 65 \<le> n \<and> n \<le> 90 then n - 65 else if 97 \<le> n \<and> n \<le> 122 then n - 71 else if 48 \<le> n \<and> n \<le> 57 then n + 4
     else if c = CHR ''-'' then 62 else 63)"

fun b64_decode :: "string \<Rightarrow> string" where
  "b64_decode (p # q # r # t # s) =
     (if r = CHR ''='' then [char_of (b64_val p * 4 + b64_val q div 16)]
      else if t = CHR ''='' then
        (let n = (b64_val p * 4096 + b64_val q * 64 + b64_val r) div 4 in [char_of (n div 256), char_of (n mod 256)])
      else
        (let n = b64_val p * 262144 + b64_val q * 4096 + b64_val r * 64 + b64_val t in
         char_of (n div 65536) # char_of (n div 256 mod 256) # char_of (n mod 256) # b64_decode s))"
| "b64_decode _ = []"

lemma b64_val_char [simp]: "d < 64 \<Longrightarrow> b64_val (b64_char d) = d"
  by (auto simp: b64_val_def b64_char_def Let_def)

lemma b64_char_safe: "d < 64 \<Longrightarrow> unreserved (b64_char d)"
  by (auto simp: b64_char_def unreserved_def is_digit_def)

lemma b64_char_ne [simp]: "d < 64 \<Longrightarrow> b64_char d \<noteq> CHR ''=''"
  using b64_char_safe [of d] by (auto simp: unreserved_def is_digit_def)

lemma base64_digits:
  fixes n :: nat
  shows "n div 262144 * 262144 + n div 4096 mod 64 * 4096 + n div 64 mod 64 * 64 + n mod 64 = n"
proof -
  have d: "n div 4096 = n div 64 div 64" "n div 262144 = n div 64 div 64 div 64" by (simp_all add: div_mult2_eq [symmetric])
  have "n = n div 64 * 64 + n mod 64" by simp
  moreover have "n div 64 = n div 64 div 64 * 64 + n div 64 mod 64" by (simp only: div_mult_mod_eq)
  moreover have "n div 64 div 64 = n div 64 div 64 div 64 * 64 + n div 64 div 64 mod 64" by (simp only: div_mult_mod_eq)
  ultimately show ?thesis unfolding d by linarith
qed

lemma base256_digits:
  fixes x y z :: nat
  assumes "x < 256" "y < 256" "z < 256"
  shows "(x * 65536 + y * 256 + z) div 65536 = x" "(x * 65536 + y * 256 + z) div 256 mod 256 = y" "(x * 65536 + y * 256 + z) mod 256 = z"
proof -
  have e: "x * 65536 + y * 256 + z = (x * 256 + y) * 256 + z" by simp
  have h: "(x * 65536 + y * 256 + z) div 256 = x * 256 + y" unfolding e using assms by simp
  show "(x * 65536 + y * 256 + z) div 256 mod 256 = y" unfolding h using assms by simp
  have "(x * 65536 + y * 256 + z) div 65536 = (x * 65536 + y * 256 + z) div 256 div 256" by (simp add: div_mult2_eq [symmetric])
  then show "(x * 65536 + y * 256 + z) div 65536 = x" unfolding h using assms by simp
  show "(x * 65536 + y * 256 + z) mod 256 = z" unfolding e using assms(3) by (metis mod_less mod_mult_self3)
qed

lemma char_le: "(of_char c :: nat) \<le> 255"
  using char_less [of c] by linarith

lemma base64_bounds:
  fixes x y z :: nat
  assumes "x \<le> 255" "y \<le> 255" "z \<le> 255"
  shows "x * 16 div 64 < 64" "(x * 256 + y) * 4 < 262144" "(x * 256 + y) * 4 div 4096 < 64" "(x * 65536 + y * 256 + z) div 262144 < 64"
  using assms by (simp_all add: div_less_iff_less_mult)

lemma char_of_mod: "k mod 256 = (of_char c :: nat) \<Longrightarrow> char_of k = c"
  by (metis char_of_char char_of_mod_256)

lemma b64_decode_full: "b64_decode (b64_encode (a # b # c # s)) = a # b # c # b64_decode (b64_encode s)"
proof -
  let ?n = "of_char a * 65536 + of_char b * 256 + of_char c :: nat"
  have "?n div 262144 < 64" by (rule base64_bounds(4) [OF char_le char_le char_le])
  then show ?thesis
    using base64_digits [of ?n] base256_digits [OF char_less [of a] char_less [of b] char_less [of c]]
    by (simp add: Let_def char_of_mod)
qed

lemma b64_decode_two: "b64_decode (b64_encode [a, b]) = [a, b]"
proof -
  let ?n = "(of_char a * 256 + of_char b) * 4 :: nat"
  have n: "?n < 262144" and l: "?n div 4096 < 64" by (rule base64_bounds(2,3) [OF char_le char_le char_le])+
  from n have "?n div 262144 = 0" by simp
  then have s: "?n div 4096 * 4096 + ?n div 64 mod 64 * 64 + ?n mod 64 = ?n" using base64_digits [of ?n] l by simp
  have "(of_char a * 256 + of_char b :: nat) div 256 = of_char a" "(of_char a * 256 + of_char b :: nat) mod 256 = of_char b"
    using char_less [of b] by simp_all
  with s l show ?thesis by (simp add: Let_def char_of_mod)
qed

lemma b64_decode_one: "b64_decode (b64_encode [a]) = [a]"
proof -
  let ?n = "of_char a * 16 :: nat"
  have "?n div 64 < 64" by (rule base64_bounds(1) [OF char_le char_le char_le])
  moreover have "?n div 64 * 4 + ?n mod 64 div 16 = of_char a"
    by presburger
  ultimately show ?thesis by (simp add: Let_def)
qed

lemma b64_decode_encode: "b64_decode (b64_encode s) = s"
proof (induction s rule: b64_encode.induct)
  case (4 a b c s)
  then show ?case by (simp only: b64_decode_full)
qed (simp_all only: b64_decode_one b64_decode_two, simp)

lemma b64_encode_safe: "x \<in> set (b64_encode s) \<Longrightarrow> unreserved x \<or> x = CHR ''=''"
proof (induction s rule: b64_encode.induct)
  case (2 a)
  have "of_char a * 16 div 64 < (64 :: nat)" by (rule base64_bounds(1) [OF char_le char_le char_le])
  with 2 show ?case by (auto simp: Let_def b64_char_safe)
next
  case (3 a b)
  have "(of_char a * 256 + of_char b) * 4 div 4096 < (64 :: nat)" by (rule base64_bounds(3) [OF char_le char_le char_le])
  with 3 show ?case by (auto simp: Let_def b64_char_safe)
next
  case (4 a b c s)
  have "(of_char a * 65536 + of_char b * 256 + of_char c) div 262144 < (64 :: nat)"
    by (rule base64_bounds(4) [OF char_le char_le char_le])
  with 4 show ?case by (auto simp: Let_def b64_char_safe)
qed simp

text \<open>
  The encoded form of a response is safe in a URI fragment (letters, digits, dash, underscore and padding only) and loses
  nothing: decoding it gives back the JSON text.
\<close>

lemma Response_Encode_safe:
  "\<exists>enc json. Response_Encode r = Inr enc \<and> Response_Marshal r = Inr json \<and> b64_decode enc = json \<and>
     list_all (\<lambda>c. unreserved c \<or> c = CHR ''='') enc"
  by (auto simp: Response_Encode_def Response_Marshal_def b64_decode_encode list_all_iff dest: b64_encode_safe)

lemma FromReader_eq:
  "FromReader body =
     (if length body < 4 then (None, Some (if body = [] then EOF else ErrUnexpectedEOF))
      else if take 4 body = xssiHeader then (let (r, err) = json_Decode (drop 4 body) in (Some r, err))
      else (None, Some ErrNoXSSIHeader))"
proof -
  have l: "length xssiHeader = 4" by (simp add: xssiHeader_def)
  have t: "string_of_bytes (take n (bytes_of_string body)) = take n body" "string_of_bytes (drop n (bytes_of_string body)) = drop n body" for n
    by (simp_all add: string_of_bytes_def bytes_of_string_def take_map drop_map o_def)
  have "bytes_of_string body = [] \<longleftrightarrow> body = []" by (simp add: bytes_of_string_def)
  then show ?thesis
    by (simp add: FromReader_def io_ReadFull_def message_def buffer_ReadFrom_def l t not_le Let_def)
qed

lemma FromReader_XSSI_body: "FromReader (XSSI @ b) = (let (r, err) = json_Decode (char_of (10 :: nat) # b) in (Some r, err))"
proof -
  have l: "length xssiHeader = 4" by (simp add: xssiHeader_def)
  show ?thesis by (simp add: FromReader_eq XSSI_def l)
qed

text \<open>A response as it arrives: its texts coerced to UTF-8.\<close>

definition coerce_response :: "Response \<Rightarrow> Response" where
  "coerce_response r = \<lparr>rp_Endpoint = coerce_utf8 (rp_Endpoint r), rp_Error = coerce_utf8 (rp_Error r)\<rparr>"

lemma coerce_tags: "coerce_utf8 ''endpoint'' = ''endpoint''" "coerce_utf8 ''error'' = ''error''" "coerce_utf8 [] = []"
  by (rule coerce_utf8_valid, rule ascii_valid, simp)+

lemma read_value_Marshal:
  "Response_Marshal r = Inr b \<Longrightarrow> read_value (char_of (10 :: nat) # b) =
     Inr (JObject ((''endpoint'', JString (coerce_utf8 (rp_Endpoint r))) #
       (if rp_Error r = [] then [] else [(''error'', JString (coerce_utf8 (rp_Error r)))])))"
  by (auto simp: Response_Marshal_def read_value_def begin_value_def is_space_def push_def maxNestingDepth_def scan_json_string end_value_def coerce_tags)

lemma json_Decode_Marshal: "Response_Marshal r = Inr b \<Longrightarrow> json_Decode (char_of (10 :: nat) # b) = (coerce_response r, None)"
  by (simp add: json_Decode_def read_value_Marshal store_field_def fold_ascii_def Response_New_def coerce_response_def coerce_tags)

text \<open>
  C37. What the Cookie Server writes, the helper reads: the body of a direct response is accepted and decodes, through the XSSI
  header, JSON, its escapes and the struct's tags, to the response that was encoded, with bytes that are not UTF-8 replaced; a
  response in UTF-8 arrives unchanged. A body without the XSSI header is refused.
\<close>

theorem FromReader_MarshalXSSI:
  "(\<exists>body. MarshalXSSI r = Inr body \<and> FromReader body = (Some (coerce_response r), None)) \<and>
   (if valid_utf8 (rp_Endpoint r) \<and> valid_utf8 (rp_Error r) then coerce_response r = r else True) \<and>
   (if take 4 other = xssiHeader then True else fst (FromReader other) = None \<and> snd (FromReader other) \<noteq> None)"
proof (intro conjI)
  show "\<exists>body. MarshalXSSI r = Inr body \<and> FromReader body = (Some (coerce_response r), None)"
    by (cases "Response_Marshal r") (simp_all add: MarshalXSSI_def FromReader_XSSI_body json_Decode_Marshal, simp add: Response_Marshal_def)
  show "if valid_utf8 (rp_Endpoint r) \<and> valid_utf8 (rp_Error r) then coerce_response r = r else True"
    by (simp add: coerce_response_def coerce_utf8_valid)
  show "if take 4 other = xssiHeader then True else fst (FromReader other) = None \<and> snd (FromReader other) \<noteq> None"
    by (simp add: FromReader_eq)
qed

end
