(* ===== verification/Cookie_Server.thy ===== *)
theory Cookie_Server
  imports Requests Http_Server Response
begin

text \<open>
  The Cookie Server: \<^verbatim>\<open>src/cookie-server/cmd/cookie-server.go\<close> (\<^verbatim>\<open>loadConfig\<close>), \<^verbatim>\<open>src/cookie-server/runner/\<close>,
  \<^verbatim>\<open>src/cookie-server/request/cookie/handler/handler.go\<close> and the example backend
  \<^verbatim>\<open>src/cookie-server/backend/example/example.go\<close>. The gRPC backend is the function \<open>ce_Authorize\<close> of the environment, which also holds
  how \<^verbatim>\<open>http.Redirect\<close> resolves a location against the request and renders its page, and how \<^verbatim>\<open>html/template\<close> quotes a string inside
  a script.
\<close>

section \<open>Configuration\<close>

record pb_Cookie =
  pc_Name :: string
  pc_Domain :: string
  pc_Path :: string
  pc_MaxAge :: "Duration option"

record GrpcOptions =
  go_Addr :: string
  go_Port :: string
  go_TlsConfig :: "TlsConfig option"

record cookie_Config =
  cc_ServerOptions :: "HttpServerOptions option"
  cc_OriginCookie :: "pb_Cookie option"
  cc_GrpcOptions :: "GrpcOptions option"

text \<open>\<^verbatim>\<open>loadConfig\<close> reads the name of the origin cookie through a pointer that may be nil.\<close>

definition cookie_loadConfig :: "tls_env \<Rightarrow> (string \<Rightarrow> go_error + cookie_Config) \<Rightarrow> string \<Rightarrow> (go_error + cookie_Config) go" where
  "cookie_loadConfig E prototext file =
     (case os_ReadFile E file of
        Inl e \<Rightarrow> Ret (Inl e)
      | Inr buf \<Rightarrow>
          (case prototext buf of
             Inl e \<Rightarrow> Ret (Inl e)
           | Inr cfg \<Rightarrow>
               (case cc_ServerOptions cfg of
                  None \<Rightarrow> Ret (Inl (NewError ''server_options must be set''))
                | Some so \<Rightarrow>
                    let cfg = (if so_Port so = [] then cfg\<lparr>cc_ServerOptions := Some (so\<lparr>so_Port := ''8022''\<rparr>)\<rparr> else cfg) in
                    (case cc_OriginCookie cfg of
                       None \<Rightarrow> Panic NilDereference
                     | Some c \<Rightarrow> if pc_Name c = [] then Ret (Inl (NewError ''origin_cookie.name must be set'')) else Ret (Inr cfg)))))"

definition cookie_runner_New :: "tls_env \<Rightarrow> cookie_Config \<Rightarrow> (go_error + server \<times> string list) go" where
  "cookie_runner_New E cfg =
     (case cc_ServerOptions cfg of
        None \<Rightarrow> Panic NilDereference
      | Some so \<Rightarrow> Ret (case NewServer E so of Inl e \<Rightarrow> Inl e | Inr s \<Rightarrow> Inr (s, [''/cookie''])))"

text \<open>
  \<^verbatim>\<open>Run\<close> up to serving: the address of the backend and the credentials to reach it; \<open>grpc_NewClient\<close> is the library's
  constructor.
\<close>

definition cookie_runner_Run :: "tls_env \<Rightarrow> (string \<Rightarrow> TransportCredentials \<Rightarrow> go_error option) \<Rightarrow> cookie_Config \<Rightarrow> server \<Rightarrow> (go_error + listener) go" where
  "cookie_runner_Run E grpc_NewClient cfg sv =
     (let g = cc_GrpcOptions cfg;
          addr = JoinHostPort (case g of None \<Rightarrow> [] | Some o' \<Rightarrow> go_Addr o') (case g of None \<Rightarrow> [] | Some o' \<Rightarrow> go_Port o') in
      go_bind (TransportCreds E (case g of None \<Rightarrow> None | Some o' \<Rightarrow> go_TlsConfig o')) (\<lambda>r.
        case r of
          Inl e \<Rightarrow> Ret (Inl e)
        | Inr creds \<Rightarrow>
            (case grpc_NewClient addr creds of
               Some e \<Rightarrow> Ret (Inl (Wrap (''grpc.NewClient('' @ addr @ '') error: '') e []))
             | None \<Rightarrow> go_bind (Server_Run sv) (\<lambda>l. Ret (Inr l)))))"

section \<open>The handler of /cookie\<close>

datatype redirect = NextUri string | Endpoint string

record AuthorizeResponse =
  ar_Redirect :: "redirect option"
  ar_Status :: "go_error option"
  ar_Method :: RedirectionMethod

record cookie_env =
  ce_Authorize :: "cookie_request \<Rightarrow> go_error + AuthorizeResponse"
  ce_Location :: "http_request \<Rightarrow> string \<Rightarrow> string"
  ce_RedirectPage :: "string \<Rightarrow> string"
  ce_js :: "string \<Rightarrow> string"

record cookie_handler =
  ch_cfg :: cookie_Config
  ch_cookie :: pb_Cookie
  ch_req :: cookie_request
  ch_maxAge :: Duration
  ch_r :: http_request

definition extPrefix :: string where "extPrefix = ''chrome-extension://''"

definition newline :: string where "newline = [char_of (10 :: nat)]"

definition tab :: string where "tab = [char_of (9 :: nat)]"

definition redirectTmpl :: "string \<Rightarrow> string" where
  "redirectTmpl x = ''<!DOCTYPE html>'' @ newline @ ''<html>'' @ newline @ tab @ ''<head>'' @ newline @
     tab @ tab @ ''<meta charset='' @ [char_of (34 :: nat)] @ ''UTF-8'' @ [char_of (34 :: nat)] @ '' />'' @ newline @
     tab @ tab @ ''<script>window.location.href = '' @ x @ '';</script>'' @ newline @ tab @ ''</head>'' @ newline @
     tab @ ''<body></body>'' @ newline @ ''</html>''"

definition cookie_handler_New :: "cookie_Config \<Rightarrow> cookie_request \<Rightarrow> http_request \<Rightarrow> (go_error + cookie_handler) go" where
  "cookie_handler_New cfg req r =
     (case cc_OriginCookie cfg of
        None \<Rightarrow> Panic NilDereference
      | Some c \<Rightarrow>
          (case FromProto 0 (pc_MaxAge c) of
             (_, Some e) \<Rightarrow> Ret (Inl e)
           | (d, None) \<Rightarrow> Ret (Inr \<lparr>ch_cfg = cfg, ch_cookie = c, ch_req = req, ch_maxAge = d, ch_r = r\<rparr>)))"

definition handler_cookie :: "cookie_handler \<Rightarrow> pb_Cookie \<Rightarrow> string \<Rightarrow> http_cookie" where
  "handler_cookie h c val =
     \<lparr>ck_Name = pc_Name c, ck_Value = val, ck_Quoted = False, ck_Path = pc_Path c, ck_Domain = pc_Domain c,
      ck_MaxAge = whole_seconds (ch_maxAge h), ck_Secure = True, ck_HttpOnly = True, ck_SameSite = SameSiteNoneMode, ck_Partitioned = False\<rparr>"

definition setCookies :: "cookie_handler \<Rightarrow> rw \<Rightarrow> rw" where
  "setCookies h w = SetCookie (handler_cookie h (ch_cookie h) (extPrefix @ cr_Ext (ch_req h))) w"

definition writeResponse :: "cookie_env \<Rightarrow> cookie_handler \<Rightarrow> Response \<Rightarrow> rw \<Rightarrow> rw \<times> go_error option" where
  "writeResponse E h r w =
     (case Response_Encode r of
        Inl e \<Rightarrow> (w, Some e)
      | Inr enc \<Rightarrow>
          let uri = extPrefix @ cr_Ext (ch_req h) @ ''/'' @ cr_Path (ch_req h) @ ''#'' @ enc in
          (rw_Write (redirectTmpl (ce_js E uri)) w, None))"

definition handler_err :: "cookie_env \<Rightarrow> cookie_handler \<Rightarrow> string \<Rightarrow> nat \<Rightarrow> rw \<Rightarrow> rw" where
  "handler_err E h msg code w =
     (if cr_Version (ch_req h) = 2 then
        (case writeResponse E h (FromError msg) w of
           (w', None) \<Rightarrow> w'
         | (w', Some e) \<Rightarrow> http_Error msg code w')
      else http_Error msg code w)"

text \<open>\<^verbatim>\<open>http.Redirect\<close> for a GET request, with status 303.\<close>

definition http_Redirect :: "cookie_env \<Rightarrow> http_request \<Rightarrow> string \<Rightarrow> rw \<Rightarrow> rw" where
  "http_Redirect E r url w =
     rw_Write (ce_RedirectPage E url) (WriteHeader 303 (Header_Set ''Content-Type'' ''text/html; charset=utf-8''
       (Header_Set ''Location'' (ce_Location E r url) w)))"

definition redirectHTTP :: "cookie_env \<Rightarrow> cookie_handler \<Rightarrow> string \<Rightarrow> rw \<Rightarrow> rw \<times> go_error option" where
  "redirectHTTP E h uri w = (http_Redirect E (ch_r h) uri (setCookies h w), None)"

definition redirectJS :: "cookie_env \<Rightarrow> cookie_handler \<Rightarrow> Response \<Rightarrow> rw \<Rightarrow> rw \<times> go_error option" where
  "redirectJS E h r w = writeResponse E h r (setCookies h w)"

definition redirectXSSI :: "cookie_env \<Rightarrow> cookie_handler \<Rightarrow> Response \<Rightarrow> rw \<Rightarrow> rw \<times> go_error option" where
  "redirectXSSI E h r w =
     (case MarshalXSSI r of
        Inl e \<Rightarrow> (handler_err E h ''Internal Server Error'' 500 w, Some e)
      | Inr b \<Rightarrow> (rw_Write b (Header_Set ''Content-Type'' ''application/json'' (setCookies h w)), None))"

definition redirectURI :: "cookie_env \<Rightarrow> cookie_handler \<Rightarrow> string \<Rightarrow> RedirectionMethod \<Rightarrow> rw \<Rightarrow> rw \<times> go_error option" where
  "redirectURI E h uri method w =
     (case method of
        HTTP_REDIRECT \<Rightarrow> redirectHTTP E h uri w
      | DIRECT \<Rightarrow> redirectXSSI E h (FromEndpoint uri) w
      | JS_REDIRECT \<Rightarrow> redirectJS E h (FromEndpoint uri) w
      | _ \<Rightarrow> (w, Some ErrBadMethod))"

definition redirectEndpoint :: "cookie_env \<Rightarrow> cookie_handler \<Rightarrow> string \<Rightarrow> RedirectionMethod \<Rightarrow> rw \<Rightarrow> rw \<times> go_error option" where
  "redirectEndpoint E h endpoint method w =
     (case method of
        HTTP_REDIRECT \<Rightarrow>
          redirectHTTP E h (extPrefix @ cr_Ext (ch_req h) @ ''/'' @ cr_Path (ch_req h) @ ''#'' @ ''anonymous'' @ ''@'' @ endpoint) w
      | DIRECT \<Rightarrow> redirectXSSI E h (FromEndpoint endpoint) w
      | JS_REDIRECT \<Rightarrow> redirectJS E h (FromEndpoint endpoint) w
      | _ \<Rightarrow> (w, Some ErrBadMethod))"

definition cookie_Handle :: "cookie_env \<Rightarrow> cookie_handler \<Rightarrow> rw \<Rightarrow> rw \<times> go_error option" where
  "cookie_Handle E h w =
     (case ce_Authorize E (ch_req h) of
        Inl e \<Rightarrow> (w, Some (Wrap ''Authorize() error: '' e []))
      | Inr resp \<Rightarrow>
          (case ar_Status resp of
             Some e \<Rightarrow> (w, Some (Wrap ''Authorize() error: '' e []))
           | None \<Rightarrow>
               (case ar_Redirect resp of
                  Some (NextUri u) \<Rightarrow> redirectURI E h u (ar_Method resp) w
                | Some (Endpoint a) \<Rightarrow> redirectEndpoint E h a (ar_Method resp) w
                | None \<Rightarrow> (w, Some ErrNoRedirect))))"

definition handleCookie :: "cookie_env \<Rightarrow> cookie_Config \<Rightarrow> http_request \<Rightarrow> rw \<Rightarrow> rw go" where
  "handleCookie E cfg req w =
     (case cookie_New req of
        Inl e \<Rightarrow> Ret (http_Error (Error e) 400 w)
      | Inr cr \<Rightarrow>
          go_bind (cookie_handler_New cfg cr req) (\<lambda>h. case h of
            Inl e \<Rightarrow> Ret (http_Error (Error e) 400 w)
          | Inr h \<Rightarrow> Ret (fst (cookie_Handle E h w))))"

text \<open>A request as the server hands it to the handler that it has registered for the path.\<close>

definition cookie_serve :: "cookie_env \<Rightarrow> cookie_Config \<Rightarrow> server \<times> string list \<Rightarrow> string \<Rightarrow> http_request \<Rightarrow> rw go" where
  "cookie_serve E cfg sv path req =
     (if path \<in> set (snd sv) then HandleFunc (fst sv) (handleCookie E cfg) req rw_New
      else Ret (http_Error ''404 page not found'' 404 rw_New))"

text \<open>
  The example backend: its configuration, how it comes to listen (\<open>net_Listen\<close> is the library's), and \<^verbatim>\<open>Authorize\<close>, which authorises
  every request and echoes its method.
\<close>

record example_Config =
  ec_GrpcOptions :: "GrpcOptions option"
  ec_SshRelayAddr :: string

definition example_loadConfig :: "tls_env \<Rightarrow> (string \<Rightarrow> go_error + example_Config) \<Rightarrow> string \<Rightarrow> go_error + example_Config" where
  "example_loadConfig E prototext file =
     (case os_ReadFile E file of
        Inl e \<Rightarrow> Inl e
      | Inr buf \<Rightarrow>
          (case prototext buf of
             Inl e \<Rightarrow> Inl e
           | Inr cfg \<Rightarrow>
               if ec_GrpcOptions cfg = None then Inl (NewError ''grpc_options must be set'')
               else if ec_SshRelayAddr cfg = [] then Inl (NewError ''ssh_relay_addr must be set'')
               else Inr cfg))"

definition example_Run :: "tls_env \<Rightarrow> (string \<Rightarrow> go_error option) \<Rightarrow> example_Config \<Rightarrow> (go_error + string \<times> TransportCredentials) go" where
  "example_Run E net_Listen cfg =
     (let g = ec_GrpcOptions cfg;
          addr = JoinHostPort (case g of None \<Rightarrow> [] | Some o' \<Rightarrow> go_Addr o') (case g of None \<Rightarrow> [] | Some o' \<Rightarrow> go_Port o') in
      go_bind (TransportCreds E (case g of None \<Rightarrow> None | Some o' \<Rightarrow> go_TlsConfig o')) (\<lambda>r.
        case r of
          Inl e \<Rightarrow> Ret (Inl e)
        | Inr creds \<Rightarrow>
            (case net_Listen addr of
               Some e \<Rightarrow> Ret (Inl (Wrap (''net.Listen('' @ addr @ '') error: '') e []))
             | None \<Rightarrow> Ret (Inr (addr, creds)))))"

definition example_Authorize :: "example_Config \<Rightarrow> cookie_request \<Rightarrow> go_error + AuthorizeResponse" where
  "example_Authorize cfg req = Inr \<lparr>ar_Redirect = Some (Endpoint (ec_SshRelayAddr cfg)), ar_Status = None, ar_Method = cr_Method req\<rparr>"

section \<open>Correctness\<close>

lemma Response_Encode_ok: "\<exists>enc. Response_Encode r = Inr enc"
  by (simp add: Response_Encode_def Response_Marshal_def)

lemma MarshalXSSI_ok: "\<exists>b. MarshalXSSI r = Inr b"
  by (simp add: MarshalXSSI_def Response_Marshal_def)

definition rw_Cookies :: "rw \<Rightarrow> string list" where
  "rw_Cookies w = Header_Values (rw_Header w) ''Set-Cookie''"

lemma http_Error_no_cookies: "rw_Sent w = None \<Longrightarrow> rw_SetCookies (http_Error msg code w) = rw_Cookies w"
  unfolding rw_Cookies_def by (rule http_Error_fresh)

text \<open>
  The cookie that \<^verbatim>\<open>setCookies\<close> makes for an extension, and the line that it adds: none if the configured name is not a valid one, which the
  configuration is not checked for.
\<close>

definition origin_cookie :: "pb_Cookie \<Rightarrow> Duration \<Rightarrow> string \<Rightarrow> http_cookie" where
  "origin_cookie c age ext =
     \<lparr>ck_Name = pc_Name c, ck_Value = ''chrome-extension://'' @ ext, ck_Quoted = False, ck_Path = pc_Path c, ck_Domain = pc_Domain c,
      ck_MaxAge = whole_seconds age, ck_Secure = True, ck_HttpOnly = True, ck_SameSite = SameSiteNoneMode, ck_Partitioned = False\<rparr>"

definition origin_line :: "pb_Cookie \<Rightarrow> Duration \<Rightarrow> string \<Rightarrow> string list" where
  "origin_line c age ext = (if isToken (pc_Name c) then [Cookie_String (origin_cookie c age ext)] else [])"

lemma setCookies_line:
  "Header_Values (rw_Header (setCookies h w)) ''Set-Cookie'' = rw_Cookies w @ origin_line (ch_cookie h) (ch_maxAge h) (cr_Ext (ch_req h))"
  "rw_Sent (setCookies h w) = rw_Sent w"
proof -
  let ?c = "origin_cookie (ch_cookie h) (ch_maxAge h) (cr_Ext (ch_req h))"
  have "setCookies h w = SetCookie ?c w" by (simp add: setCookies_def handler_cookie_def origin_cookie_def extPrefix_def)
  moreover have "Cookie_String ?c = [] \<longleftrightarrow> \<not> isToken (pc_Name (ch_cookie h))" using Cookie_String_nonempty [of ?c] by (auto simp: origin_cookie_def)
  ultimately show "Header_Values (rw_Header (setCookies h w)) ''Set-Cookie'' = rw_Cookies w @ origin_line (ch_cookie h) (ch_maxAge h) (cr_Ext (ch_req h))"
    "rw_Sent (setCookies h w) = rw_Sent w"
    by (simp_all add: SetCookie_def Header_Add_def rw_Cookies_def Header_Values_Add origin_line_def)
qed

text \<open>What the three ways of redirecting have in common: they succeed, and what they send carries the origin cookie.\<close>

lemma redirect_sends_cookie:
  assumes "rw_Sent w = None"
    and "redirectHTTP E h u w = (w', err) \<or> redirectJS E h r w = (w', err) \<or> redirectXSSI E h r w = (w', err)"
  shows "err = None \<and> rw_SetCookies w' = rw_Cookies w @ origin_line (ch_cookie h) (ch_maxAge h) (cr_Ext (ch_req h))"
proof -
  obtain enc b where "Response_Encode r = Inr enc" "MarshalXSSI r = Inr b" using Response_Encode_ok MarshalXSSI_ok by blast
  with assms show ?thesis
    by (auto simp: redirectHTTP_def redirectJS_def redirectXSSI_def writeResponse_def http_Redirect_def rw_defs setCookies_line
        rw_SetCookies_def rw_HeaderSent_def Header_Values_Set Let_def)
qed

lemma redirect_method_cases:
  assumes "redirectURI E h u m w = (w', err) \<or> redirectEndpoint E h u m w = (w', err)" and "rw_Sent w = None"
  shows "(if m \<in> {HTTP_REDIRECT, DIRECT, JS_REDIRECT} then err = None \<and>
      rw_SetCookies w' = rw_Cookies w @ origin_line (ch_cookie h) (ch_maxAge h) (cr_Ext (ch_req h))
    else w' = w \<and> err = Some ErrBadMethod)"
  using assms redirect_sends_cookie [OF assms(2)]
  by (cases m) (fastforce simp: redirectURI_def redirectEndpoint_def)+

definition authorised :: "cookie_env \<Rightarrow> cookie_request \<Rightarrow> bool" where
  "authorised E cr =
     (case ce_Authorize E cr of
        Inl e \<Rightarrow> False
      | Inr resp \<Rightarrow> ar_Status resp = None \<and> ar_Redirect resp \<noteq> None \<and> ar_Method resp \<in> {HTTP_REDIRECT, DIRECT, JS_REDIRECT})"

lemma cookie_Handle_cookies:
  assumes "rw_Sent w = None" and "cookie_Handle E h w = (w', err)"
  shows "if authorised E (ch_req h) then err = None \<and>
      rw_SetCookies w' = rw_Cookies w @ origin_line (ch_cookie h) (ch_maxAge h) (cr_Ext (ch_req h))
    else w' = w \<and> err \<noteq> None"
proof (cases "ce_Authorize E (ch_req h)")
  case (Inl e)
  with assms(2) show ?thesis by (auto simp: cookie_Handle_def authorised_def)
next
  case (Inr resp)
  show ?thesis
  proof (cases "ar_Status resp")
    case None
    show ?thesis
    proof (cases "ar_Redirect resp")
      case (Some x)
      then have "redirectURI E h (case x of NextUri u \<Rightarrow> u | Endpoint a \<Rightarrow> a) (ar_Method resp) w = (w', err) \<or>
          redirectEndpoint E h (case x of NextUri u \<Rightarrow> u | Endpoint a \<Rightarrow> a) (ar_Method resp) w = (w', err)"
        using assms(2) Inr None by (cases x) (simp_all add: cookie_Handle_def)
      from redirect_method_cases [OF this assms(1)] Inr None Some show ?thesis
        by (simp add: authorised_def split: if_splits)
    qed (use assms(2) Inr None in \<open>auto simp: cookie_Handle_def authorised_def\<close>)
  qed (use assms(2) Inr in \<open>auto simp: cookie_Handle_def authorised_def\<close>)
qed

lemma handleCookie_lines:
  assumes "rw_Sent w = None" and "rw_Cookies w = []" and "cc_OriginCookie cfg = Some c" and "FromProto 0 (pc_MaxAge c) = (age, None)"
    and "handleCookie E cfg req w = Ret w'"
  shows "case cookie_New req of
      Inl e \<Rightarrow> rw_SetCookies w' = [] \<and> rw_Status w' = 400
    | Inr cr \<Rightarrow> rw_SetCookies w' = (if authorised E cr then origin_line c age (cr_Ext cr) else [])"
proof (cases "cookie_New req")
  case (Inl e)
  with assms http_Error_fresh(1) [OF assms(1)] http_Error_no_cookies [OF assms(1)] show ?thesis by (auto simp: handleCookie_def)
next
  case (Inr cr)
  let ?h = "\<lparr>ch_cfg = cfg, ch_cookie = c, ch_req = cr, ch_maxAge = age, ch_r = req\<rparr>"
  have w': "w' = fst (cookie_Handle E ?h w)" using assms(3,4,5) Inr by (simp add: handleCookie_def cookie_handler_New_def)
  obtain err where h: "cookie_Handle E ?h w = (w', err)" using w' by (cases "cookie_Handle E ?h w") simp
  have "rw_SetCookies w = []" using assms(1,2) by (simp add: rw_SetCookies_def rw_HeaderSent_def rw_Cookies_def)
  with cookie_Handle_cookies [OF assms(1) h] Inr assms(2) show ?thesis by (simp split: if_splits)
qed

text \<open>What a client reads from the line, apart from the value.\<close>

definition origin_read :: "pb_Cookie \<Rightarrow> Duration \<Rightarrow> http_cookie" where
  "origin_read c age = apply_attrs (cookie_attrs (origin_cookie c age [])) (new_cookie (pc_Name c) [] False)"

lemma origin_cookie_attrs: "cookie_attrs (origin_cookie c age ext) = cookie_attrs (origin_cookie c age [])"
  by (simp add: cookie_attrs_def origin_cookie_def)

lemma origin_read_flags:
  "ck_Name (origin_read c age) = pc_Name c \<and> ck_Secure (origin_read c age) \<and> ck_HttpOnly (origin_read c age) \<and>
     ck_SameSite (origin_read c age) = SameSiteNoneMode"
proof -
  obtain as where as: "cookie_attrs (origin_cookie c age []) = as @ [''HttpOnly'', ''Secure'', ''SameSite=None'']"
    by (simp add: cookie_attrs_def origin_cookie_def)
  have "ck_Name (origin_read c age) = pc_Name c" unfolding origin_read_def using apply_attrs_keeps by (simp add: new_cookie_def)
  then show ?thesis unfolding origin_read_def as apply_attrs_append by (simp add: apply_attrs_def read_attr_flags)
qed

lemma origin_read_solid: "isToken (pc_Name c) \<Longrightarrow> solid ((origin_read c age)\<lparr>ck_Value := v, ck_Quoted := q\<rparr>)"
proof -
  assume t: "isToken (pc_Name c)"
  let ?n = "new_cookie (pc_Name c) [] False"
  obtain p where p: "(if pc_Path c \<noteq> [] then [''Path='' @ filter validCookiePathByte (pc_Path c)] else []) = p" by simp
  obtain d where d: "(if pc_Domain c \<noteq> [] \<and> validCookieDomain (pc_Domain c) then [''Domain='' @ drop_dot (pc_Domain c)] else []) = d" by simp
  have a: "cookie_attrs (origin_cookie c age []) = p @ d @ max_age_attr (whole_seconds age) @ [''HttpOnly'', ''Secure'', ''SameSite=None'']"
    by (simp add: cookie_attrs_def origin_cookie_def p [symmetric] d [symmetric])
  have "ck_Partitioned (apply_attrs p x) = ck_Partitioned x" "ck_Partitioned (apply_attrs d x) = ck_Partitioned x" for x
    using read_attr_values by (simp_all add: p [symmetric] d [symmetric] apply_attrs_def)
  moreover have "ck_Partitioned (apply_attrs (max_age_attr k) x) = ck_Partitioned x" for k x
    using read_attr_values(3) [of _ x] read_attr_values(3) [of "''0''" x] by (simp add: apply_attrs_def max_age_attr_def)
  ultimately have "\<not> ck_Partitioned (origin_read c age)"
    unfolding origin_read_def a apply_attrs_append by (simp add: apply_attrs_def read_attr_flags new_cookie_def)
  with t origin_read_flags [of c age] show ?thesis by (intro solid_same_site) simp_all
qed

lemma clean_origin: "clean (''chrome-extension://'' @ ext) = ''chrome-extension://'' @ clean ext"
proof -
  have "clean ''chrome-extension://'' = ''chrome-extension://''" by (rule clean_id) (simp add: validCookieValueByte_def)
  then show ?thesis by (simp only: clean_append)
qed

lemma read_origin_line:
  assumes "isToken (pc_Name c)"
  shows "Response_Cookies (origin_line c age ext) =
    [(origin_read c age)\<lparr>ck_Value := ''chrome-extension://'' @ clean ext, ck_Quoted := read_quoted (''chrome-extension://'' @ ext) False\<rparr>]"
proof -
  let ?v = "''chrome-extension://'' @ ext" and ?as = "cookie_attrs (origin_cookie c age [])"
  have f: "ck_Name (origin_cookie c age ext) = pc_Name c" "ck_Value (origin_cookie c age ext) = ?v" "ck_Quoted (origin_cookie c age ext) = False"
    by (simp_all add: origin_cookie_def)
  have "solid (origin_cookie c age ext)" by (rule solid_same_site) (simp_all add: origin_cookie_def assms)
  from ParseSetCookie_String [OF this] have p: "ParseSetCookie (Cookie_String (origin_cookie c age ext)) =
      Some (apply_attrs ?as (new_cookie (pc_Name c) (clean ?v) (read_quoted ?v False)))"
    by (simp only: f origin_cookie_attrs [of c age ext])
  have n: "new_cookie (pc_Name c) (clean ?v) (read_quoted ?v False) = (new_cookie (pc_Name c) [] False)\<lparr>ck_Value := clean ?v, ck_Quoted := read_quoted ?v False\<rparr>"
    by (simp add: new_cookie_def)
  have "List.map_filter ParseSetCookie (origin_line c age ext) = [the (ParseSetCookie (Cookie_String (origin_cookie c age ext)))]"
    unfolding origin_line_def List.map_filter_def using assms p by simp
  then have "List.map_filter ParseSetCookie (origin_line c age ext) = [(origin_read c age)\<lparr>ck_Value := clean ?v, ck_Quoted := read_quoted ?v False\<rparr>]"
    unfolding p n apply_attrs_value option.sel origin_read_def .
  then show ?thesis unfolding Response_Cookies_def clean_origin .
qed

text \<open>
  C27. The origin cookie is given out only for an authorised request: a response has a Set-Cookie line exactly when the request is well formed,
  the backend has authorised it with a redirection and a known method, and the configured name is a valid one; it is then one line, for the
  client's extension as origin, secure and hidden from scripts. A malformed request is answered with 400.
\<close>

theorem cookie_only_when_authorised:
  assumes "rw_Sent w = None" and "rw_Cookies w = []" and "cc_OriginCookie cfg = Some c" and "FromProto 0 (pc_MaxAge c) = (age, None)"
    and "handleCookie E cfg req w = Ret w'"
  shows "case cookie_New req of
      Inl e \<Rightarrow> rw_SetCookies w' = [] \<and> rw_Status w' = 400
    | Inr cr \<Rightarrow> rw_SetCookies w' =
        (if authorised E cr \<and> isToken (pc_Name c)
         then [Cookie_String \<lparr>ck_Name = pc_Name c, ck_Value = ''chrome-extension://'' @ cr_Ext cr, ck_Quoted = False, ck_Path = pc_Path c,
           ck_Domain = pc_Domain c, ck_MaxAge = whole_seconds age, ck_Secure = True, ck_HttpOnly = True, ck_SameSite = SameSiteNoneMode,
           ck_Partitioned = False\<rparr>] else [])"
  using handleCookie_lines [OF assms] by (simp add: origin_line_def origin_cookie_def split: sum.splits)

text \<open>
  C14. The extension that a client names, which can be any text, cannot inject anything into its cookie: whatever it is, a client reads from the response
  of an authorised request exactly one cookie, of the configured name; its value is the origin of that extension, without the bytes that a
  cookie cannot carry; and every other field, secure, hidden from scripts and for all sites, is the same for every extension.
\<close>

theorem extension_cannot_inject:
  assumes "rw_Sent w = None" and "rw_Cookies w = []" and "cc_OriginCookie cfg = Some c" and "FromProto 0 (pc_MaxAge c) = (age, None)"
    and "handleCookie E cfg req w = Ret w'" and "cookie_New req = Inr cr" and "authorised E cr" and "isToken (pc_Name c)"
  shows "(\<exists>q. Response_Cookies (rw_SetCookies w') =
      [(origin_read c age)\<lparr>ck_Value := ''chrome-extension://'' @ clean (cr_Ext cr), ck_Quoted := q\<rparr>]) \<and>
    ck_Name (origin_read c age) = pc_Name c \<and> ck_Secure (origin_read c age) \<and> ck_HttpOnly (origin_read c age) \<and>
    ck_SameSite (origin_read c age) = SameSiteNoneMode"
proof -
  have "rw_SetCookies w' = origin_line c age (cr_Ext cr)" using handleCookie_lines [OF assms(1-5)] assms(6,7) by simp
  with read_origin_line [OF assms(8), of age "cr_Ext cr"] show ?thesis using origin_read_flags by metis
qed

text \<open>
  A refusal is not reported to the client: when the backend fails, denies the request, or names no redirection, the
  handler only logs the error and the client receives an empty response with status 200.
\<close>

lemma denied_request_gets_empty_200:
  assumes "rw_Sent w = None" and "cookie_New req = Inr cr" and "cookie_handler_New cfg cr req = Ret (Inr h)" and "\<not> authorised E cr"
    and "handleCookie E cfg req w = Ret w'"
  shows "w' = w \<and> rw_Status w' = 200"
proof -
  have r: "ch_req h = cr" using assms(3) by (auto simp: cookie_handler_New_def split: option.splits prod.splits)
  obtain err where h: "cookie_Handle E h w = (w', err)" using assms(2,3,5) by (cases "cookie_Handle E h w") (simp add: handleCookie_def)
  from cookie_Handle_cookies [OF assms(1) h] r assms(1,4) show ?thesis by (simp add: rw_Status_def)
qed

text \<open>
  Loading the Cookie Server's configuration panics, instead of reporting an error, when \<^verbatim>\<open>origin_cookie\<close> is left out; with the
  message present a loaded configuration has a server with a port and a named cookie, so handling a request never panics.
\<close>

lemma cookie_config_panics_without_cookie:
  assumes "os_ReadFile E file = Inr buf" and "prototext buf = Inr cfg" and "cc_ServerOptions cfg = Some so"
  shows "(cc_OriginCookie cfg = None \<longleftrightarrow> cookie_loadConfig E prototext file = Panic NilDereference) \<and>
    (case cookie_loadConfig E prototext file of
       Ret (Inr cfg') \<Rightarrow> returns (handleCookie CE cfg' req w) \<and> (\<exists>so'. cc_ServerOptions cfg' = Some so' \<and> so_Port so' \<noteq> [])
     | _ \<Rightarrow> True)"
proof -
  have ret: "cc_OriginCookie c' \<noteq> None \<Longrightarrow> returns (handleCookie CE c' req w)" for c'
    by (auto simp: handleCookie_def cookie_handler_New_def split: sum.splits option.splits prod.splits)
  show ?thesis
    using assms ret by (auto simp: cookie_loadConfig_def Let_def split: option.splits go.splits sum.splits if_splits)
qed

section \<open>Concrete requests\<close>

definition demo_cookie :: pb_Cookie where
  "demo_cookie = \<lparr>pc_Name = ''origin'', pc_Domain = ''example.org'', pc_Path = ''/'', pc_MaxAge = Some 60000000000\<rparr>"

definition demo_cookie_cfg :: cookie_Config where
  "demo_cookie_cfg = \<lparr>cc_ServerOptions = Some plain_options, cc_OriginCookie = Some demo_cookie, cc_GrpcOptions = None\<rparr>"

definition demo_cookie_env :: cookie_env where
  "demo_cookie_env = \<lparr>ce_Authorize = example_Authorize \<lparr>ec_GrpcOptions = None, ec_SshRelayAddr = ''relay:8022''\<rparr>, ce_Location = (\<lambda>_ u. u), ce_RedirectPage = (\<lambda>u. u), ce_js = (\<lambda>u. u)\<rparr>"

definition demo_cookie_request :: http_request where
  "demo_cookie_request = query_request [(''ext'', ''x''), (''path'', ''p.html'')]"

lemma demo_cookie_New: "cookie_New demo_cookie_request = Inr \<lparr>cr_Ext = ''x'', cr_Path = ''p.html'', cr_Version = 1, cr_Method = HTTP_REDIRECT\<rparr>"
  by (simp add: demo_cookie_request_def cookie_New_def cookie_version_def)

lemma demo_cookie_handle: "\<exists>w'. handleCookie CE demo_cookie_cfg demo_cookie_request rw_New = Ret w'"
  by (simp add: handleCookie_def demo_cookie_New cookie_handler_New_def demo_cookie_cfg_def demo_cookie_def FromProto_def)

lemma demo_authorised: "authorised demo_cookie_env \<lparr>cr_Ext = ''x'', cr_Path = ''p.html'', cr_Version = 1, cr_Method = HTTP_REDIRECT\<rparr>"
  by (simp add: authorised_def demo_cookie_env_def example_Authorize_def)

lemma demo_token: "isToken ''origin''"
  by code_simp

lemma demo_cookie_line:
  "Cookie_String \<lparr>ck_Name = ''origin'', ck_Value = ''chrome-extension://x'', ck_Quoted = False, ck_Path = ''/'', ck_Domain = ''example.org'',
     ck_MaxAge = 60, ck_Secure = True, ck_HttpOnly = True, ck_SameSite = SameSiteNoneMode, ck_Partitioned = False\<rparr> =
   ''origin=chrome-extension://x; Path=/; Domain=example.org; Max-Age=60; HttpOnly; Secure; SameSite=None''"
  by code_simp

theorem cookie_only_when_authorised_witness:
  "\<exists>w'. handleCookie demo_cookie_env demo_cookie_cfg demo_cookie_request rw_New = Ret w' \<and>
     rw_SetCookies w' = [''origin=chrome-extension://x; Path=/; Domain=example.org; Max-Age=60; HttpOnly; Secure; SameSite=None'']"
proof -
  obtain w' where w': "handleCookie demo_cookie_env demo_cookie_cfg demo_cookie_request rw_New = Ret w'" using demo_cookie_handle by blast
  have "rw_Sent rw_New = None" "rw_Cookies rw_New = []" "cc_OriginCookie demo_cookie_cfg = Some demo_cookie"
    "FromProto 0 (pc_MaxAge demo_cookie) = (60000000000, None)"
    by (simp_all add: rw_New_def rw_Cookies_def demo_cookie_cfg_def demo_cookie_def FromProto_def)
  from cookie_only_when_authorised [OF this w'] demo_authorised demo_token w' demo_cookie_line
  show ?thesis by (simp add: demo_cookie_New demo_cookie_def whole_seconds_def)
qed

text \<open>An extension that tries to add attributes.\<close>

definition evil_request :: http_request where
  "evil_request = query_request [(''ext'', ''x; Domain=evil''), (''path'', ''/'')]"

theorem extension_cannot_inject_witness:
  "\<exists>w' q. handleCookie demo_cookie_env demo_cookie_cfg evil_request rw_New = Ret w' \<and>
     Response_Cookies (rw_SetCookies w') = [(origin_read demo_cookie 60000000000)\<lparr>ck_Value := ''chrome-extension://x Domain=evil'', ck_Quoted := q\<rparr>]"
proof -
  let ?cr = "\<lparr>cr_Ext = ''x; Domain=evil'', cr_Path = ''/'', cr_Version = 1, cr_Method = HTTP_REDIRECT\<rparr>"
  have n: "cookie_New evil_request = Inr ?cr" by (simp add: evil_request_def cookie_New_def cookie_version_def)
  have a: "authorised demo_cookie_env ?cr" by (simp add: authorised_def demo_cookie_env_def example_Authorize_def)
  have r: "rw_Sent rw_New = None" "rw_Cookies rw_New = []" "cc_OriginCookie demo_cookie_cfg = Some demo_cookie"
    "FromProto 0 (pc_MaxAge demo_cookie) = (60000000000, None)" and t: "isToken (pc_Name demo_cookie)"
    using demo_token by (simp_all add: rw_New_def rw_Cookies_def demo_cookie_cfg_def demo_cookie_def FromProto_def)
  obtain w' where w': "handleCookie demo_cookie_env demo_cookie_cfg evil_request rw_New = Ret w'"
    using n r(3,4) by (simp add: handleCookie_def cookie_handler_New_def)
  have "clean (cr_Ext ?cr) = ''x Domain=evil''" by (simp add: clean_def validCookieValueByte_def)
  with extension_cannot_inject [OF r w' n a t] w' show ?thesis by auto
qed

end
