(* ===== verification/Helper.thy ===== *)
theory Helper
  imports Requests Http_Server Response Session_V4 Session_V1 Relay_Runner
begin

text \<open>
  The client helper: \<^verbatim>\<open>src/helper/session/\<close>, \<^verbatim>\<open>src/helper/session/cookie/cookie.go\<close>, \<^verbatim>\<open>src/helper/session/corprelay/corprelay.go\<close>,
  \<^verbatim>\<open>src/helper/session/corprelayv4/corprelayv4.go\<close>, \<^verbatim>\<open>src/helper/agent/agent.go\<close> and \<^verbatim>\<open>buildConfig\<close> of
  \<^verbatim>\<open>src/helper/cmd/ssh-relay-helper.go\<close>. URLs and cookies are texts, made and read as in the theories \<open>Url_Text\<close> and \<open>Net_Cookie\<close>. HTTP requests,
  WebSocket dials and the error with which a session's \<^verbatim>\<open>Run\<close> ends go through the fields of \<open>helper_env\<close>.
\<close>

section \<open>Addresses and options\<close>

definition ExtID :: string where "ExtID = ''sshRelayHelper''"

definition DefaultPort :: string where "DefaultPort = ''8022''"

definition AddDefaultPort :: "string \<Rightarrow> string \<Rightarrow> string" where
  "AddDefaultPort addr port =
     (let host = (if snd (url_split addr) = [] then JoinHostPort (fst (url_split addr)) port else addr) in
      JoinHostPort (fst (url_split host)) (snd (url_split host)))"

record Options =
  op_Relay :: string
  op_Host :: string
  op_Port :: string
  op_Origin :: string
  op_Cookies :: "http_cookie list"
  op_Transport :: "HttpTransport option"

definition GetTlsConfig :: "HttpTransport option \<Rightarrow> TlsConfig option" where
  "GetTlsConfig t = (case t of None \<Rightarrow> None | Some h \<Rightarrow> ht_TlsConfig h)"

text \<open>
  The reader and writer to \<^verbatim>\<open>ssh(1)\<close>, with what closing each of them answers. \<^verbatim>\<open>Wrapper.Close\<close> closes both; the reader's error is reported first.
\<close>

record Wrapper =
  wr_in :: io_reader
  wr_out :: io_writer
  wr_inClose :: "go_error option"
  wr_outClose :: "go_error option"

definition NewWrapper :: "io_reader \<times> go_error option \<Rightarrow> io_writer \<times> go_error option \<Rightarrow> Wrapper" where
  "NewWrapper i out = \<lparr>wr_in = fst i, wr_out = fst out, wr_inClose = snd i, wr_outClose = snd out\<rparr>"

definition Wrapper_Read :: "Wrapper \<Rightarrow> nat \<Rightarrow> bytes \<times> go_error option" where
  "Wrapper_Read w n = wr_in w n"

definition Wrapper_Write :: "Wrapper \<Rightarrow> bytes \<Rightarrow> bytes \<Rightarrow> bytes \<times> go_error option" where
  "Wrapper_Write w out b = io_Write (wr_out w) out b"

definition Wrapper_Close :: "Wrapper \<Rightarrow> go_error option" where
  "Wrapper_Close w = (let outErr = wr_outClose w in case wr_inClose w of Some e \<Rightarrow> Some e | None \<Rightarrow> outErr)"

section \<open>The Cookie Server's client\<close>

definition clientVersion :: nat where "clientVersion = 2"

definition redirMethod :: string where "redirMethod = ''direct''"

definition authURL :: "string \<Rightarrow> bool \<Rightarrow> string" where
  "authURL addr insecure = url_String
     \<lparr>u_Scheme = (if insecure then ''http'' else ''https''), u_Host = addr, u_Path = ''/cookie'',
      u_RawQuery = Values_Encode (Values_Set ''method'' redirMethod (Values_Set ''version'' (itoa clientVersion)
        (Values_Set ''path'' ''/'' (Values_Set ''ext'' ExtID []))))\<rparr>"

record http_response =
  rs_StatusCode :: nat
  rs_Status :: string
  rs_Header :: http_header
  rs_Body :: string

definition resp_Cookies :: "http_response \<Rightarrow> http_cookie list" where
  "resp_Cookies r = Response_Cookies (Header_Values (rs_Header r) ''Set-Cookie'')"

record helper_env =
  he_tls :: tls_env
  he_fresh :: uuid
  he_Do :: "http_client \<Rightarrow> string \<Rightarrow> http_header \<Rightarrow> go_error + http_response"
  he_Dial :: "string \<Rightarrow> http_header \<Rightarrow> tls_Config option \<Rightarrow> go_error option"
  he_Run :: "session \<Rightarrow> go_error option"

text \<open>\<^verbatim>\<open>Client.Get\<close> is \<^verbatim>\<open>http.NewRequest\<close> and \<^verbatim>\<open>Client.Do\<close>.\<close>

definition client_Get :: "helper_env \<Rightarrow> http_client \<Rightarrow> string \<Rightarrow> go_error + http_response" where
  "client_Get E c u = (case http_NewRequest u of Some e \<Rightarrow> Inl e | None \<Rightarrow> he_Do E c u [])"

fun client_insecure :: "http_client \<Rightarrow> bool" where
  "client_insecure DefaultClient = False"
| "client_insecure (TransportClient _ _ t) = (t = None)"

definition Authenticate :: "helper_env \<Rightarrow> string \<Rightarrow> http_client \<Rightarrow> go_error + string \<times> http_cookie list" where
  "Authenticate E addr client =
     (let u = authURL addr (client_insecure client) in
      case client_Get E client u of
        Inl e \<Rightarrow> Inl e
      | Inr resp \<Rightarrow>
          (case FromReader (rs_Body resp) of
             (_, Some e) \<Rightarrow> Inl (Wrap ''response.FromReader() error: '' e [])
           | (r, None) \<Rightarrow> Inr (AddDefaultPort (case r of None \<Rightarrow> [] | Some x \<Rightarrow> rp_Endpoint x) DefaultPort, resp_Cookies resp)))"

section \<open>corp-relay-v4 client\<close>

definition transport_insecure :: "Options \<Rightarrow> bool" where
  "transport_insecure o' \<longleftrightarrow> GetTlsMode (GetTlsConfig (op_Transport o')) = TLS_MODE_DISABLED"

record v4_client =
  h4_opts :: Options
  h4_s :: session

text \<open>The session of a client draws no identifier.\<close>

definition v4_client_New :: "Options \<Rightarrow> v4_client" where
  "v4_client_New o' = \<lparr>h4_opts = o', h4_s = Sess_V4 (v4_New uuid_Nil Client)\<rparr>"

definition connectHeader :: "v4_client \<Rightarrow> http_header" where
  "connectHeader s = (''Origin'', op_Origin (h4_opts s)) # map (\<lambda>c. (''Cookie'', Cookie_String c)) (op_Cookies (h4_opts s))"

definition v4_connectURL :: "v4_client \<Rightarrow> string" where
  "v4_connectURL s =
     (let scheme = (if transport_insecure (h4_opts s) then ''ws'' else ''wss'') in url_String
       \<lparr>u_Scheme = scheme, u_Host = op_Relay (h4_opts s), u_Path = ''/v4/connect'',
        u_RawQuery = Values_Encode (Values_Set ''port'' (op_Port (h4_opts s)) (Values_Set ''host'' (op_Host (h4_opts s)) []))\<rparr>)"

definition v4_dial :: "helper_env \<Rightarrow> v4_client \<Rightarrow> string \<Rightarrow> go_error option" where
  "v4_dial E s u =
     (case tls_Config_of (he_tls E) (GetTlsConfig (op_Transport (h4_opts s))) of
        Inl e \<Rightarrow> Some (Wrap ''tls.Config() error: '' e [])
      | Inr t \<Rightarrow> (case he_Dial E u (connectHeader s) t of Some e \<Rightarrow> Some (Wrap (''Dial('' @ u @ '') error: '') e []) | None \<Rightarrow> None))"

definition v4_helper_Run :: "helper_env \<Rightarrow> v4_client \<Rightarrow> go_error option" where
  "v4_helper_Run E s =
     (let u = v4_connectURL s in
      case v4_dial E s u of Some e \<Rightarrow> Some (Wrap (''dial('' @ u @ '') error: '') e []) | None \<Rightarrow> he_Run E (h4_s s))"

section \<open>corp-relay client\<close>

record v1_client =
  h1_opts :: Options
  h1_s :: session
  h1_query :: url_values
  h1_insecure :: bool

definition v1_client_New :: "uuid \<Rightarrow> Options \<Rightarrow> v1_client" where
  "v1_client_New fresh o' = \<lparr>h1_opts = o', h1_s = Sess_V1 (v1_New fresh), h1_query = [], h1_insecure = transport_insecure o'\<rparr>"

definition v1_connectHeader :: "v1_client \<Rightarrow> http_header" where
  "v1_connectHeader s = (''Origin'', op_Origin (h1_opts s)) # map (\<lambda>c. (''Cookie'', Cookie_String c)) (op_Cookies (h1_opts s))"

definition v1_proxyURL :: "v1_client \<Rightarrow> string" where
  "v1_proxyURL s = url_String
     \<lparr>u_Scheme = (if h1_insecure s then ''http'' else ''https''), u_Host = op_Relay (h1_opts s), u_Path = ''/proxy'',
      u_RawQuery = Values_Encode (Values_Set ''port'' (op_Port (h1_opts s)) (Values_Set ''host'' (op_Host (h1_opts s)) []))\<rparr>"

text \<open>\<^verbatim>\<open>connectURL\<close> adds to the map of the session's query itself.\<close>

definition v1_connectURL :: "v1_client \<Rightarrow> v1_client \<times> string" where
  "v1_connectURL s =
     (let q = Values_Add ''try'' ''1'' (Values_Add ''pos'' ''0'' (Values_Add ''ack'' ''0'' (h1_query s)));
          scheme = (if h1_insecure s then ''ws'' else ''wss'') in
      (s\<lparr>h1_query := q\<rparr>,
       url_String \<lparr>u_Scheme = scheme, u_Host = op_Relay (h1_opts s), u_Path = ''/connect'', u_RawQuery = Values_Encode q\<rparr>))"

definition cookieReq :: "v1_client \<Rightarrow> string \<Rightarrow> go_error + http_header" where
  "cookieReq s u = (case http_NewRequest u of Some e \<Rightarrow> Inl e | None \<Rightarrow> Inr (foldl (\<lambda>h c. AddCookie c h) [] (op_Cookies (h1_opts s))))"

definition parseProxyResp :: "string \<Rightarrow> v1_client \<Rightarrow> v1_client \<times> go_error option" where
  "parseProxyResp body s =
     (let s = s\<lparr>h1_query := ParseQuery (''sid='' @ body)\<rparr> in
      if Values_Get ''sid'' (h1_query s) = [] then (s, Some ErrBadSessionID) else (s, None))"

definition v1_dial :: "helper_env \<Rightarrow> string \<Rightarrow> v1_client \<Rightarrow> (v1_client \<times> go_error option) go" where
  "v1_dial E proxyURL s =
     go_bind (NewClient (he_tls E) (op_Transport (h1_opts s))) (\<lambda>c. case c of
       Inl e \<Rightarrow> Ret (s, Some (Wrap ''rhttp.NewClient() error: '' e []))
     | Inr client \<Rightarrow>
         (case cookieReq s proxyURL of
            Inl e \<Rightarrow> Ret (s, Some (Wrap (''cookieReq('' @ proxyURL @ '') error: '') e []))
          | Inr header \<Rightarrow>
              (case he_Do E client proxyURL header of
                 Inl e \<Rightarrow> Ret (s, Some e)
               | Inr resp \<Rightarrow>
                   if rs_StatusCode resp \<noteq> 200 then Ret (s, Some (NewError (rs_Status resp)))
                   else case parseProxyResp (rs_Body resp) s of
                     (s, Some e) \<Rightarrow> Ret (s, Some (Wrap ''parseProxyResp() error: '' e []))
                   | (s, None) \<Rightarrow>
                       (case v1_connectURL s of (s, u) \<Rightarrow>
                         (case op_Transport (h1_opts s) of
                            None \<Rightarrow> Panic NilDereference
                          | Some t \<Rightarrow>
                              (case tls_Config_of (he_tls E) (ht_TlsConfig t) of
                                 Inl e \<Rightarrow> Ret (s, Some (Wrap ''tls.Config() error: '' e []))
                               | Inr cfg \<Rightarrow>
                                   Ret (s, case he_Dial E u (v1_connectHeader s) cfg of
                                          Some e \<Rightarrow> Some (Wrap (''Dial('' @ u @ '') error: '') e []) | None \<Rightarrow> None)))))))"

definition v1_helper_Run :: "helper_env \<Rightarrow> v1_client \<Rightarrow> (go_error option) go" where
  "v1_helper_Run E s =
     (let u = v1_proxyURL s in
      go_bind (v1_dial E u s) (\<lambda>(s, d). Ret (case d of Some e \<Rightarrow> Some (Wrap (''dial('' @ u @ '') error: '') e []) | None \<Rightarrow> he_Run E (h1_s s))))"

section \<open>Agent and configuration\<close>

record helper_Config =
  hc_Host :: string
  hc_Port :: string
  hc_CookieServerAddress :: string
  hc_CookieServerTransport :: "HttpTransport option"
  hc_SshRelayTransport :: "HttpTransport option"
  hc_ProtocolVersion :: pb_ProtocolVersion

definition HttpTransport_New :: HttpTransport where
  "HttpTransport_New = \<lparr>ht_TlsConfig = None, ht_ResponseHeaderTimeout = None, ht_MaxResponseHeaderBytes = 0\<rparr>"

text \<open>
  \<^verbatim>\<open>buildConfig\<close>: the file (if one is given) is decoded, then \<open>completeConfig\<close> checks and completes the message with the values of the
  three flags.
\<close>

definition completeConfig :: "string \<Rightarrow> string \<Rightarrow> string \<Rightarrow> helper_Config \<Rightarrow> go_error + helper_Config" where
  "completeConfig host port csAddr cfg =
     (let cfg = cfg\<lparr>hc_Host := host, hc_Port := port\<rparr> in
      if hc_Host cfg = [] then Inl (NewError ''host must be specified'')
      else if hc_Port cfg = [] then Inl (NewError ''port must be specified'')
      else
        let cfg = (if csAddr \<noteq> [] then cfg\<lparr>hc_CookieServerAddress := csAddr\<rparr> else cfg) in
        if hc_CookieServerAddress cfg = [] then Inl (NewError ''cookie_server_address must be specified'')
        else
          let cfg = cfg\<lparr>hc_CookieServerAddress := AddDefaultPort (hc_CookieServerAddress cfg) DefaultPort\<rparr>;
              cfg = (if hc_CookieServerTransport cfg = None then cfg\<lparr>hc_CookieServerTransport := Some HttpTransport_New\<rparr> else cfg);
              cfg = (if hc_SshRelayTransport cfg = None then cfg\<lparr>hc_SshRelayTransport := hc_CookieServerTransport cfg\<rparr> else cfg) in
          Inr cfg)"

definition helper_Config_New :: helper_Config where
  "helper_Config_New = \<lparr>hc_Host = [], hc_Port = [], hc_CookieServerAddress = [], hc_CookieServerTransport = None, hc_SshRelayTransport = None,
     hc_ProtocolVersion = PROTOCOL_VERSION_UNSPECIFIED\<rparr>"

definition buildConfig ::
  "tls_env \<Rightarrow> (string \<Rightarrow> go_error + helper_Config) \<Rightarrow> string \<Rightarrow> string \<Rightarrow> string \<Rightarrow> string \<Rightarrow> go_error + helper_Config" where
  "buildConfig T prototext host port csAddr s =
     (case (if s = [] then Inr helper_Config_New
            else case os_ReadFile T s of Inl e \<Rightarrow> Inl e | Inr buf \<Rightarrow> prototext buf) of
        Inl e \<Rightarrow> Inl e
      | Inr cfg \<Rightarrow> completeConfig host port csAddr cfg)"

definition agent_New :: "tls_env \<Rightarrow> helper_Config \<Rightarrow> (go_error + http_client) go" where
  "agent_New T cfg =
     go_bind (NewClient T (hc_CookieServerTransport cfg)) (\<lambda>r. Ret (case r of
         Inl e \<Rightarrow> Inl (Wrap ''rhttp.NewClient() error: '' e [])
       | Inr c \<Rightarrow> Inr c))"

definition agent_options :: "helper_Config \<Rightarrow> string \<Rightarrow> http_cookie list \<Rightarrow> Options" where
  "agent_options cfg relay cookies =
     \<lparr>op_Relay = relay, op_Host = hc_Host cfg, op_Port = hc_Port cfg, op_Origin = ''chrome-extension://'' @ ExtID, op_Cookies = cookies,
      op_Transport = hc_SshRelayTransport cfg\<rparr>"

definition agent_Run :: "helper_env \<Rightarrow> helper_Config \<Rightarrow> http_client \<Rightarrow> (go_error option) go" where
  "agent_Run E cfg client =
     (case Authenticate E (hc_CookieServerAddress cfg) client of
        Inl e \<Rightarrow> Ret (Some (Wrap (''cookie.Authenticate('' @ hc_CookieServerAddress cfg @ '') error: '') e []))
      | Inr (relay, cookies) \<Rightarrow>
          let opts = agent_options cfg relay cookies in
          go_bind
            (case hc_ProtocolVersion cfg of
               CORP_RELAY \<Rightarrow> v1_helper_Run E (v1_client_New (he_fresh E) opts)
             | CORP_RELAY_V4 \<Rightarrow> Ret (v4_helper_Run E (v4_client_New opts))
             | PROTOCOL_VERSION_UNSPECIFIED \<Rightarrow> Ret (v4_helper_Run E (v4_client_New opts))
             | _ \<Rightarrow> Ret (Some (NewError ''unsupported protocol version'')))
            (\<lambda>err. Ret (case err of Some e \<Rightarrow> if errors_Is e EOF then None else Some e | None \<Rightarrow> None)))"

section \<open>Correctness\<close>

lemma url_split_port: "list_all is_digit (snd (url_split addr))"
  by (auto simp: url_split_def split: option.splits prod.splits)

lemma AddDefaultPort_Join:
  assumes "CHR ''['' \<notin> set (fst (url_split addr))" "list_all is_digit port"
  shows "AddDefaultPort addr port =
    JoinHostPort (fst (url_split addr)) (if snd (url_split addr) = [] then port else snd (url_split addr))"
  using url_split_Join [OF assms] by (simp add: AddDefaultPort_def Let_def)

text \<open>
  An address that went through \<open>AddDefaultPort\<close> always has a port: it splits into the host of the given address and its
  port, or the default port when it had none, also for IPv6 hosts; adding a default port again changes nothing.
\<close>

lemma AddDefaultPort_complete:
  assumes "CHR ''['' \<notin> set (fst (url_split addr))" and "CHR '']'' \<notin> set (fst (url_split addr))"
    and "list_all is_digit port" and "port \<noteq> []"
  shows "SplitHostPort (AddDefaultPort addr port) =
      Inr (fst (url_split addr), if snd (url_split addr) = [] then port else snd (url_split addr)) \<and>
    AddDefaultPort (AddDefaultPort addr port) other = AddDefaultPort addr port"
proof -
  let ?p = "if snd (url_split addr) = [] then port else snd (url_split addr)"
  have p: "list_all is_digit ?p" "?p \<noteq> []" using assms(3,4) url_split_port [of addr] by auto
  have "url_split (JoinHostPort (fst (url_split addr)) ?p) = (fst (url_split addr), ?p)" by (rule url_split_Join [OF assms(1) p(1)])
  then have "AddDefaultPort (JoinHostPort (fst (url_split addr)) ?p) other = JoinHostPort (fst (url_split addr)) ?p"
    using p(2) by (simp add: AddDefaultPort_def Let_def)
  with SplitHostPort_Join [OF assms(1,2) p(1)] AddDefaultPort_Join [OF assms(1,3)] show ?thesis by simp
qed

text \<open>
  A configuration accepted by \<open>completeConfig\<close> is complete: host, port and Cookie Server address are set, and both transports are
  present, so the agent never dereferences a missing one, whatever the network does.
\<close>

lemma agent_never_panics:
  assumes "completeConfig host port csAddr cfg = Inr cfg'"
  shows "hc_Host cfg' = host \<and> host \<noteq> [] \<and> hc_Port cfg' = port \<and> port \<noteq> [] \<and> hc_CookieServerTransport cfg' \<noteq> None \<and>
    hc_SshRelayTransport cfg' \<noteq> None \<and> returns (agent_New T cfg') \<and> returns (agent_Run E cfg' client)"
proof -
  have t: "returns (NewClient T t)" for T t
    by (rule NewClient_returns)
  have c: "hc_Host cfg' = host" "host \<noteq> []" "hc_Port cfg' = port" "port \<noteq> []" "hc_CookieServerTransport cfg' \<noteq> None" "hc_SshRelayTransport cfg' \<noteq> None"
    using assms by (auto simp: completeConfig_def Let_def split: if_splits)
  have v1: "returns (v1_helper_Run E s)" if tr: "op_Transport (h1_opts s) \<noteq> None" for s
  proof -
    obtain n where n: "NewClient (he_tls E) (op_Transport (h1_opts s)) = Ret n" using t by (auto simp: returns_iff)
    have k: "h1_opts (fst (parseProxyResp b s)) = h1_opts s" "h1_opts (fst (v1_connectURL s')) = h1_opts s'" for b s'
      by (simp_all add: parseProxyResp_def v1_connectURL_def Let_def)
    have "returns (v1_dial E u s)" for u
    proof (cases n)
      case (Inr client)
      show ?thesis
      proof (cases "cookieReq s u")
        case req: (Inr h)
        show ?thesis
        proof (cases "he_Do E client u h")
          case resp: (Inr resp)
          obtain s1 e1 where p: "parseProxyResp (rs_Body resp) s = (s1, e1)" by fastforce
          obtain s2 v where c: "v1_connectURL s1 = (s2, v)" by fastforce
          have "op_Transport (h1_opts s2) \<noteq> None" using k(1) [of "rs_Body resp"] k(2) [of s1] p c tr by simp
          with n Inr req resp p c show ?thesis by (auto simp: v1_dial_def split: option.splits sum.splits)
        qed (simp add: v1_dial_def n Inr req)
      qed (simp add: v1_dial_def n Inr)
    qed (simp add: v1_dial_def n)
    then obtain r where "v1_dial E (v1_proxyURL s) s = Ret r" by (metis returns_iff)
    then show ?thesis by (cases r) (simp add: v1_helper_Run_def Let_def)
  qed
  have "returns (agent_Run E cfg' client)"
  proof (cases "Authenticate E (hc_CookieServerAddress cfg') client")
    case (Inr a)
    then obtain relay cookies where a: "a = (relay, cookies)" by (cases a)
    have "returns (v1_helper_Run E (v1_client_New (he_fresh E) (agent_options cfg' relay cookies)))"
      by (rule v1) (simp add: v1_client_New_def agent_options_def c)
    with Inr a show ?thesis by (cases "hc_ProtocolVersion cfg'") (auto simp: agent_Run_def returns_iff)
  qed (simp add: agent_Run_def)
  moreover have "returns (agent_New T cfg')" using t [of T "hc_CookieServerTransport cfg'"] by (auto simp: agent_New_def returns_iff)
  ultimately show ?thesis using c by simp
qed

text \<open>
  The agent exits successfully when the connection to the relay could not even be opened, if the reason was \<^verbatim>\<open>io.EOF\<close> (the
  relay closed the connection during the handshake): the error of the dial wraps it, and the agent takes every error that
  wraps \<^verbatim>\<open>io.EOF\<close> for the normal end of a session.
\<close>

lemma failed_dial_is_success:
  assumes "Authenticate E (hc_CookieServerAddress cfg) client = Inr (relay, cookies)" and "hc_ProtocolVersion cfg = CORP_RELAY_V4"
    and "v4_dial E (v4_client_New (agent_options cfg relay cookies)) (v4_connectURL (v4_client_New (agent_options cfg relay cookies))) = Some e"
    and "errors_Is e EOF"
  shows "agent_Run E cfg client = Ret None"
  using assms by (simp add: agent_Run_def v4_helper_Run_def Let_def)

section \<open>The requests of the helper\<close>

lemma made_url_query:
  "web_scheme sch \<Longrightarrow> p \<noteq> [] \<Longrightarrow> hd p = CHR ''/'' \<Longrightarrow> list_all path_plain p \<Longrightarrow> vs \<noteq> [] \<Longrightarrow>
    made_url \<lparr>u_Scheme = sch, u_Host = h, u_Path = p, u_RawQuery = Values_Encode vs\<rparr>"
  using Values_Encode_query Values_Encode_nonempty by (simp add: made_url_def)

lemma Values_Set_nonempty [simp]: "Values_Set k v vs \<noteq> []" and Values_Add_nonempty [simp]: "Values_Add k v vs \<noteq> []"
  by (simp_all add: Values_Set_def Values_Add_def)

text \<open>The URLs as they are read at the other end.\<close>

definition auth_url :: "string \<Rightarrow> bool \<Rightarrow> url" where
  "auth_url addr insecure = \<lparr>u_Scheme = (if insecure then ''http'' else ''https''), u_Host = addr, u_Path = ''/cookie'',
     u_RawQuery = Values_Encode (Values_Set ''method'' redirMethod (Values_Set ''version'' (itoa clientVersion)
       (Values_Set ''path'' ''/'' (Values_Set ''ext'' ExtID []))))\<rparr>"

definition v4_connect_url :: "Options \<Rightarrow> url" where
  "v4_connect_url o' = \<lparr>u_Scheme = (if transport_insecure o' then ''ws'' else ''wss''), u_Host = op_Relay o', u_Path = ''/v4/connect'',
     u_RawQuery = Values_Encode (Values_Set ''port'' (op_Port o') (Values_Set ''host'' (op_Host o') []))\<rparr>"

definition v1_proxy_url :: "v1_client \<Rightarrow> url" where
  "v1_proxy_url s = \<lparr>u_Scheme = (if h1_insecure s then ''http'' else ''https''), u_Host = op_Relay (h1_opts s), u_Path = ''/proxy'',
     u_RawQuery = Values_Encode (Values_Set ''port'' (op_Port (h1_opts s)) (Values_Set ''host'' (op_Host (h1_opts s)) []))\<rparr>"

definition v1_connect_url :: "v1_client \<Rightarrow> url" where
  "v1_connect_url s = \<lparr>u_Scheme = (if h1_insecure s then ''ws'' else ''wss''), u_Host = op_Relay (h1_opts s), u_Path = ''/connect'',
     u_RawQuery = Values_Encode (Values_Add ''try'' ''1'' (Values_Add ''pos'' ''0'' (Values_Add ''ack'' ''0'' (h1_query s))))\<rparr>"

lemma request_urls:
  "authURL addr insecure = url_String (auth_url addr insecure)" "v4_connectURL c4 = url_String (v4_connect_url (h4_opts c4))"
  "v1_proxyURL c1 = url_String (v1_proxy_url c1)" "snd (v1_connectURL c1) = url_String (v1_connect_url c1)"
  by (simp_all add: authURL_def auth_url_def v4_connectURL_def v4_connect_url_def v1_proxyURL_def v1_proxy_url_def
      v1_connectURL_def v1_connect_url_def Let_def)

lemma request_urls_made: "made_url (auth_url addr insecure)" "made_url (v4_connect_url o')" "made_url (v1_proxy_url c1)" "made_url (v1_connect_url c1)"
  by (auto simp: auth_url_def v4_connect_url_def v1_proxy_url_def v1_connect_url_def web_scheme_def path_plain_def unreserved_def is_digit_def
      intro!: made_url_query)

text \<open>
  C15. Whatever text the Cookie Server gives as the address of the relay (and whatever address, host and port the user gives), the helper's URLs are read as
  what they are meant to be, or not at all: a text that parses names the given address as its host, one of the program's own paths, the scheme
  that TLS calls for, and exactly the host and port that were asked for.
\<close>

theorem helper_requests_exact:
  assumes "url_Parse (v4_connectURL s4) = Inr u4" and "url_Parse (v1_proxyURL s1) = Inr u1" and "url_Parse (authURL addr insecure) = Inr ua"
  shows "u_Scheme u4 = (if transport_insecure (h4_opts s4) then ''ws'' else ''wss'') \<and> u_Host u4 = op_Relay (h4_opts s4) \<and> u_Path u4 = ''/v4/connect'' \<and>
      ParseQuery (u_RawQuery u4) = [(''host'', op_Host (h4_opts s4)), (''port'', op_Port (h4_opts s4))] \<and>
    u_Scheme u1 = (if h1_insecure s1 then ''http'' else ''https'') \<and> u_Host u1 = op_Relay (h1_opts s1) \<and> u_Path u1 = ''/proxy'' \<and>
      ParseQuery (u_RawQuery u1) = [(''host'', op_Host (h1_opts s1)), (''port'', op_Port (h1_opts s1))] \<and>
    u_Scheme ua = (if insecure then ''http'' else ''https'') \<and> u_Host ua = addr \<and> u_Path ua = ''/cookie'' \<and>
      Values_Get ''ext'' (ParseQuery (u_RawQuery ua)) = ExtID"
proof -
  have "u4 = v4_connect_url (h4_opts s4)" "u1 = v1_proxy_url s1" "ua = auth_url addr insecure"
    using url_roundtrip [OF request_urls_made(2)] url_roundtrip [OF request_urls_made(3)] url_roundtrip [OF request_urls_made(1)] assms
    unfolding request_urls by blast+
  moreover have "ParseQuery (Values_Encode (Values_Set ''port'' p (Values_Set ''host'' h []))) = [(''host'', h), (''port'', p)]" for h p
    using ParseQuery_join [of "[(''host'', h), (''port'', p)]"] by (simp add: Values_Encode_def Values_Set_def)
  ultimately show ?thesis by (simp add: v4_connect_url_def v1_proxy_url_def auth_url_def)
qed

section \<open>A concrete helper\<close>

definition demo_helper_cfg :: helper_Config where
  "demo_helper_cfg = \<lparr>hc_Host = ''ssh'', hc_Port = ''22'', hc_CookieServerAddress = ''cookie:8022'', hc_CookieServerTransport = Some HttpTransport_New,
     hc_SshRelayTransport = Some HttpTransport_New, hc_ProtocolVersion = CORP_RELAY_V4\<rparr>"

definition demo_response :: http_response where
  "demo_response = \<lparr>rs_StatusCode = 200, rs_Status = ''200 OK'',
     rs_Header = [(''Set-Cookie'', ''origin=chrome-extension://sshRelayHelper; Path=/; Domain=example.org; Max-Age=60; HttpOnly; Secure; SameSite=None'')],
     rs_Body = XSSI @ projr (Response_Marshal (FromEndpoint ''relay:8022''))\<rparr>"

definition demo_helper_env :: helper_env where
  "demo_helper_env = \<lparr>he_tls = no_files, he_fresh = 6, he_Do = (\<lambda>_ _ _. Inr demo_response), he_Dial = (\<lambda>_ _ _. Some EOF), he_Run = (\<lambda>_. Some EOF)\<rparr>"

lemma demo_build: "buildConfig no_files (\<lambda>_. Inl ErrUnexpectedEOF) ''ssh'' ''22'' ''cookie'' [] = Inr (demo_helper_cfg\<lparr>hc_ProtocolVersion := PROTOCOL_VERSION_UNSPECIFIED\<rparr>)"
proof -
  have "AddDefaultPort ''cookie'' DefaultPort = ''cookie:8022''"
    using AddDefaultPort_Join [of "''cookie''" DefaultPort] by (simp add: url_split_def strip_brackets_def DefaultPort_def JoinHostPort_def is_digit_def)
  then show ?thesis by (simp add: buildConfig_def completeConfig_def helper_Config_New_def demo_helper_cfg_def)
qed

lemma demo_hosts: "simple_host ''relay:8022''" "simple_host ''cookie:8022''"
  unfolding simple_host_def
  by (intro disjI2 exI [of _ "''relay''"] exI [of _ "''8022''"], simp add: unreserved_def is_digit_def)
    (intro disjI2 exI [of _ "''cookie''"] exI [of _ "''8022''"], simp add: unreserved_def is_digit_def)

theorem helper_requests_exact_witness:
  "\<exists>u4 u1 ua. url_Parse (v4_connectURL (v4_client_New (agent_options demo_helper_cfg ''relay:8022'' []))) = Inr u4 \<and> u_Host u4 = ''relay:8022'' \<and>
     url_Parse (v1_proxyURL (v1_client_New 6 (agent_options demo_helper_cfg ''relay:8022'' []))) = Inr u1 \<and> u_Host u1 = ''relay:8022'' \<and>
     url_Parse (authURL ''cookie:8022'' False) = Inr ua \<and> Values_Get ''ext'' (ParseQuery (u_RawQuery ua)) = ExtID"
proof -
  let ?s4 = "v4_client_New (agent_options demo_helper_cfg ''relay:8022'' [])" and ?s1 = "v1_client_New 6 (agent_options demo_helper_cfg ''relay:8022'' [])"
  have h: "simple_host ''relay:8022''" "simple_host ''cookie:8022''" by (rule demo_hosts)+
  have o: "op_Relay (h4_opts ?s4) = ''relay:8022''" "op_Relay (h1_opts ?s1) = ''relay:8022''"
    by (simp_all add: v4_client_New_def v1_client_New_def agent_options_def)
  have "simple_host (u_Host (v4_connect_url (h4_opts ?s4)))" "simple_host (u_Host (v1_proxy_url ?s1))" "simple_host (u_Host (auth_url ''cookie:8022'' False))"
    using h o by (simp_all add: v4_connect_url_def v1_proxy_url_def auth_url_def)
  then have u: "url_Parse (v4_connectURL ?s4) = Inr (v4_connect_url (h4_opts ?s4))" "url_Parse (v1_proxyURL ?s1) = Inr (v1_proxy_url ?s1)"
    "url_Parse (authURL ''cookie:8022'' False) = Inr (auth_url ''cookie:8022'' False)"
    unfolding request_urls by (blast intro: url_read_simple [OF request_urls_made(2)] url_read_simple [OF request_urls_made(3)]
        url_read_simple [OF request_urls_made(1)])+
  from helper_requests_exact [OF this] u o show ?thesis by metis
qed

end
