(* ===== verification/Programs.thy ===== *)
theory Programs
  imports Relay_Runner Cookie_Server Helper
begin

text \<open>
  The four \<^verbatim>\<open>main\<close> functions: \<^verbatim>\<open>src/relay/cmd/ssh-relay.go\<close>, \<^verbatim>\<open>src/cookie-server/cmd/cookie-server.go\<close>,
  \<^verbatim>\<open>src/cookie-server/backend/example/example.go\<close> and \<^verbatim>\<open>src/helper/cmd/ssh-relay-helper.go\<close>, with the values of their flags as arguments. A
  server either leaves through \<^verbatim>\<open>glog.Exit\<close> with a message, or comes to serve; what happens when serving ends is not modelled. The
  helper leaves successfully (\<open>None\<close>) or with a message.
\<close>

datatype 'a outcome = Exit string | Serves 'a

definition relay_main :: "tls_env \<Rightarrow> (string \<Rightarrow> go_error + relay_Config) \<Rightarrow> string \<Rightarrow> (relay_runner \<times> listener) outcome go" where
  "relay_main T prototext cfgFile =
     (if cfgFile = [] then Ret (Exit ''--config must be set'')
      else case relay_loadConfig T prototext cfgFile of
        Inl e \<Rightarrow> Ret (Exit (Error e))
      | Inr cfg \<Rightarrow>
          go_bind (relay_New T cfg) (\<lambda>r. case r of
            Inl e \<Rightarrow> Ret (Exit (Error e))
          | Inr r \<Rightarrow> go_bind (relay_runner_Run r) (\<lambda>l. Ret (Serves (r, l)))))"

definition cookie_main ::
  "tls_env \<Rightarrow> (string \<Rightarrow> go_error + cookie_Config) \<Rightarrow> (string \<Rightarrow> TransportCredentials \<Rightarrow> go_error option) \<Rightarrow> string \<Rightarrow> (cookie_Config \<times> listener) outcome go" where
  "cookie_main T prototext grpc_NewClient cfgFile =
     (if cfgFile = [] then Ret (Exit ''--config must be set'')
      else go_bind (cookie_loadConfig T prototext cfgFile) (\<lambda>c. case c of
        Inl e \<Rightarrow> Ret (Exit (Error e))
      | Inr cfg \<Rightarrow>
          go_bind (cookie_runner_New T cfg) (\<lambda>r. case r of
            Inl e \<Rightarrow> Ret (Exit (Error e))
          | Inr (sv, _) \<Rightarrow>
              go_bind (cookie_runner_Run T grpc_NewClient cfg sv) (\<lambda>l. Ret (case l of
                Inl e \<Rightarrow> Exit (Error e)
              | Inr l \<Rightarrow> Serves (cfg, l))))))"

definition example_main ::
  "tls_env \<Rightarrow> (string \<Rightarrow> go_error + example_Config) \<Rightarrow> (string \<Rightarrow> go_error option) \<Rightarrow> string \<Rightarrow> (string \<times> TransportCredentials) outcome go" where
  "example_main T prototext net_Listen cfgFile =
     (if cfgFile = [] then Ret (Exit ''--config must be set'')
      else case example_loadConfig T prototext cfgFile of
        Inl e \<Rightarrow> Ret (Exit (Error e))
      | Inr cfg \<Rightarrow> go_bind (example_Run T net_Listen cfg) (\<lambda>r. Ret (case r of Inl e \<Rightarrow> Exit (Error e) | Inr l \<Rightarrow> Serves l)))"

definition helper_main ::
  "helper_env \<Rightarrow> (string \<Rightarrow> go_error + helper_Config) \<Rightarrow> string \<Rightarrow> string \<Rightarrow> string \<Rightarrow> string \<Rightarrow> (string option) go" where
  "helper_main E prototext host port csAddr cfgFile =
     (case buildConfig (he_tls E) prototext host port csAddr cfgFile of
        Inl e \<Rightarrow> Ret (Some (Error e))
      | Inr cfg \<Rightarrow>
          go_bind (agent_New (he_tls E) cfg) (\<lambda>a. case a of
            Inl e \<Rightarrow> Ret (Some (Error e))
          | Inr client \<Rightarrow> go_bind (agent_Run E cfg client) (\<lambda>err. Ret (map_option Error err))))"

section \<open>The relay\<close>

lemma relay_loadConfig_ok:
  assumes "relay_loadConfig T prototext file = Inr cfg"
  shows "rc_OriginCookieName cfg \<noteq> []" "rc_ProtocolVersions cfg \<noteq> []" "\<exists>so. rc_ServerOptions cfg = Some so \<and> so_Port so \<noteq> []"
  using assms by (auto simp: relay_loadConfig_def Let_def split: sum.splits option.splits if_splits)

lemma relay_New_server:
  "relay_New T cfg = Ret (Inr r) \<Longrightarrow> \<exists>so. rc_ServerOptions cfg = Some so \<and> NewServer T so = Inr (rn_server r) \<and> rn_cfg r = cfg"
  by (auto simp: relay_New_def split: option.splits sum.splits prod.splits)


section \<open>The Cookie Server and the helper\<close>

definition grpc_tls :: "cookie_Config \<Rightarrow> TlsConfig option" where
  "grpc_tls cfg = (case cc_GrpcOptions cfg of None \<Rightarrow> None | Some g \<Rightarrow> go_TlsConfig g)"



definition one_file :: tls_env where
  "one_file = no_files\<lparr>os_ReadFile := \<lambda>_. Inr ''cfg''\<rparr>"

lemma NewServer_tls: "tls_Config_of E (so_TlsConfig cfg) = tls_Config_of E' (so_TlsConfig cfg) \<Longrightarrow> NewServer E cfg = NewServer E' cfg"
  by (cases "SplitHostPort (so_Addr cfg)") (simp_all add: NewServer_def Let_def)

lemma NewServer_one_file: "NewServer one_file plain_options = Inr plain_server"
proof -
  have "tls_Config_of one_file (so_TlsConfig plain_options) = tls_Config_of no_files (so_TlsConfig plain_options)"
    by (simp add: tls_Config_of_def plain_options_def plain_tls_def GetTlsMode_def loadCerts_def GetClientCaCerts_def GetRootCaCerts_def
        ClientAuthType_def GetClientAuthType_def)
  with NewServer_plain NewServer_tls show ?thesis by metis
qed


end
