(* ===== verification/Spec2Isabelle.thy ===== *)
theory Spec2Isabelle
  imports Duplex_V4 Duplex_V1 Writer_Lock Writer_Race Connect_Race Relay_Service Relay_System Programs
begin

text \<open>
  ssh-relay carries SSH over a WebSocket through an HTTP(S) relay. It has three programs. The Cookie Server authorises a client
  (through a gRPC backend) and gives it an origin cookie and the address of a relay. The relay checks the cookie, dials the SSH
  host, and copies bytes between the SSH connection and the client's WebSocket, in one of two protocols: corp-relay@google.com
  (/proxy, then /connect) and corp-relay-v4@google.com (/v4/connect). The helper is the client for \<^verbatim>\<open>ssh(1)\<close>: it authenticates, opens
  the WebSocket, and copies between it and its standard input and output, with the same session code as the relay. This
  development models the programs' own Go code; paths below are relative to \<^verbatim>\<open>src/\<close>.

  \<^bold>\<open>Foundations.\<close> \<open>Relay_Prelude\<close>: machine words, byte strings, errors as values (\<open>go_error\<close>, with wrapping, \<open>errors_Is\<close>, \<open>errors_Unwrap\<close>),
  calls that may panic (\<open>go\<close>), big-endian codecs. \<open>Go_IO\<close>: \<^verbatim>\<open>io.Writer\<close> (locale \<open>writer\<close>, its contract), readers, \<^verbatim>\<open>bufio\<close>. \<open>Net_Url\<close>: query
  strings, \<^verbatim>\<open>ParseUint\<close>, hosts and ports. \<open>Url_Text\<close> and \<open>Net_Cookie\<close>: the texts of URLs and of cookies, with their escaping and sanitising, how they are
  made and how they are read, and that what is read is what was written. \<open>Net_Http\<close>: requests, whose Cookie header lines are read there, and the
  response writer.

  \<^bold>\<open>The v4 wire format.\<close> \<open>Command\<close> models \<^verbatim>\<open>session/corprelayv4/command/command.go\<close>. The parser accepts exactly the canonical images of
  the well-formed commands (\<open>codec\<close>), is total, reports the right error, and the writers put exactly that image on any writer.

  \<^bold>\<open>Sessions.\<close> \<open>Session_Iface\<close> has the vocabulary of \<^verbatim>\<open>session/session.go\<close>, the libraries the sessions take as parameters (\<open>uuid_lib\<close>, with
  its documented behaviour in \<open>uuid_text_ok\<close> and a concrete instance \<open>rfc4122\<close>; \<open>io_env\<close>, the outcomes of the WebSocket and SSH
  connections) and the contract \<open>byte_relay\<close> that both protocols implement. \<open>Session_V4\<close> (record \<open>v4\<close>) and \<open>Session_V1\<close> (record \<open>v1\<close>) model
  \<^verbatim>\<open>session/corprelayv4/corprelayv4.go\<close> and \<^verbatim>\<open>session/corprelay/corprelay.go\<close>: every handler, and the two loops as recursion over the list
  of messages or reads they are given, so no fuel is needed (nor anywhere else in the
  development: all functions are total). Their theorems: data is delivered in order and counted modulo the width of the protocol; an
  acknowledgement is sent only for delivered data; the session ID is set once; handling a message returns with the mutex free; an
  error reaches the peer. \<open>Duplex_V4\<close> puts two v4 sessions back to back (\<open>net_step\<close>, one turn of one of the four loops)
  and shows by an invariant that nothing is lost, duplicated or reordered in either direction under any interleaving, that neither
  peer reports an error, and that everything in flight can be drained and acknowledged. \<open>Duplex_V1\<close> does the same for two corp-relay
  sessions, up to and including the end of a session: the other end writes all that was read before it learns of the failure.

  \<^bold>\<open>Single calls.\<close> The session theories take a turn of a loop as one step. \<open>Writer_Lock\<close> justifies this for corp-relay-v4: it has every call
  on the writer's mutex and on the message writer as a step of its own (\<open>fine_step\<close>) and shows by a simulation that any interleaving
  writes what some sequence of whole turns (\<open>turn_step\<close>) writes, and that the mutex is always released. \<open>Writer_Race\<close> does the same for corp-relay,
  which has no such lock, and finds the one case in which two goroutines write at once, and that the error bits of the last
  acknowledgement can be lost (\<open>Duplex_V1\<close> takes the end of a \<^verbatim>\<open>Run\<close> as one step). Acknowledgements in words of 64 bits are shown to
  be equivalent to unbounded counting (in \<open>Session_V4\<close>).

  \<^bold>\<open>The registry and the goroutines.\<close> \<open>Manager\<close> models \<^verbatim>\<open>relay/session/manager/manager.go\<close> over an association list; it refines a bounded
  partial map and is an instance of the locale \<open>session_registry\<close>, on which the handlers rely. \<open>Lifecycle\<close> models the goroutines of a
  session (the two loops, the handler in \<^verbatim>\<open>Run\<close>, the deadline of \<^verbatim>\<open>SetDeadline\<close>, the manager's watcher) and the unbuffered channels \<^verbatim>\<open>errc\<close>
  and \<^verbatim>\<open>done\<close> as a step relation: what \<^verbatim>\<open>Run\<close> returns, when the SSH connection is closed, how a session ends and which goroutines are left
  blocked, and when the registry forgets it. \<open>Connect_Race\<close> has any number of /connect requests for one corp-relay session: the mutex keeps their
  \<^verbatim>\<open>Run\<close>s apart, but not their loops, and all but two of their handlers stay blocked. \<open>Relay_System\<close> lets the goroutines of any number of sessions step on one manager
  (\<open>sys_step\<close>): the manager knows exactly the sessions that were not given back, the session limit bounds the open connections, and
  sessions that are never given back can use the limit up for good.

  \<^bold>\<open>HTTP.\<close> \<open>Requests\<close> models the parsers of \<^verbatim>\<open>request/\<close>, \<^verbatim>\<open>relay/request/\<close> and \<^verbatim>\<open>cookie-server/request/cookie/cookie.go\<close>; \<open>Http_Server\<close> models
  \<^verbatim>\<open>duration/\<close>, \<^verbatim>\<open>tls/\<close> and \<^verbatim>\<open>http/\<close>; \<open>Relay_Runner\<close> models \<^verbatim>\<open>relay/runner/\<close>, the /connect handler and the relay's \<^verbatim>\<open>loadConfig\<close>;
  \<open>Relay_Service\<close> lets the relay serve any sequence of requests (\<open>relay_serve_all\<close>), each through its path and the closure of \<^verbatim>\<open>HandleFunc\<close>: it never
  panics, keeps its limits, and every session that is run traces back to the requests that opened it and asked for it; \<open>Json\<close> models what is
  used of \<^verbatim>\<open>encoding/json\<close> (an encoder, and a decoder by a scanner with a stack), and \<open>Response\<close> models
  \<^verbatim>\<open>response/response.go\<close>; \<open>Cookie_Server\<close> models \<^verbatim>\<open>cookie-server/\<close>; \<open>Helper\<close> models \<^verbatim>\<open>helper/\<close>. Their theorems: which responses a request gets
  and what it does to the registry, that a session is only run for the origin the cookie names, that a cookie is only given to an
  authorised client and that no text in a request can add to it, that configurations are checked and TLS is not weakened by omission, that the
  texts of the helper's requests are read as what they mean, and that the helper does not panic.

  \<^bold>\<open>Programs.\<close> \<open>Programs\<close> composes these parts into the four \<^verbatim>\<open>main\<close> functions: when each of them starts, fails with a message, or panics.

  \<^bold>\<open>This theory\<close> holds the properties that span the programs: the requests that the helper makes are the ones that the Cookie Server
  and the relay accept, and lead to the session that was asked for.

  \<^bold>\<open>Conventions.\<close> A struct is a record, an interface a datatype of its implementations, a pointer that may be nil an option. An \<open>int\<close>
  of Go is \<open>int\<close> or \<open>nat\<close> where it cannot overflow, and a word where the code relies on its width. What is not the program's own code is an
  argument: the network, files, the WebSocket library, gRPC, the protobuf text format, the UUID library, and what \<^verbatim>\<open>html/template\<close>
  makes of a string inside a script. Go maps whose order does not matter are association lists.

  \<^bold>\<open>Not modelled.\<close> Logging; flag parsing and what happens once a server stops serving; generated protobuf code; \<^verbatim>\<open>tools.go\<close> and the build files. Of the
  standard library only what these programs use: a URL has no user, fragment or opaque part, a path is not rewritten, and the \<^verbatim>\<open>Expires\<close>
  attribute of a cookie, which no program sets or reads, is skipped. Steps are interleaved, so memory is sequentially consistent: the
  corp-relay session's counter, which two goroutines read and write without a lock, is read and written whole. When two goroutines
  write to one WebSocket at once the model stops, since the library leaves open what happens.
\<close>

section \<open>The helper and the Cookie Server\<close>

lemma authURL_read: "url_Parse (authURL addr insecure) = Inr x \<Longrightarrow> x = auth_url addr insecure"
  unfolding request_urls by (rule url_roundtrip [OF request_urls_made(1)])

lemma helper_cookie_New:
  assumes "rq_RawQuery req = u_RawQuery (auth_url addr insecure)"
  shows "cookie_New req = Inr \<lparr>cr_Ext = ExtID, cr_Path = ''/'', cr_Version = 2, cr_Method = DIRECT\<rparr>"
proof -
  have q: "Query_Get req k = Values_Get k (Values_Set ''method'' redirMethod (Values_Set ''version'' (itoa clientVersion)
      (Values_Set ''path'' ''/'' (Values_Set ''ext'' ExtID []))))" for k
    by (simp add: Query_Get_def assms auth_url_def)
  have "ParseUint (itoa clientVersion) = (2, None)" "itoa clientVersion \<noteq> []"
    by (simp_all add: clientVersion_def itoa_decimal)
  then show ?thesis
    by (simp add: cookie_New_def cookie_version_def Uint_def q redirMethod_def redirectionMethodMap_def ExtID_def)
qed

text \<open>
  The Cookie Server at the other end of the helper's HTTP client: the text of the URL is read, its path selects the handler, and the response is what
  that handler wrote for the query, on a fresh response writer, with the Set-Cookie lines that were sent.
\<close>

definition cookie_server_answers :: "cookie_env \<Rightarrow> cookie_Config \<Rightarrow> server \<times> string list \<Rightarrow> string \<Rightarrow> http_response \<Rightarrow> bool" where
  "cookie_server_answers CE cfg sv u resp =
     (case url_Parse u of
        Inl _ \<Rightarrow> False
      | Inr x \<Rightarrow>
          (case cookie_serve CE cfg sv (u_Path x) \<lparr>rq_RawQuery = u_RawQuery x, rq_Header = []\<rparr> of
             Ret w \<Rightarrow> rs_Body resp = rw_Body w \<and> Header_Values (rs_Header resp) ''Set-Cookie'' = rw_SetCookies w
           | Panic _ \<Rightarrow> False))"

text \<open>The request of the helper for which the backend decides, and the cookie that it is meant to get.\<close>

definition helper_request :: cookie_request where
  "helper_request = \<lparr>cr_Ext = ExtID, cr_Path = ''/'', cr_Version = 2, cr_Method = DIRECT\<rparr>"

definition helper_cookie :: "pb_Cookie \<Rightarrow> Duration \<Rightarrow> http_cookie" where
  "helper_cookie c age = (origin_read c age)\<lparr>ck_Value := ''chrome-extension://sshRelayHelper'', ck_Quoted := False\<rparr>"

lemma cookie_serve_direct:
  assumes "cookie_runner_New T cfg = Ret (Inr sv)"
    and "cookie_New req = Inr cr" and "cc_OriginCookie cfg = Some c" and "FromProto 0 (pc_MaxAge c) = (age, None)"
    and "ce_Authorize CE cr = Inr \<lparr>ar_Redirect = Some (Endpoint a), ar_Status = None, ar_Method = DIRECT\<rparr>"
    and "MarshalXSSI (FromEndpoint a) = Inr body"
  shows "\<exists>w. cookie_serve CE cfg sv ''/cookie'' req = Ret w \<and> rw_Body w = body \<and> rw_SetCookies w = origin_line c age (cr_Ext cr)"
proof -
  let ?w = "SetHSTS (sv_hstsMaxAge (fst sv)) (so_HstsIncludeSubdomains (sv_cfg (fst sv))) (NoCache rw_New)"
  have n: "rw_Sent ?w = None" "rw_Cookies ?w = []" "rw_Body ?w = []"
    by (simp_all add: SetHSTS_def NoCache_def rw_defs rw_New_def rw_Cookies_def Header_Values_Set Header_Values_Add Let_def)
  from assms(2-6) n(1,3) obtain w where w: "handleCookie CE cfg req ?w = Ret w" "rw_Body w = body"
    by (auto simp: handleCookie_def cookie_handler_New_def cookie_Handle_def redirectEndpoint_def redirectXSSI_def setCookies_def SetCookie_def rw_defs)
  have "snd sv = [''/cookie'']" using assms(1) by (auto simp: cookie_runner_New_def split: option.splits sum.splits)
  then have s: "cookie_serve CE cfg sv ''/cookie'' req = Ret w" using w(1) by (simp add: cookie_serve_def HandleFunc_def)
  have "authorised CE cr" using assms(5) by (simp add: authorised_def)
  with handleCookie_lines [OF n(1,2) assms(3,4) w(1)] w(2) s assms(2) show ?thesis by simp
qed

lemma read_helper_line: "isToken (pc_Name c) \<Longrightarrow> Response_Cookies (origin_line c age ExtID) = [helper_cookie c age]"
proof -
  assume t: "isToken (pc_Name c)"
  have "clean ExtID = ExtID" "read_quoted (''chrome-extension://'' @ ExtID) False = False" by code_simp+
  with read_origin_line [OF t, of age ExtID] show ?thesis by (simp add: helper_cookie_def ExtID_def)
qed

lemma FromReader_body:
  assumes "MarshalXSSI r = Inr body"
  shows "FromReader body = (Some (coerce_response r), None)"
  using assms by (auto simp: MarshalXSSI_def FromReader_XSSI_body json_Decode_Marshal split: sum.splits)

lemma authenticate_direct:
  assumes "client_Get E client (authURL addr (client_insecure client)) = Inr resp"
    and "cookie_runner_New T cfg = Ret (Inr sv)" and "cookie_server_answers CE cfg sv (authURL addr (client_insecure client)) resp"
    and "cc_OriginCookie cfg = Some c" and "isToken (pc_Name c)" and "FromProto 0 (pc_MaxAge c) = (age, None)"
    and "ce_Authorize CE helper_request = Inr \<lparr>ar_Redirect = Some (Endpoint a), ar_Status = None, ar_Method = DIRECT\<rparr>" and "valid_utf8 a"
  shows "Authenticate E addr client = Inr (AddDefaultPort a DefaultPort, [helper_cookie c age])"
proof -
  obtain body where b: "MarshalXSSI (FromEndpoint a) = Inr body" using MarshalXSSI_ok by blast
  obtain x where x: "url_Parse (authURL addr (client_insecure client)) = Inr x"
    using assms(3) by (cases "url_Parse (authURL addr (client_insecure client))") (simp_all add: cookie_server_answers_def)
  then have path: "u_Path x = ''/cookie''" using authURL_read [OF x] by (simp add: auth_url_def)
  let ?req = "\<lparr>rq_RawQuery = u_RawQuery x, rq_Header = []\<rparr>"
  have n: "cookie_New ?req = Inr helper_request" unfolding helper_request_def
    by (rule helper_cookie_New [of _ addr "client_insecure client"]) (simp add: authURL_read [OF x])
  from cookie_serve_direct [OF assms(2) n assms(4,6,7) b] obtain w where w: "cookie_serve CE cfg sv ''/cookie'' ?req = Ret w" "rw_Body w = body"
    "rw_SetCookies w = origin_line c age ExtID" by (auto simp: helper_request_def)
  with assms(3) x path have r: "rs_Body resp = body" "Header_Values (rs_Header resp) ''Set-Cookie'' = origin_line c age ExtID"
    by (simp_all add: cookie_server_answers_def)
  have "resp_Cookies resp = [helper_cookie c age]" by (simp add: resp_Cookies_def r(2) read_helper_line [OF assms(5)])
  moreover have "coerce_response (FromEndpoint a) = FromEndpoint a"
    by (simp add: coerce_response_def FromEndpoint_def coerce_utf8_valid [OF assms(8)] coerce_tags)
  ultimately show ?thesis using r(1) FromReader_body [OF b] assms(1) by (simp add: Authenticate_def FromEndpoint_def)
qed

text \<open>
  The helper and the Cookie Server understand each other: when the backend authorises the helper's request with the address
  of a relay, then what the Cookie Server writes gives the helper exactly that address (with the default port added if it has none)
  and the origin cookie for the helper's extension, read back from its text.
\<close>

lemma helper_authenticates:
  assumes "client_Get E client (authURL addr (client_insecure client)) = Inr resp"
    and "cookie_runner_New T cfg = Ret (Inr sv)" and "cookie_server_answers CE cfg sv (authURL addr (client_insecure client)) resp"
    and "cc_OriginCookie cfg = Some c" and "isToken (pc_Name c)" and "FromProto 0 (pc_MaxAge c) = (age, None)"
    and "ce_Authorize CE helper_request = Inr \<lparr>ar_Redirect = Some (Endpoint a), ar_Status = None, ar_Method = DIRECT\<rparr>" and "valid_utf8 a"
  shows "Authenticate E addr client = Inr (AddDefaultPort a DefaultPort,
    [(origin_read c age)\<lparr>ck_Value := ''chrome-extension://sshRelayHelper'', ck_Quoted := False\<rparr>]) \<and> ck_Name (origin_read c age) = pc_Name c"
  using authenticate_direct [OF assms] origin_read_flags by (simp add: helper_cookie_def)

lemma demo_line: "origin_line demo_cookie 60000000000 ExtID = Header_Values (rs_Header demo_response) ''Set-Cookie''"
  by code_simp

lemma demo_helper_facts:
  "client_Get demo_helper_env DefaultClient (authURL ''cookie:8022'' (client_insecure DefaultClient)) = Inr demo_response"
  "cookie_runner_New no_files demo_cookie_cfg = Ret (Inr (plain_server, [''/cookie'']))"
  "cookie_server_answers demo_cookie_env demo_cookie_cfg (plain_server, [''/cookie'']) (authURL ''cookie:8022'' (client_insecure DefaultClient)) demo_response"
  "cc_OriginCookie demo_cookie_cfg = Some demo_cookie" "isToken (pc_Name demo_cookie)" "FromProto 0 (pc_MaxAge demo_cookie) = (60000000000, None)"
  "ce_Authorize demo_cookie_env helper_request = Inr \<lparr>ar_Redirect = Some (Endpoint ''relay:8022''), ar_Status = None, ar_Method = DIRECT\<rparr>"
  "valid_utf8 ''relay:8022''"
proof -
  have "simple_host (u_Host (auth_url ''cookie:8022'' False))" using demo_hosts by (simp add: auth_url_def)
  then have u: "url_Parse (authURL ''cookie:8022'' False) = Inr (auth_url ''cookie:8022'' False)"
    unfolding request_urls by (rule url_read_simple [OF request_urls_made(1)])
  then show "client_Get demo_helper_env DefaultClient (authURL ''cookie:8022'' (client_insecure DefaultClient)) = Inr demo_response"
    by (simp add: client_Get_def http_NewRequest_def demo_helper_env_def)
  let ?req = "\<lparr>rq_RawQuery = u_RawQuery (auth_url ''cookie:8022'' False), rq_Header = []\<rparr>"
  have n: "cookie_New ?req = Inr helper_request" unfolding helper_request_def by (rule helper_cookie_New) simp
  show a: "ce_Authorize demo_cookie_env helper_request = Inr \<lparr>ar_Redirect = Some (Endpoint ''relay:8022''), ar_Status = None, ar_Method = DIRECT\<rparr>"
    by (simp add: demo_cookie_env_def example_Authorize_def helper_request_def)
  show c: "cc_OriginCookie demo_cookie_cfg = Some demo_cookie" "FromProto 0 (pc_MaxAge demo_cookie) = (60000000000, None)"
    by (simp_all add: demo_cookie_cfg_def demo_cookie_def FromProto_def)
  have m: "MarshalXSSI (FromEndpoint ''relay:8022'') = Inr (rs_Body demo_response)"
    by (simp add: MarshalXSSI_def Response_Marshal_def demo_response_def)
  show r: "cookie_runner_New no_files demo_cookie_cfg = Ret (Inr (plain_server, [''/cookie'']))"
    by (simp add: cookie_runner_New_def demo_cookie_cfg_def NewServer_plain)
  from cookie_serve_direct [OF r n c a m] u demo_line
  show "cookie_server_answers demo_cookie_env demo_cookie_cfg (plain_server, [''/cookie'']) (authURL ''cookie:8022'' (client_insecure DefaultClient)) demo_response"
    by (auto simp: cookie_server_answers_def helper_request_def auth_url_def)
  show "isToken (pc_Name demo_cookie)" using demo_token by (simp add: demo_cookie_def)
  show "valid_utf8 ''relay:8022''" by (simp add: ascii_valid)
qed

section \<open>The helper and the relay\<close>

text \<open>
  The request that the relay sees when the helper opens \<^verbatim>\<open>/v4/connect\<close>: the URL is read from its text, and the cookies from the header.
\<close>

definition v4_client_request :: "v4_client \<Rightarrow> http_request option" where
  "v4_client_request s =
     (case url_Parse (v4_connectURL s) of Inl _ \<Rightarrow> None | Inr u \<Rightarrow> Some \<lparr>rq_RawQuery = u_RawQuery u, rq_Header = connectHeader s\<rparr>)"

lemma v4_client_request_made:
  "v4_client_request s = Some req \<Longrightarrow> req = \<lparr>rq_RawQuery = u_RawQuery (v4_connect_url (h4_opts s)), rq_Header = connectHeader s\<rparr>"
  using url_roundtrip [OF request_urls_made(2), of "h4_opts s"] by (auto simp: v4_client_request_def request_urls split: sum.splits)

text \<open>
  The relay's side: a request of the helper that carries the right cookie is given a session. The attributes that the helper sends along with the
  cookie are read as cookies of their own, after it, and so never hide it.
\<close>

lemma v4_request_gets_session:
  assumes "v4_client_request s = Some req"
    and "op_Cookies (h4_opts s) = [k]" and "solid k" and "ck_Name k = rc_OriginCookieName cfg" and "ck_Value k = ''chrome-extension://'' @ ExtID"
    and "op_Origin (h4_opts s) = ''chrome-extension://'' @ ExtID"
    and "re_Dial E (JoinHostPort (op_Host (h4_opts s)) (op_Port (h4_opts s))) = None"
    and "re_Upgrade E True req (served r) = (served r, None)"
    and "relay_New T cfg = Ret (Inr r)" and "CORP_RELAY_V4 \<in> set (rc_ProtocolVersions cfg)"
    and "mgr_maxSessions (rl_mgr st) \<le> 0 \<or> int (length (mgr_sessions (rl_mgr st))) < mgr_maxSessions (rl_mgr st)"
  shows "\<exists>st'. relay_serve r E ''/v4/connect'' req st = Ret (served r, st') \<and>
    rl_ran st' = Sess_V4 (v4_New (re_fresh E) Server) # rl_ran st \<and>
    rl_conns st' = (JoinHostPort (op_Host (h4_opts s)) (op_Port (h4_opts s)), Some (re_fresh E)) # rl_conns st"
proof -
  note r = v4_client_request_made [OF assms(1)]
  have q: "Query_Get req ''host'' = op_Host (h4_opts s)" "Query_Get req ''port'' = op_Port (h4_opts s)"
    by (simp_all add: Query_Get_def r v4_connect_url_def)
  have h: "Header_Get (rq_Header req) ''Origin'' = ''chrome-extension://'' @ ExtID" by (simp add: Header_Get_def r connectHeader_def assms(6))
  have "Header_Values (rq_Header req) ''Cookie'' = [Cookie_String k]" by (simp add: Header_Values_def r connectHeader_def assms(2))
  moreover have c: "clean (''chrome-extension://'' @ ExtID) = ''chrome-extension://'' @ ExtID" "str_contains ''://'' (''chrome-extension://'' @ ExtID)"
    by code_simp+
  moreover have "rc_OriginCookieName cfg \<noteq> []" using assms(3,4) by (auto simp: solid_def isToken_def)
  ultimately have or: "Origin req (rc_OriginCookieName cfg) = Inr (''chrome-extension://'' @ ExtID)"
    using readCookies_String [OF assms(3)] assms(4,5) by (simp add: Origin_def Request_Cookie_def new_cookie_def)
  have "\<not> (mgr_maxSessions (rl_mgr st) > 0 \<and> int (length (mgr_sessions (rl_mgr st))) \<ge> mgr_maxSessions (rl_mgr st))"
    using assms(11) by auto
  then obtain m where "Manager_New (re_fresh E) CorpRelayV4 (rl_mgr st) = (m, Inr (Sess_V4 (v4_New (re_fresh E) Server)))"
    by (simp add: Manager_New_def version_session_def)
  moreover have "v4_sid (v4_New (re_fresh E) Server) = re_fresh E" by (simp add: v4_New_def)
  ultimately have "\<exists>st'. connectHandleV4 E cfg req (served r) st = Ret (served r, st') \<and>
    rl_ran st' = Sess_V4 (v4_New (re_fresh E) Server) # rl_ran st \<and>
    rl_conns st' = (JoinHostPort (op_Host (h4_opts s)) (op_Port (h4_opts s)), Some (re_fresh E)) # rl_conns st"
    using assms(7,8) by (auto simp: connectHandleV4_def v4_setup_def q h or Let_def split: option.splits)
  moreover have "map_of (rn_routes r) ''/v4/connect'' = Some Route_v4_connect" "rn_cfg r = cfg"
    using relay_New_facts [OF assms(9)] assms(10) by simp_all
  ultimately show ?thesis by (simp add: relay_serve_def HandleFunc_def served_def relay_handler_def)
qed

text \<open>
  C6. End to end, for corp-relay-v4, through all three programs: when the backend of the Cookie Server authorises the helper with the
  address of a relay (a plain host name, with a port or without), that relay uses the same origin cookie and can reach the SSH host, then the helper
  authenticates, takes the relay's address from the response, and the text of the /v4/connect request it then makes leads that relay to dial
  exactly the host and port of the helper's configuration, to register a session and to run it.
\<close>

theorem v4_end_to_end:
  assumes "client_Get E client (authURL addr (client_insecure client)) = Inr resp"
    and "cookie_runner_New T ccfg = Ret (Inr sv)" and "cookie_server_answers CE ccfg sv (authURL addr (client_insecure client)) resp"
    and "cc_OriginCookie ccfg = Some c" and "isToken (pc_Name c)" and "FromProto 0 (pc_MaxAge c) = (age, None)"
    and "ce_Authorize CE helper_request = Inr \<lparr>ar_Redirect = Some (Endpoint a), ar_Status = None, ar_Method = DIRECT\<rparr>" and "valid_utf8 a"
    and "simple_host (AddDefaultPort a DefaultPort)"
    and "relay_New T' rcfg = Ret (Inr r)" and "CORP_RELAY_V4 \<in> set (rc_ProtocolVersions rcfg)" and "rc_OriginCookieName rcfg = pc_Name c"
    and "re_Dial R (JoinHostPort (hc_Host hcfg) (hc_Port hcfg)) = None" and "\<And>req w. re_Upgrade R True req w = (w, None)"
    and "mgr_maxSessions (rl_mgr st) \<le> 0 \<or> int (length (mgr_sessions (rl_mgr st))) < mgr_maxSessions (rl_mgr st)"
  shows "\<exists>cookies u req w st'. Authenticate E addr client = Inr (AddDefaultPort a DefaultPort, cookies) \<and>
    url_Parse (v4_connectURL (v4_client_New (agent_options hcfg (AddDefaultPort a DefaultPort) cookies))) = Inr u \<and>
    u_Host u = AddDefaultPort a DefaultPort \<and>
    v4_client_request (v4_client_New (agent_options hcfg (AddDefaultPort a DefaultPort) cookies)) = Some req \<and>
    relay_serve r R (u_Path u) req st = Ret (w, st') \<and>
    rl_ran st' = Sess_V4 (v4_New (re_fresh R) Server) # rl_ran st \<and>
    rl_conns st' = (JoinHostPort (hc_Host hcfg) (hc_Port hcfg), Some (re_fresh R)) # rl_conns st"
proof -
  let ?s = "v4_client_New (agent_options hcfg (AddDefaultPort a DefaultPort) [helper_cookie c age])"
  have o: "op_Cookies (h4_opts ?s) = [helper_cookie c age]" "op_Origin (h4_opts ?s) = ''chrome-extension://'' @ ExtID"
    "op_Host (h4_opts ?s) = hc_Host hcfg" "op_Port (h4_opts ?s) = hc_Port hcfg" "op_Relay (h4_opts ?s) = AddDefaultPort a DefaultPort"
    by (simp_all add: agent_options_def v4_client_New_def)
  let ?u = "v4_connect_url (h4_opts ?s)"
  have uf: "u_Host ?u = AddDefaultPort a DefaultPort" "u_Path ?u = ''/v4/connect''" by (simp_all add: v4_connect_url_def o(5))
  have u: "url_Parse (v4_connectURL ?s) = Inr ?u"
    unfolding request_urls by (rule url_read_simple [OF request_urls_made(2)]) (simp add: uf(1) assms(9))
  then obtain req where req: "v4_client_request ?s = Some req" by (simp add: v4_client_request_def)
  have k: "solid (helper_cookie c age)" "ck_Name (helper_cookie c age) = rc_OriginCookieName rcfg"
    "ck_Value (helper_cookie c age) = ''chrome-extension://'' @ ExtID"
    using origin_read_solid [OF assms(5)] origin_read_flags [of c age] assms(12) by (simp_all add: helper_cookie_def ExtID_def)
  have d: "re_Dial R (JoinHostPort (op_Host (h4_opts ?s)) (op_Port (h4_opts ?s))) = None" using assms(13) o by simp
  from v4_request_gets_session [OF req o(1) k o(2) d assms(14,10,11,15)] obtain st' where
    "relay_serve r R (u_Path ?u) req st = Ret (served r, st')" "rl_ran st' = Sess_V4 (v4_New (re_fresh R) Server) # rl_ran st"
    "rl_conns st' = (JoinHostPort (hc_Host hcfg) (hc_Port hcfg), Some (re_fresh R)) # rl_conns st" unfolding o(3,4) uf(2) by blast
  with u uf(1) req authenticate_direct [OF assms(1-8)] show ?thesis by blast
qed

lemma demo_relay_address: "simple_host (AddDefaultPort ''relay:8022'' DefaultPort)"
proof -
  have "AddDefaultPort ''relay:8022'' DefaultPort = ''relay:8022''" by code_simp
  with demo_hosts show ?thesis by simp
qed

theorem v4_end_to_end_witness:
  "\<exists>cookies u req w st'. Authenticate demo_helper_env ''cookie:8022'' DefaultClient = Inr (AddDefaultPort ''relay:8022'' DefaultPort, cookies) \<and>
    url_Parse (v4_connectURL (v4_client_New (agent_options demo_helper_cfg (AddDefaultPort ''relay:8022'' DefaultPort) cookies))) = Inr u \<and>
    u_Host u = AddDefaultPort ''relay:8022'' DefaultPort \<and>
    v4_client_request (v4_client_New (agent_options demo_helper_cfg (AddDefaultPort ''relay:8022'' DefaultPort) cookies)) = Some req \<and>
    relay_serve demo_runner demo_env (u_Path u) req demo_state = Ret (w, st') \<and>
    rl_ran st' = Sess_V4 (v4_New (re_fresh demo_env) Server) # rl_ran demo_state \<and>
    rl_conns st' = (JoinHostPort (hc_Host demo_helper_cfg) (hc_Port demo_helper_cfg), Some (re_fresh demo_env)) # rl_conns demo_state"
  by (rule v4_end_to_end [OF demo_helper_facts demo_relay_address relay_New_demo])
    (simp_all add: demo_cookie_def demo_cfg_def demo_env_def demo_state_def manager_New_def)

text \<open>
  C7. End to end, for corp-relay: the body of a successful /proxy response is understood by the helper, and the text of the /connect request it
  then makes is accepted by the relay and names the very session that /proxy registered, from the start of the stream.
\<close>

theorem v1_helper_finds_session:
  assumes "uuid_text_ok (re_uuid E)" and "list_all unreserved (uuid_String (re_uuid E) (re_fresh E))"
    and "mgr_ok (rl_mgr st)" and "proxyHandle E cfg req rw_New st = (w', st')" and "rw_Status w' = 200"
    and "simple_host (op_Relay (h1_opts h))"
  shows "\<exists>h' u s. parseProxyResp (rw_Body w') h = (h', None) \<and>
    url_Parse (snd (v1_connectURL h')) = Inr u \<and> u_Host u = op_Relay (h1_opts h) \<and> u_Path u = ''/connect'' \<and>
    connect_New (re_uuid E) \<lparr>rq_RawQuery = u_RawQuery u, rq_Header = v1_connectHeader h'\<rparr> =
      Inr \<lparr>cn_SID = re_fresh E, cn_ack = 0, cn_pos = 0, cn_try = 1\<rparr> \<and>
    Manager_Get (re_fresh E) (rl_mgr st') = Inr s \<and> session_SID s = re_fresh E"
proof -
  let ?t = "uuid_String (re_uuid E) (re_fresh E)"
  have new: "rw_Sent rw_New = None" "rw_Body rw_New = []" by (simp_all add: rw_New_def)
  from assms(4) obtain s where s: "Manager_New (re_fresh E) CorpRelay (rl_mgr st) = (rl_mgr st', Inr s)" and b: "rw_Body w' = ?t"
  proof (cases rule: proxyHandle_cases)
    case (refused msg code)
    with assms(5) http_Error_fresh(1) [OF new(1), of msg code] show ?thesis by auto
  next
    case (registered m' s origin)
    with Manager_New_ok_session [OF registered(1) assms(3)] new that show ?thesis by (auto simp: rw_defs)
  qed
  note reg = Manager_New_ok_session [OF s assms(3)]
  have len: "?t \<noteq> []" using assms(1) by (auto simp: uuid_text_ok_def dest: spec [of _ "re_fresh E"])
  let ?h = "h\<lparr>h1_query := [(''sid'', ?t)]\<rparr>" and ?u = "v1_connect_url (h\<lparr>h1_query := [(''sid'', ?t)]\<rparr>)"
  have p: "parseProxyResp (rw_Body w') h = (?h, None)"
    using ParseQuery_single [of "''sid''" ?t] assms(2) len by (simp add: parseProxyResp_def b unreserved_def)
  have u: "url_Parse (snd (v1_connectURL ?h)) = Inr ?u" "u_Host ?u = op_Relay (h1_opts h)" "u_Path ?u = ''/connect''"
    unfolding request_urls using url_read_simple [OF request_urls_made(4), of ?h] assms(6) by (simp_all add: v1_connect_url_def)
  let ?r = "\<lparr>rq_RawQuery = u_RawQuery ?u, rq_Header = v1_connectHeader ?h\<rparr>"
  have q: "Query_Get ?r k = Values_Get k [(''sid'', ?t), (''ack'', ''0''), (''pos'', ''0''), (''try'', ''1'')]" for k
    by (simp add: Query_Get_def v1_connect_url_def Values_Add_def)
  have "uuid_Parse (re_uuid E) ?t = (re_fresh E, None)" using assms(1) by (simp add: uuid_text_ok_def)
  then have "connect_New (re_uuid E) ?r = Inr \<lparr>cn_SID = re_fresh E, cn_ack = 0, cn_pos = 0, cn_try = 1\<rparr>"
    by (simp add: connect_New_def Uint_def q ParseUint_def uint_cutoff_def is_digit_def Let_def)
  with p u reg show ?thesis by (auto simp: mgr.get_view)
qed

lemma hex_text_unreserved: "list_all unreserved (hex_text k n)"
proof (induction k arbitrary: n)
  case (Suc k)
  have "unreserved (hex_char d)" if "d < 16" for d using that by (auto simp: hex_char_def unreserved_def is_digit_def)
  with Suc show ?case by simp
qed simp

lemma rfc4122_unreserved: "list_all unreserved (uuid_String rfc4122 u)"
proof -
  have "unreserved (CHR ''-'')" by (simp add: unreserved_def)
  with hex_text_unreserved [of 32 "unat u"] show ?thesis
    by (auto simp: rfc4122_def dashed_def list_all_iff dest: in_set_takeD in_set_dropD)
qed

theorem v1_helper_finds_session_witness:
  "\<exists>h' u s. parseProxyResp (rw_Body (fst (proxyHandle demo_env demo_cfg demo_request rw_New demo_state)))
      (v1_client_New 6 (agent_options demo_helper_cfg ''relay:8022'' [])) = (h', None) \<and>
    url_Parse (snd (v1_connectURL h')) = Inr u \<and>
    connect_New (re_uuid demo_env) \<lparr>rq_RawQuery = u_RawQuery u, rq_Header = v1_connectHeader h'\<rparr> =
      Inr \<lparr>cn_SID = re_fresh demo_env, cn_ack = 0, cn_pos = 0, cn_try = 1\<rparr> \<and>
    Manager_Get (re_fresh demo_env) (rl_mgr (snd (proxyHandle demo_env demo_cfg demo_request rw_New demo_state))) = Inr s \<and> session_SID s = re_fresh demo_env"
proof -
  let ?h = "v1_client_New 6 (agent_options demo_helper_cfg ''relay:8022'' [])"
  have u: "uuid_text_ok (re_uuid demo_env)" "list_all unreserved (uuid_String (re_uuid demo_env) (re_fresh demo_env))"
    by (simp_all add: demo_env_def uuid_text_ok_rfc4122 rfc4122_unreserved)
  have w: "rw_Status (fst (proxyHandle demo_env demo_cfg demo_request rw_New demo_state)) = 200"
    by (simp add: proxyHandle_def proxy_New_def demo_simps demo_cfg_def demo_env_def demo_state_def Manager_New_def manager_New_def
        version_session_def rw_defs rw_Status_def rw_New_def)
  have h: "simple_host (op_Relay (h1_opts ?h))" using demo_hosts by (simp add: v1_client_New_def agent_options_def)
  from v1_helper_finds_session [OF u demo_simps(4) surjective_pairing w h] show ?thesis by blast
qed

section \<open>The relay's configuration and its sessions\<close>

text \<open>
  C40. A relay whose configuration leaves \<^verbatim>\<open>max_session_age\<close> out ends its sessions at once, instead of never: the deadline of every
  session is zero, so it may close the SSH connection before any time has passed and before the session has been run.
\<close>

theorem unset_max_age_expires_at_once:
  assumes "relay_New T cfg = Ret (Inr r)" and "rc_MaxSessionAge cfg = None" and "life_start f v (rn_mgr r) = Some l0"
  shows "l_max l0 = 0 \<and> (\<exists>l. life_step l0 l \<and> \<not> l_open l \<and> l_age l = 0 \<and> l_run l = Run_off)"
proof -
  have "mgr_maxAge (rn_mgr r) = 0"
    using assms(1,2) by (auto simp: relay_New_def manager_New_def FromProto_def split: option.splits sum.splits)
  with assms(3) have l0: "l_max l0 = 0" "l_age l0 = 0" "l_timer l0 = Timer_waiting" "l_run l0 = Run_off"
    by (auto simp: life_start_def split: prod.splits sum.splits)
  have "life_step l0 (l0\<lparr>l_timer := Timer_closing, l_open := False\<rparr>)" by (rule life_step.expires) (simp_all add: l0)
  then show ?thesis using l0 by (intro conjI exI [of _ "l0\<lparr>l_timer := Timer_closing, l_open := False\<rparr>"]) simp_all
qed

lemma life_start_demo_runner: "\<exists>l. life_start 5 CorpRelay (rn_mgr demo_runner) = Some l"
  by (auto simp: life_start_def demo_runner_def Manager_New_def manager_New_def version_session_def)

theorem unset_max_age_expires_at_once_witness:
  "\<exists>l0. life_start 5 CorpRelay (rn_mgr demo_runner) = Some l0 \<and> l_max l0 = 0 \<and>
     (\<exists>l. life_step l0 l \<and> \<not> l_open l \<and> l_age l = 0 \<and> l_run l = Run_off)"
proof -
  obtain l0 where l0: "life_start 5 CorpRelay (rn_mgr demo_runner) = Some l0" using life_start_demo_runner by blast
  have "rc_MaxSessionAge demo_cfg = None" by (simp add: demo_cfg_def)
  from unset_max_age_expires_at_once [OF relay_New_demo this l0] l0 show ?thesis by blast
qed

end
